(* ===== verification/Prelude.thy ===== *)
theory Prelude
  imports Main
begin

text \<open>
  Shared vocabulary of the development: the bounded unsigned arithmetic of the daemon (it is
  built for 64-bit Linux only, so \<open>usize\<close> and \<open>u64\<close> have the same range), results as sums,
  removal by index from a queue, and the reachability predicate and invariant interface that
  every state machine of the development instantiates.
\<close>

section \<open>Collections of rewrite rules\<close>

named_theorems sat_simps \<open>unfolding rules of the saturating and checked operations\<close>
named_theorems reply_simps \<open>what the replies of an operation contain\<close>

section \<open>Unsigned 64-bit arithmetic on natural numbers\<close>

text \<open>
  A \<open>u64\<close> or \<open>usize\<close> of the source is a natural number of at most \<open>u64_max\<close>.  The
  operations write out what the source does at the upper end: saturate, or report overflow.
\<close>

abbreviation u64_max :: nat where
  "u64_max \<equiv> 18446744073709551615"

definition sat_add :: "nat \<Rightarrow> nat \<Rightarrow> nat" where
  [sat_simps]: "sat_add a b = min (a + b) u64_max"

definition sat_mul :: "nat \<Rightarrow> nat \<Rightarrow> nat" where
  [sat_simps]: "sat_mul a b = min (a * b) u64_max"

definition sat_sub :: "nat \<Rightarrow> nat \<Rightarrow> nat" where
  [sat_simps]: "sat_sub a b = a - b"

definition checked_add :: "nat \<Rightarrow> nat \<Rightarrow> nat option" where
  [sat_simps]: "checked_add a b = (if a + b \<le> u64_max then Some (a + b) else None)"

definition checked_sub :: "nat \<Rightarrow> nat \<Rightarrow> nat option" where
  [sat_simps]: "checked_sub a b = (if b \<le> a then Some (a - b) else None)"

definition div_ceil :: "nat \<Rightarrow> nat \<Rightarrow> nat" where
  "div_ceil a b = (if a mod b = 0 then a div b else a div b + 1)"

lemma sat_add_exact: "a + b \<le> u64_max \<Longrightarrow> sat_add a b = a + b"
  by (simp add: sat_simps)

lemma sat_add_le [simp]: "sat_add a b \<le> u64_max"
  by (simp add: sat_simps)

lemma sat_add_le_sum: "sat_add a b \<le> a + b"
  by (simp add: sat_simps)

lemma sat_add_bound: "a \<le> x \<Longrightarrow> b \<le> y \<Longrightarrow> x + y \<le> z \<Longrightarrow> sat_add a b \<le> z"
  using sat_add_le_sum [of a b] by linarith

lemma sat_mul_bound:
  assumes "a \<le> x" "b \<le> y" "x * y \<le> z"
  shows "sat_mul a b \<le> z"
  using mult_le_mono [OF assms(1,2)] assms(3) by (simp add: sat_mul_def)

lemma sat_mul_le [simp]: "sat_mul a b \<le> u64_max"
  by (simp add: sat_simps)

lemma sat_add_leD: "sat_add a b \<le> c \<Longrightarrow> c < u64_max \<Longrightarrow> a + b \<le> c"
  by (simp add: sat_simps)

lemma checked_add_Some: "checked_add a b = Some c \<longleftrightarrow> c = a + b \<and> a + b \<le> u64_max"
  by (auto simp: sat_simps)

lemma checked_add_None: "checked_add a b = None \<longleftrightarrow> u64_max < a + b"
  by (auto simp: sat_simps)

lemma div_ceil_le: "a \<le> k * b \<Longrightarrow> 0 < b \<Longrightarrow> div_ceil a b \<le> k"
proof -
  assume a: "a \<le> k * b" and b: "0 < b"
  show ?thesis
  proof (cases "a mod b = 0")
    case True
    have "a div b \<le> k * b div b" using a by (rule div_le_mono)
    then show ?thesis using True b by (simp add: div_ceil_def)
  next
    case False
    have "a < k * b"
      using a False by (cases "a = k * b") auto
    then have "a div b < k" using b by (simp add: less_mult_imp_div_less)
    then show ?thesis using False by (simp add: div_ceil_def)
  qed
qed

lemma div_ceil_ge:
  assumes "0 < b"
  shows "a \<le> div_ceil a b * b"
proof -
  have "a = a div b * b + a mod b" by simp
  moreover have "a mod b \<le> b" using assms by (simp add: less_imp_le)
  ultimately have "a \<le> a div b * b + b" by linarith
  then show ?thesis by (auto simp: div_ceil_def add_mult_distrib)
qed

section \<open>Results\<close>

text \<open>A fallible operation returns \<open>Inl\<close> of its error or \<open>Inr\<close> of its value; \<open>bind_result\<close>
  is the question-mark operator.\<close>

fun bind_result :: "'e + 'a \<Rightarrow> ('a \<Rightarrow> 'e + 'b) \<Rightarrow> 'e + 'b" where
  "bind_result (Inl e) f = Inl e"
| "bind_result (Inr x) f = f x"

definition ok_or :: "'a option \<Rightarrow> 'e \<Rightarrow> 'e + 'a" where
  "ok_or x e = (case x of None \<Rightarrow> Inl e | Some y \<Rightarrow> Inr y)"

lemma ok_or_simps [simp]: "ok_or None e = Inl e" "ok_or (Some y) e = Inr y"
  by (simp_all add: ok_or_def)

lemma bind_result_Inr: "bind_result m f = Inr y \<longleftrightarrow> (\<exists>x. m = Inr x \<and> f x = Inr y)"
  by (cases m) auto

lemma bind_result_InrE:
  assumes "bind_result m f = Inr y"
  obtains x where "m = Inr x" "f x = Inr y"
  using assms by (cases m) auto

lemma ok_or_Inr [simp]: "ok_or x e = Inr y \<longleftrightarrow> x = Some y"
  by (cases x) auto

section \<open>Removing an element of a queue by index\<close>

definition remove_at :: "nat \<Rightarrow> 'a list \<Rightarrow> 'a list" where
  "remove_at i xs = take i xs @ drop (Suc i) xs"

lemma remove_at_Cons [simp]:
  "remove_at 0 (x # xs) = xs"
  "remove_at (Suc i) (x # xs) = x # remove_at i xs"
  by (simp_all add: remove_at_def)

lemma length_remove_at [simp]:
  "i < length xs \<Longrightarrow> length (remove_at i xs) = length xs - 1"
  by (simp add: remove_at_def)

lemma map_remove_at: "map f (remove_at i xs) = remove_at i (map f xs)"
  by (simp add: remove_at_def take_map drop_map)

lemma set_remove_at_subset: "set (remove_at i xs) \<subseteq> set xs"
  by (auto simp: remove_at_def dest: in_set_takeD in_set_dropD)

lemma in_set_remove_atD: "x \<in> set (remove_at i xs) \<Longrightarrow> x \<in> set xs"
  by (rule subsetD [OF set_remove_at_subset])

lemma split_remove_at:
  assumes "i < length xs"
  shows "\<exists>ys zs. xs = ys @ xs ! i # zs \<and> remove_at i xs = ys @ zs"
  using id_take_nth_drop [OF assms] unfolding remove_at_def by blast

lemma sum_list_remove_at:
  fixes xs :: "nat list"
  assumes "i < length xs"
  shows "sum_list (remove_at i xs) + xs ! i = sum_list xs"
proof -
  obtain ys zs where "xs = ys @ xs ! i # zs" "remove_at i xs = ys @ zs"
    using split_remove_at [OF assms] by blast
  then show ?thesis by (metis ab_semigroup_add_class.add_ac(1) add.commute sum_list.Cons
      sum_list_append)
qed

lemma sum_list_nth_le:
  fixes xs :: "nat list"
  shows "i < length xs \<Longrightarrow> xs ! i \<le> sum_list xs"
  by (simp add: member_le_sum_list)

lemma sum_list_bound:
  fixes f :: "'a \<Rightarrow> nat"
  shows "(\<And>x. x \<in> set xs \<Longrightarrow> f x \<le> b) \<Longrightarrow> sum_list (map f xs) \<le> length xs * b"
  by (induction xs) (auto intro: add_mono)

lemma sorted_wrt_remove_at: "sorted_wrt P xs \<Longrightarrow> sorted_wrt P (remove_at i xs)"
proof (cases "i < length xs")
  case True
  assume s: "sorted_wrt P xs"
  obtain ys zs where "xs = ys @ xs ! i # zs" "remove_at i xs = ys @ zs"
    using split_remove_at [OF True] by blast
  then show ?thesis using s by (metis sorted_wrt_append sorted_wrt.simps(2) list.set_intros(2))
next
  case False
  assume "sorted_wrt P xs"
  then show ?thesis using False by (simp add: remove_at_def)
qed

section \<open>Reachable states and invariants\<close>

text \<open>
  \<open>reach init step\<close> holds of the states a machine reaches from an initial state.  The interface
  \<open>step_invariant\<close> is what a component proves once about its steps; its lemma is what the
  properties of the components rest on.
\<close>

inductive reach :: "('s \<Rightarrow> bool) \<Rightarrow> ('s \<Rightarrow> 's \<Rightarrow> bool) \<Rightarrow> 's \<Rightarrow> bool"
  for init step where
  reach_init: "init s \<Longrightarrow> reach init step s"
| reach_step: "reach init step s \<Longrightarrow> step s t \<Longrightarrow> reach init step t"

locale step_invariant =
  fixes init :: "'s \<Rightarrow> bool"
    and step :: "'s \<Rightarrow> 's \<Rightarrow> bool"
    and inv :: "'s \<Rightarrow> bool"
  assumes inv_init: "init s \<Longrightarrow> inv s"
    and inv_step: "inv s \<Longrightarrow> step s t \<Longrightarrow> inv t"
begin

lemma reach_inv: "reach init step s \<Longrightarrow> inv s"
  by (induction rule: reach.induct) (auto intro: inv_init inv_step)

end

end
