(* ===== verification/Engine.thy ===== *)
theory Engine
  imports Prelude
begin

text \<open>
  The database engines the daemon manages: the protocol enumeration with its two string
  conversions (\<open>databases/protocol.rs\<close>), the engine families, the per-engine cost profile of an
  import or export job and the profile of a shared pool (\<open>databases/engine\<close> and the engines'
  own \<open>engine.rs\<close> files), and the unit conversions of \<open>utils/limits.rs\<close>.
\<close>

section \<open>Protocols\<close>

datatype protocol =
    Postgres | Redis | Valkey | Mariadb | Mysql | Mongodb | Clickhouse | Qdrant

datatype protocol_parse_error = ProtocolParseError string

fun as_str :: "protocol \<Rightarrow> string" where
  "as_str Postgres = ''postgres''"
| "as_str Redis = ''redis''"
| "as_str Valkey = ''valkey''"
| "as_str Mariadb = ''mariadb''"
| "as_str Mysql = ''mysql''"
| "as_str Mongodb = ''mongodb''"
| "as_str Clickhouse = ''clickhouse''"
| "as_str Qdrant = ''qdrant''"

definition from_str :: "string \<Rightarrow> protocol_parse_error + protocol" where
  "from_str value =
     (if value = ''postgres'' \<or> value = ''postgresql'' then Inr Postgres
      else if value = ''redis'' then Inr Redis
      else if value = ''valkey'' then Inr Valkey
      else if value = ''mariadb'' then Inr Mariadb
      else if value = ''mysql'' then Inr Mysql
      else if value = ''mongodb'' \<or> value = ''mongo'' then Inr Mongodb
      else if value = ''clickhouse'' \<or> value = ''ch'' then Inr Clickhouse
      else if value = ''qdrant'' \<or> value = ''qdrant-grpc'' then Inr Qdrant
      else Inl (ProtocolParseError value))"

section \<open>Engine families\<close>

datatype engine_family =
    FamilyPostgres | FamilyMysql | FamilyDocument | FamilyColumnar | FamilyResp | FamilyVector

fun family :: "protocol \<Rightarrow> engine_family" where
  "family Postgres = FamilyPostgres"
| "family Redis = FamilyResp"
| "family Valkey = FamilyResp"
| "family Mariadb = FamilyMysql"
| "family Mysql = FamilyMysql"
| "family Mongodb = FamilyDocument"
| "family Clickhouse = FamilyColumnar"
| "family Qdrant = FamilyVector"

fun family_is_physical :: "engine_family \<Rightarrow> bool" where
  "family_is_physical FamilyResp = True"
| "family_is_physical FamilyVector = True"
| "family_is_physical _ = False"

definition is_physical :: "protocol \<Rightarrow> bool" where
  "is_physical p = family_is_physical (family p)"

definition native_export_compression :: "protocol \<Rightarrow> bool" where
  "native_export_compression p = (if p = Mongodb then True else is_physical p)"

section \<open>Cost and pool profiles\<close>

record job_cost_profile =
  base_memory_mib :: nat
  io_multiplier :: nat
  base_cpu_units :: nat
  stream_memory_divisor :: nat
  stream_memory_cap_mib :: nat

definition SQL_JOB_COST :: job_cost_profile where
  "SQL_JOB_COST = \<lparr>base_memory_mib = 96, io_multiplier = 4, base_cpu_units = 1,
     stream_memory_divisor = 32, stream_memory_cap_mib = 256\<rparr>"

definition PHYSICAL_JOB_COST :: job_cost_profile where
  "PHYSICAL_JOB_COST = \<lparr>base_memory_mib = 128, io_multiplier = 2, base_cpu_units = 1,
     stream_memory_divisor = 32, stream_memory_cap_mib = 256\<rparr>"

definition mongodb_job_cost :: job_cost_profile where
  "mongodb_job_cost = \<lparr>base_memory_mib = 256, io_multiplier = 4, base_cpu_units = 2,
     stream_memory_divisor = 16, stream_memory_cap_mib = 512\<rparr>"

definition clickhouse_job_cost :: job_cost_profile where
  "clickhouse_job_cost = \<lparr>base_memory_mib = 192, io_multiplier = 3, base_cpu_units = 2,
     stream_memory_divisor = 32, stream_memory_cap_mib = 256\<rparr>"

fun job_cost :: "protocol \<Rightarrow> job_cost_profile" where
  "job_cost Postgres = SQL_JOB_COST"
| "job_cost Redis = PHYSICAL_JOB_COST"
| "job_cost Valkey = PHYSICAL_JOB_COST"
| "job_cost Mariadb = SQL_JOB_COST"
| "job_cost Mysql = SQL_JOB_COST"
| "job_cost Mongodb = mongodb_job_cost"
| "job_cost Clickhouse = clickhouse_job_cost"
| "job_cost Qdrant = PHYSICAL_JOB_COST"

lemmas job_cost_defs =
  SQL_JOB_COST_def PHYSICAL_JOB_COST_def mongodb_job_cost_def clickhouse_job_cost_def

text \<open>The disk overhead of \<open>shared_pool\<close>; the engines without a shared pool return none.\<close>

fun shared_pool_disk_overhead_mib :: "protocol \<Rightarrow> nat option" where
  "shared_pool_disk_overhead_mib Postgres = Some 2048"
| "shared_pool_disk_overhead_mib Mysql = Some 512"
| "shared_pool_disk_overhead_mib Mariadb = Some 512"
| "shared_pool_disk_overhead_mib Mongodb = Some 512"
| "shared_pool_disk_overhead_mib Clickhouse = Some 1024"
| "shared_pool_disk_overhead_mib Redis = None"
| "shared_pool_disk_overhead_mib Valkey = None"
| "shared_pool_disk_overhead_mib Qdrant = None"

section \<open>Bytes and mebibytes\<close>

abbreviation BYTES_PER_MIB :: nat where
  "BYTES_PER_MIB \<equiv> 1048576"

definition mib_to_bytes :: "nat \<Rightarrow> nat" where
  "mib_to_bytes mib = sat_mul mib BYTES_PER_MIB"

definition bytes_to_mib_ceil :: "nat \<Rightarrow> nat" where
  "bytes_to_mib_ceil bytes = div_ceil bytes BYTES_PER_MIB"

lemma bytes_to_mib_ceil_le: "b \<le> u64_max \<Longrightarrow> bytes_to_mib_ceil b \<le> 17592186044416"
  unfolding bytes_to_mib_ceil_def by (rule div_ceil_le) auto

lemma bytes_to_mib_ceil_ge: "b \<le> bytes_to_mib_ceil b * BYTES_PER_MIB"
  unfolding bytes_to_mib_ceil_def by (rule div_ceil_ge) simp

section \<open>Properties\<close>

text \<open>The two string conversions of a protocol agree: parsing the name an engine is stored
  under gives the engine back, so distinct engines have distinct names.\<close>

theorem protocol_roundtrip: "from_str (as_str p) = Inr p"
  by (cases p) (simp_all add: from_str_def)

end
