(* ===== verification/Scheduler.thy ===== *)
theory Scheduler
  imports Engine "HOL-Library.Multiset" "HOL-Library.Sublist"
begin

text \<open>
  The execution scheduler of import and export jobs
  (\<open>server/jobs/import_export/scheduler/\<close>): the cost estimate of a job, the capacity detected
  from a resource sample, the queue with bounded bypassing, and the operations that change the
  scheduler's state under its mutex.

  Every operation reads the clock once and samples the resource provider once; both are
  arguments.  The one-shot channel of a waiting job is the flag \<open>wj_open\<close>: whether the future
  that waits for the permit still holds its receiver, so that a send reaches it.  A send is a
  reply in the list the operation returns.
\<close>

section \<open>Cost estimates\<close>

record job_resource_cost =
  jc_input_size_bytes :: nat
  jc_memory_mib :: nat
  jc_io_mib :: nat
  jc_cpu_units :: nat

record job_estimate_input =
  ei_protocol :: protocol
  ei_input_size_bytes :: nat
  ei_rollback_size_bytes :: nat
  ei_wipe :: bool
  ei_compressed :: bool
  ei_export :: bool

definition estimate :: "job_estimate_input \<Rightarrow> job_resource_cost" where
  "estimate input =
     (let source_mib = max (bytes_to_mib_ceil (ei_input_size_bytes input)) 1;
          cost = job_cost (ei_protocol input);
          stream_memory =
            min (source_mib div stream_memory_divisor cost) (stream_memory_cap_mib cost);
          compression_memory = of_bool (ei_compressed input) * 64;
          logical_wipe = (ei_wipe input \<and> ei_rollback_size_bytes input > 0);
          rollback_memory = of_bool logical_wipe * 64;
          memory_mib = sat_add (sat_add (sat_add (base_memory_mib cost) stream_memory)
                         compression_memory) rollback_memory;
          io_mib =
            (if ei_export input then sat_mul source_mib 2
             else let rollback_io =
                    (if logical_wipe
                     then sat_mul (bytes_to_mib_ceil (ei_rollback_size_bytes input)) 2 else 0)
                  in sat_add (sat_mul source_mib (io_multiplier cost)) rollback_io);
          cpu_units = base_cpu_units cost + of_bool (ei_compressed input) + of_bool logical_wipe
      in \<lparr>jc_input_size_bytes = ei_input_size_bytes input, jc_memory_mib = max memory_mib 1,
          jc_io_mib = max io_mib 1, jc_cpu_units = max cpu_units 1\<rparr>)"

definition protocol_uses_logical_dumps :: "protocol \<Rightarrow> bool" where
  "protocol_uses_logical_dumps p = (\<not> is_physical p)"

definition MAX_DATA_ARCHIVE_BYTES :: nat where
  "MAX_DATA_ARCHIVE_BYTES = 68719476736"

definition conservative_import_input_bytes ::
    "protocol \<Rightarrow> nat \<Rightarrow> nat \<Rightarrow> nat \<Rightarrow> bool \<Rightarrow> nat" where
  "conservative_import_input_bytes p source_bytes prepared_ceiling_bytes target_disk_mib
     compressed =
     (if compressed \<and> \<not> protocol_uses_logical_dumps p
      then min (max (sat_mul target_disk_mib BYTES_PER_MIB) 1) MAX_DATA_ARCHIVE_BYTES
      else if compressed then max prepared_ceiling_bytes 1
      else max source_bytes 1)"

section \<open>Configuration and capacity\<close>

datatype scheduler_mode = Dynamic | Manual

record scheduler_config =
  dynamic_limiter_enabled :: bool
  max_queued_jobs :: nat
  max_queued_jobs_per_instance :: nat
  manual_max_active_jobs :: nat
  dynamic_max_active_jobs :: nat
  dynamic_memory_budget_mib :: nat
  dynamic_io_budget_mib :: nat
  dynamic_cpu_units :: nat
  starvation_timeout_seconds :: nat
  config_max_bypass :: nat

definition default_scheduler_config :: scheduler_config where
  "default_scheduler_config = \<lparr>dynamic_limiter_enabled = True, max_queued_jobs = 1024,
     max_queued_jobs_per_instance = 32, manual_max_active_jobs = 16,
     dynamic_max_active_jobs = 256, dynamic_memory_budget_mib = 0, dynamic_io_budget_mib = 0,
     dynamic_cpu_units = 0, starvation_timeout_seconds = 30, config_max_bypass = 8\<rparr>"

text \<open>Configuration validation; the error names the rejected field.\<close>

definition validate_scheduler_config :: "scheduler_config \<Rightarrow> string + unit" where
  "validate_scheduler_config c =
     (if \<not> (64 \<le> max_queued_jobs c \<and> max_queued_jobs c \<le> 8192) then Inl ''max_queued_jobs''
      else if max_queued_jobs_per_instance c = 0 \<or> max_queued_jobs_per_instance c > 256
              \<or> max_queued_jobs_per_instance c > max_queued_jobs c
      then Inl ''max_queued_jobs_per_instance''
      else if manual_max_active_jobs c = 0 \<or> manual_max_active_jobs c > 1024
              \<or> manual_max_active_jobs c > max_queued_jobs c
      then Inl ''manual_max_active_jobs''
      else if dynamic_max_active_jobs c = 0 \<or> dynamic_max_active_jobs c > 1024
              \<or> dynamic_max_active_jobs c > max_queued_jobs c
      then Inl ''dynamic_max_active_jobs''
      else if dynamic_memory_budget_mib c \<noteq> 0
              \<and> \<not> (128 \<le> dynamic_memory_budget_mib c \<and> dynamic_memory_budget_mib c \<le> 16777216)
      then Inl ''dynamic_memory_budget_mib''
      else if dynamic_io_budget_mib c \<noteq> 0
              \<and> \<not> (256 \<le> dynamic_io_budget_mib c \<and> dynamic_io_budget_mib c \<le> 67108864)
      then Inl ''dynamic_io_budget_mib''
      else if dynamic_cpu_units c > 65536 then Inl ''dynamic_cpu_units''
      else if \<not> (1 \<le> starvation_timeout_seconds c \<and> starvation_timeout_seconds c \<le> 3600)
      then Inl ''starvation_timeout_seconds''
      else if config_max_bypass c > 1024 then Inl ''max_bypass''
      else Inr ())"

record resource_sample =
  available_memory_mib :: "nat option"
  sample_cpu_units :: "nat option"
  memory_valid :: bool
  cpu_valid :: bool

record scheduler_capacity =
  cap_mode :: scheduler_mode
  cap_max_active_jobs :: nat
  cap_memory_budget_mib :: nat
  cap_io_budget_mib :: nat
  cap_cpu_units :: nat

definition FALLBACK_AVAILABLE_MEMORY_MIB :: nat where
  "FALLBACK_AVAILABLE_MEMORY_MIB = 4096"

definition memory_budget_from_available :: "nat \<Rightarrow> nat" where
  "memory_budget_from_available available_mib = max (sat_mul available_mib 3 div 5) 1"

definition ratio :: "nat \<Rightarrow> nat \<Rightarrow> nat" where
  "ratio amount each = amount div max each 1"

definition unwrap_or :: "'a option \<Rightarrow> 'a \<Rightarrow> 'a" where
  "unwrap_or x d = (case x of None \<Rightarrow> d | Some y \<Rightarrow> y)"

definition detect_with_provider ::
    "scheduler_config \<Rightarrow> nat \<Rightarrow> nat \<Rightarrow> resource_sample \<Rightarrow> scheduler_capacity" where
  "detect_with_provider config max_upload_bytes max_total_upload_bytes sample =
     (let mode = (if dynamic_limiter_enabled config then Dynamic else Manual);
          memory_budget =
            (if dynamic_memory_budget_mib config = 0
             then memory_budget_from_available
                    (if memory_valid sample
                     then unwrap_or (available_memory_mib sample) FALLBACK_AVAILABLE_MEMORY_MIB
                     else 1)
             else dynamic_memory_budget_mib config);
          io_budget =
            (if dynamic_io_budget_mib config = 0
             then max (bytes_to_mib_ceil
                    (max (max max_total_upload_bytes (sat_mul max_upload_bytes 6))
                      (sat_mul MAX_DATA_ARCHIVE_BYTES 2))) 256
             else dynamic_io_budget_mib config);
          cpu =
            (if dynamic_cpu_units config = 0
             then unwrap_or (if cpu_valid sample then sample_cpu_units sample else None) 1
             else dynamic_cpu_units config);
          max_active =
            (case mode of Dynamic \<Rightarrow> dynamic_max_active_jobs config
                        | Manual \<Rightarrow> manual_max_active_jobs config)
      in \<lparr>cap_mode = mode, cap_max_active_jobs = max_active,
          cap_memory_budget_mib = memory_budget, cap_io_budget_mib = io_budget,
          cap_cpu_units = max cpu 1\<rparr>)"

definition model_recommended_active_jobs ::
    "scheduler_capacity \<Rightarrow> job_resource_cost \<Rightarrow> nat \<Rightarrow> nat" where
  "model_recommended_active_jobs cap cost maximum =
     (let by_memory = ratio (cap_memory_budget_mib cap) (jc_memory_mib cost) in
      if by_memory = 0 then 0
      else let by_io = max (ratio (cap_io_budget_mib cap) (jc_io_mib cost)) 1;
               by_cpu = max (cap_cpu_units cap div max (jc_cpu_units cost) 1) 1
           in min (min (min maximum by_memory) by_io) by_cpu)"

definition recommended_active_jobs :: "scheduler_capacity \<Rightarrow> job_resource_cost \<Rightarrow> nat" where
  "recommended_active_jobs cap cost =
     (if cap_mode cap = Manual then cap_max_active_jobs cap
      else model_recommended_active_jobs cap cost (cap_max_active_jobs cap))"

section \<open>Scheduler state\<close>

datatype acquire_error = Closed | InsufficientCapacity

datatype reply = Granted job_resource_cost | Refused acquire_error

text \<open>A reply is addressed to the sequence number of the job it answers.\<close>

type_synonym replies = "(nat \<times> reply) list"

record waiting_job =
  wj_sequence :: nat
  wj_queued_at :: nat
  wj_bypasses :: nat
  wj_cost :: job_resource_cost
  wj_open :: bool

record scheduler_shared =
  starvation_timeout :: nat
  max_bypass :: nat
  auto_memory_budget :: bool
  auto_cpu_units :: bool

record scheduler_state =
  ss_capacity :: scheduler_capacity
  pending_memory_increase_mib :: "nat option"
  pending_cpu_increase :: "nat option"
  refresh_wakeup_scheduled :: bool
  ss_accepting :: bool
  next_sequence :: nat
  active_jobs :: nat
  active_memory_mib :: nat
  active_io_mib :: nat
  active_cpu_units :: nat
  ss_waiting :: "waiting_job list"

definition new_shared :: "scheduler_config \<Rightarrow> scheduler_shared" where
  "new_shared config = \<lparr>starvation_timeout = starvation_timeout_seconds config * 1000000000,
     max_bypass = config_max_bypass config,
     auto_memory_budget = (dynamic_memory_budget_mib config = 0),
     auto_cpu_units = (dynamic_cpu_units config = 0)\<rparr>"

definition new_state :: "scheduler_capacity \<Rightarrow> scheduler_state" where
  "new_state capacity = \<lparr>ss_capacity = capacity, pending_memory_increase_mib = None,
     pending_cpu_increase = None, refresh_wakeup_scheduled = False, ss_accepting = True,
     next_sequence = 0, active_jobs = 0, active_memory_mib = 0, active_io_mib = 0,
     active_cpu_units = 0, ss_waiting = []\<rparr>"

section \<open>Refreshing the capacity\<close>

definition refreshes_capacity :: "scheduler_shared \<Rightarrow> bool" where
  "refreshes_capacity sh = (auto_memory_budget sh \<or> auto_cpu_units sh)"

text \<open>A lower sample applies at once; a higher one is held back until a second higher sample
  confirms it, and then the smaller of the two applies.\<close>

definition apply_capacity_sample ::
    "nat \<Rightarrow> nat option \<Rightarrow> nat \<Rightarrow> nat \<times> nat option" where
  "apply_capacity_sample current pending candidate =
     (if candidate \<le> current then (candidate, None)
      else case pending of
             Some previous \<Rightarrow> (min previous candidate, None)
           | None \<Rightarrow> (current, Some candidate))"

definition refresh_memory :: "scheduler_shared \<Rightarrow> resource_sample \<Rightarrow> scheduler_state \<Rightarrow>
    scheduler_state" where
  "refresh_memory sh sample st =
     (if auto_memory_budget sh then
        if memory_valid sample then
          let (current, pending) =
                apply_capacity_sample (cap_memory_budget_mib (ss_capacity st))
                  (pending_memory_increase_mib st)
                  (memory_budget_from_available
                    (unwrap_or (available_memory_mib sample) FALLBACK_AVAILABLE_MEMORY_MIB))
          in st\<lparr>ss_capacity := (ss_capacity st)\<lparr>cap_memory_budget_mib := current\<rparr>,
                pending_memory_increase_mib := pending\<rparr>
        else st\<lparr>ss_capacity := (ss_capacity st)\<lparr>cap_memory_budget_mib := 1\<rparr>,
                pending_memory_increase_mib := None\<rparr>
      else st)"

definition refresh_cpu :: "scheduler_shared \<Rightarrow> resource_sample \<Rightarrow> scheduler_state \<Rightarrow>
    scheduler_state" where
  "refresh_cpu sh sample st =
     (if auto_cpu_units sh then
        if cpu_valid sample then
          let (current, pending) =
                apply_capacity_sample (cap_cpu_units (ss_capacity st)) (pending_cpu_increase st)
                  (max (unwrap_or (sample_cpu_units sample) 1) 1)
          in st\<lparr>ss_capacity := (ss_capacity st)\<lparr>cap_cpu_units := current\<rparr>,
                pending_cpu_increase := pending\<rparr>
        else st\<lparr>ss_capacity := (ss_capacity st)\<lparr>cap_cpu_units := 1\<rparr>,
                pending_cpu_increase := None\<rparr>
      else st)"

definition refresh_capacity ::
    "scheduler_shared \<Rightarrow> resource_sample \<Rightarrow> scheduler_state \<Rightarrow> scheduler_state" where
  "refresh_capacity sh sample st =
     (if \<not> refreshes_capacity sh then st
      else refresh_cpu sh sample (refresh_memory sh sample st))"

section \<open>Choosing and granting jobs\<close>

definition fits_hard_memory :: "scheduler_capacity \<Rightarrow> job_resource_cost \<Rightarrow> bool" where
  "fits_hard_memory capacity cost =
     (cap_mode capacity = Manual \<or> jc_memory_mib cost \<le> cap_memory_budget_mib capacity)"

definition fits :: "scheduler_capacity \<Rightarrow> scheduler_state \<Rightarrow> job_resource_cost \<Rightarrow> bool" where
  "fits capacity st cost =
     (if cap_mode capacity = Manual then active_jobs st < cap_max_active_jobs capacity
      else sat_add (active_memory_mib st) (jc_memory_mib cost) \<le> cap_memory_budget_mib capacity
           \<and> sat_add (active_io_mib st) (jc_io_mib cost) \<le> cap_io_budget_mib capacity
           \<and> sat_add (active_cpu_units st) (jc_cpu_units cost) \<le> cap_cpu_units capacity)"

definition reserve :: "scheduler_state \<Rightarrow> job_resource_cost \<Rightarrow> scheduler_state" where
  "reserve st cost = st\<lparr>active_jobs := sat_add (active_jobs st) 1,
     active_memory_mib := sat_add (active_memory_mib st) (jc_memory_mib cost),
     active_io_mib := sat_add (active_io_mib st) (jc_io_mib cost),
     active_cpu_units := sat_add (active_cpu_units st) (jc_cpu_units cost)\<rparr>"

definition release :: "scheduler_state \<Rightarrow> job_resource_cost \<Rightarrow> scheduler_state" where
  "release st cost = st\<lparr>active_jobs := sat_sub (active_jobs st) 1,
     active_memory_mib := sat_sub (active_memory_mib st) (jc_memory_mib cost),
     active_io_mib := sat_sub (active_io_mib st) (jc_io_mib cost),
     active_cpu_units := sat_sub (active_cpu_units st) (jc_cpu_units cost)\<rparr>"

definition elapsed :: "nat \<Rightarrow> nat \<Rightarrow> nat" where
  "elapsed now start = now - start"

text \<open>The search of \<open>runnable_index\<close> past the head: the first job queued after it that fits.\<close>

fun find_later :: "scheduler_state \<Rightarrow> nat \<Rightarrow> nat \<Rightarrow> waiting_job list \<Rightarrow> nat option" where
  "find_later st head_sequence index [] = None"
| "find_later st head_sequence index (w # ws) =
     (if wj_sequence w > head_sequence \<and> fits (ss_capacity st) st (wj_cost w) then Some index
      else find_later st head_sequence (Suc index) ws)"

definition runnable_index :: "scheduler_shared \<Rightarrow> nat \<Rightarrow> scheduler_state \<Rightarrow> nat option" where
  "runnable_index sh now st =
     (case ss_waiting st of
        [] \<Rightarrow> None
      | head # rest \<Rightarrow>
          let head_fits_hard_memory = fits_hard_memory (ss_capacity st) (wj_cost head);
              head_runs_alone = (active_jobs st = 0 \<and> head_fits_hard_memory)
          in if fits (ss_capacity st) st (wj_cost head) \<or> head_runs_alone then Some 0
             else let waiting_for_live_capacity =
                        (cap_mode (ss_capacity st) = Dynamic \<and> \<not> head_fits_hard_memory);
                      head_is_starving =
                        (wj_bypasses head \<ge> max_bypass sh
                         \<or> elapsed now (wj_queued_at head) \<ge> starvation_timeout sh)
                  in if \<not> waiting_for_live_capacity \<and> head_is_starving then None
                     else find_later st (wj_sequence head) 1 rest)"

fun bump_head :: "waiting_job list \<Rightarrow> waiting_job list" where
  "bump_head [] = []"
| "bump_head (w # ws) = w\<lparr>wj_bypasses := sat_add (wj_bypasses w) 1\<rparr> # ws"

text \<open>A send on the job's channel reaches the job while its receiver is alive.\<close>

definition send_ready :: "waiting_job \<Rightarrow> reply \<Rightarrow> replies" where
  "send_ready w r = (if wj_open w then [(wj_sequence w, r)] else [])"

text \<open>One pass of the loop of \<open>dispatch\<close>: whether the loop goes on, the state, the replies.  A
  permit that cannot be sent gives its reservation back.\<close>

definition dispatch_iteration ::
    "scheduler_shared \<Rightarrow> nat \<Rightarrow> scheduler_state \<Rightarrow> bool \<times> scheduler_state \<times> replies" where
  "dispatch_iteration sh now st =
     (if ss_accepting st \<and> active_jobs st < cap_max_active_jobs (ss_capacity st) then
        case runnable_index sh now st of
          None \<Rightarrow> (False, st, [])
        | Some index \<Rightarrow>
            let st1 = (if index > 0 then st\<lparr>ss_waiting := bump_head (ss_waiting st)\<rparr> else st)
            in if index < length (ss_waiting st1) then
                 let waiting = ss_waiting st1 ! index;
                     st2 = reserve (st1\<lparr>ss_waiting := remove_at index (ss_waiting st1)\<rparr>)
                             (wj_cost waiting)
                 in if wj_open waiting
                    then (True, st2, send_ready waiting (Granted (wj_cost waiting)))
                    else (True, release st2 (wj_cost waiting), [])
               else (False, st1, [])
      else (False, st, []))"

lemma length_bump_head [simp]: "length (bump_head ws) = length ws"
  by (cases ws) auto

lemma dispatch_iteration_shrinks:
  "dispatch_iteration sh now st = (True, st', rs) \<Longrightarrow>
   length (ss_waiting st') < length (ss_waiting st)"
  by (auto simp: dispatch_iteration_def reserve_def release_def Let_def
      split: if_splits option.splits)

function dispatch_loop ::
    "scheduler_shared \<Rightarrow> nat \<Rightarrow> scheduler_state \<Rightarrow> scheduler_state \<times> replies" where
  "dispatch_loop sh now st =
     (case dispatch_iteration sh now st of
        (go, st', rs) \<Rightarrow>
          if go then (case dispatch_loop sh now st' of (st'', rs') \<Rightarrow> (st'', rs @ rs'))
          else (st', rs))"
  by pat_completeness auto
termination
  by (relation "measure (\<lambda>(sh, now, st). length (ss_waiting st))")
    (auto dest: dispatch_iteration_shrinks [OF sym])

declare dispatch_loop.simps [simp del]

fun reject_loop :: "scheduler_shared \<Rightarrow> nat \<Rightarrow> scheduler_capacity \<Rightarrow> waiting_job list \<Rightarrow>
    waiting_job list \<times> replies" where
  "reject_loop sh now capacity [] = ([], [])"
| "reject_loop sh now capacity (w # ws) =
     (case reject_loop sh now capacity ws of (kept, rs) \<Rightarrow>
        let expired = elapsed now (wj_queued_at w) \<ge> starvation_timeout sh;
            unfit = \<not> fits_hard_memory capacity (wj_cost w)
        in if expired \<and> unfit then (kept, send_ready w (Refused InsufficientCapacity) @ rs)
           else (w # kept, rs))"

definition reject_expired_unfit_jobs ::
    "scheduler_shared \<Rightarrow> nat \<Rightarrow> scheduler_state \<Rightarrow> scheduler_state \<times> replies" where
  "reject_expired_unfit_jobs sh now st =
     (if cap_mode (ss_capacity st) \<noteq> Dynamic then (st, [])
      else case reject_loop sh now (ss_capacity st) (ss_waiting st) of
             (kept, rs) \<Rightarrow> (st\<lparr>ss_waiting := kept\<rparr>, rs))"

text \<open>The delayed wakeup is spawned only on a runtime thread (\<open>in_runtime\<close>).\<close>

definition schedule_capacity_refresh ::
    "scheduler_shared \<Rightarrow> bool \<Rightarrow> scheduler_state \<Rightarrow> scheduler_state" where
  "schedule_capacity_refresh sh in_runtime st =
     (if refresh_wakeup_scheduled st \<or> \<not> refreshes_capacity sh then st
      else if \<not> in_runtime then st
      else st\<lparr>refresh_wakeup_scheduled := True\<rparr>)"

definition dispatch :: "scheduler_shared \<Rightarrow> bool \<Rightarrow> nat \<Rightarrow> resource_sample \<Rightarrow>
    scheduler_state \<Rightarrow> scheduler_state \<times> replies" where
  "dispatch sh in_runtime now sample st =
     (case reject_expired_unfit_jobs sh now (refresh_capacity sh sample st) of (st1, rs1) \<Rightarrow>
        case dispatch_loop sh now st1 of (st2, rs2) \<Rightarrow>
          ((if ss_accepting st2 \<and> ss_waiting st2 \<noteq> []
            then schedule_capacity_refresh sh in_runtime st2 else st2), rs1 @ rs2))"

section \<open>The operations\<close>

definition structurally_exceeds_fixed_budget ::
    "scheduler_shared \<Rightarrow> scheduler_state \<Rightarrow> job_resource_cost \<Rightarrow> bool" where
  "structurally_exceeds_fixed_budget sh st cost =
     (cap_mode (ss_capacity st) = Dynamic \<and> \<not> auto_memory_budget sh
      \<and> jc_memory_mib cost > cap_memory_budget_mib (ss_capacity st))"

text \<open>The critical section of \<open>acquire\<close>: a refusal, or the sequence number of the queued job.\<close>

definition acquire :: "scheduler_shared \<Rightarrow> bool \<Rightarrow> nat \<Rightarrow> resource_sample \<Rightarrow>
    job_resource_cost \<Rightarrow> scheduler_state \<Rightarrow>
    (acquire_error + nat) \<times> scheduler_state \<times> replies" where
  "acquire sh in_runtime now sample cost st =
     (if \<not> ss_accepting st then (Inl Closed, st, [])
      else if structurally_exceeds_fixed_budget sh st cost
      then (Inl InsufficientCapacity, st, [])
      else let sequence = next_sequence st;
               job = \<lparr>wj_sequence = sequence, wj_queued_at = now, wj_bypasses = 0,
                      wj_cost = cost, wj_open = True\<rparr>;
               st1 = st\<lparr>next_sequence := (next_sequence st + 1) mod (u64_max + 1),
                        ss_waiting := ss_waiting st @ [job]\<rparr>
           in case dispatch sh in_runtime now sample st1 of (st2, rs) \<Rightarrow>
                (Inr sequence, st2, rs))"

definition close :: "scheduler_state \<Rightarrow> scheduler_state \<times> replies" where
  "close st = (st\<lparr>ss_accepting := False, ss_waiting := []\<rparr>,
     concat (map (\<lambda>w. send_ready w (Refused Closed)) (ss_waiting st)))"

record scheduler_snapshot =
  snap_capacity :: scheduler_capacity
  snap_active_jobs :: nat
  snap_waiting_jobs :: nat
  snap_active_memory_mib :: nat
  snap_active_io_mib :: nat
  snap_active_cpu_units :: nat
  snap_accepting :: bool

definition snapshot :: "scheduler_shared \<Rightarrow> bool \<Rightarrow> nat \<Rightarrow> resource_sample \<Rightarrow>
    scheduler_state \<Rightarrow> scheduler_snapshot \<times> scheduler_state \<times> replies" where
  "snapshot sh in_runtime now sample st =
     (case dispatch sh in_runtime now sample st of (st1, rs) \<Rightarrow>
        (\<lparr>snap_capacity = ss_capacity st1, snap_active_jobs = active_jobs st1,
          snap_waiting_jobs = length (ss_waiting st1),
          snap_active_memory_mib = active_memory_mib st1,
          snap_active_io_mib = active_io_mib st1,
          snap_active_cpu_units = active_cpu_units st1,
          snap_accepting = ss_accepting st1\<rparr>, st1, rs))"

definition drop_permit :: "scheduler_shared \<Rightarrow> bool \<Rightarrow> nat \<Rightarrow> resource_sample \<Rightarrow>
    job_resource_cost \<Rightarrow> scheduler_state \<Rightarrow> scheduler_state \<times> replies" where
  "drop_permit sh in_runtime now sample cost st =
     dispatch sh in_runtime now sample (release st cost)"

fun position :: "('a \<Rightarrow> bool) \<Rightarrow> 'a list \<Rightarrow> nat option" where
  "position P [] = None"
| "position P (x # xs) = (if P x then Some 0 else map_option Suc (position P xs))"

definition drop_registration :: "scheduler_shared \<Rightarrow> bool \<Rightarrow> nat \<Rightarrow> resource_sample \<Rightarrow>
    nat \<Rightarrow> scheduler_state \<Rightarrow> scheduler_state \<times> replies" where
  "drop_registration sh in_runtime now sample sequence st =
     (case position (\<lambda>w. wj_sequence w = sequence) (ss_waiting st) of
        None \<Rightarrow> (st, [])
      | Some index \<Rightarrow> dispatch sh in_runtime now sample
                        (st\<lparr>ss_waiting := remove_at index (ss_waiting st)\<rparr>))"

definition refresh_wakeup :: "scheduler_shared \<Rightarrow> bool \<Rightarrow> nat \<Rightarrow> resource_sample \<Rightarrow>
    scheduler_state \<Rightarrow> scheduler_state \<times> replies" where
  "refresh_wakeup sh in_runtime now sample st =
     dispatch sh in_runtime now sample (st\<lparr>refresh_wakeup_scheduled := False\<rparr>)"


section \<open>Lemmas on one pass of the dispatcher\<close>

lemma find_later_Some:
  "find_later st h k ws = Some i \<Longrightarrow>
   k \<le> i \<and> i < k + length ws \<and> fits (ss_capacity st) st (wj_cost (ws ! (i - k)))"
proof (induction ws arbitrary: k)
  case (Cons w ws)
  show ?case
  proof (cases "wj_sequence w > h \<and> fits (ss_capacity st) st (wj_cost w)")
    case True
    with Cons.prems show ?thesis by simp
  next
    case False
    with Cons.prems have "find_later st h (Suc k) ws = Some i" by simp
    from Cons.IH [OF this] show ?thesis by (auto simp: nth_Cons split: nat.splits)
      (metis Suc_diff_Suc diff_Suc_Suc less_eq_Suc_le minus_nat.diff_0 nat.inject)+
  qed
qed simp

text \<open>What a runnable index promises: a job that fits, or the head with nothing else active; and
  a job behind the head only while the head may still be bypassed.\<close>

lemma runnable_index_Some:
  assumes "runnable_index sh now st = Some i"
  obtains head rest where "ss_waiting st = head # rest" "i < length (ss_waiting st)"
    "fits (ss_capacity st) st (wj_cost (ss_waiting st ! i))
     \<or> i = 0 \<and> active_jobs st = 0 \<and> fits_hard_memory (ss_capacity st) (wj_cost head)"
    "i > 0 \<longrightarrow> \<not> fits_hard_memory (ss_capacity st) (wj_cost head)
     \<or> wj_bypasses head < max_bypass sh"
proof -
  obtain head rest where w: "ss_waiting st = head # rest"
    using assms by (auto simp: runnable_index_def split: list.splits)
  show ?thesis
  proof (cases "fits (ss_capacity st) st (wj_cost head)
      \<or> active_jobs st = 0 \<and> fits_hard_memory (ss_capacity st) (wj_cost head)")
    case True
    then have "i = 0" using assms w by (auto simp: runnable_index_def)
    then show ?thesis using that w True by simp
  next
    case False
    then have "find_later st (wj_sequence head) 1 rest = Some i"
      and "\<not> fits_hard_memory (ss_capacity st) (wj_cost head)
           \<or> wj_bypasses head < max_bypass sh"
      using assms w by (auto simp: runnable_index_def Let_def split: if_splits)
    note later = find_later_Some [OF this(1)] and head = this(2)
    from later obtain j where "i = Suc j" by (cases i) auto
    then show ?thesis using that [OF w] w later head by simp
  qed
qed

abbreviation bumped :: "nat \<Rightarrow> scheduler_state \<Rightarrow> waiting_job list" where
  "bumped i st \<equiv> (if i > 0 then bump_head (ss_waiting st) else ss_waiting st)"

lemma bumped_nth: "bumped i st ! i = ss_waiting st ! i"
  by (cases "ss_waiting st") (auto simp: nth_Cons split: nat.splits)

lemma dispatch_iteration_cases:
  obtains
    (stop) "dispatch_iteration sh now st = (False, st, [])"
      "ss_accepting st \<and> active_jobs st < cap_max_active_jobs (ss_capacity st) \<longrightarrow>
       runnable_index sh now st = None"
  | (grant) i w where "runnable_index sh now st = Some i" "w = ss_waiting st ! i"
      "i < length (ss_waiting st)" "wj_open w"
      "active_jobs st < cap_max_active_jobs (ss_capacity st)"
      "dispatch_iteration sh now st =
         (True, reserve (st\<lparr>ss_waiting := remove_at i (bumped i st)\<rparr>) (wj_cost w),
          [(wj_sequence w, Granted (wj_cost w))])"
  | (undelivered) i w where "runnable_index sh now st = Some i" "w = ss_waiting st ! i"
      "i < length (ss_waiting st)" "\<not> wj_open w"
      "active_jobs st < cap_max_active_jobs (ss_capacity st)"
      "dispatch_iteration sh now st =
         (True, release (reserve (st\<lparr>ss_waiting := remove_at i (bumped i st)\<rparr>) (wj_cost w))
            (wj_cost w), [])"
proof (cases "ss_accepting st \<and> active_jobs st < cap_max_active_jobs (ss_capacity st)")
  case False
  then have "dispatch_iteration sh now st = (False, st, [])"
    by (auto simp: dispatch_iteration_def)
  with False show ?thesis using stop by blast
next
  case guard: True
  show ?thesis
  proof (cases "runnable_index sh now st")
    case None
    then have "dispatch_iteration sh now st = (False, st, [])"
      by (auto simp: dispatch_iteration_def)
    with None show ?thesis using stop by blast
  next
    case (Some i)
    then have i: "i < length (ss_waiting st)" by (rule runnable_index_Some)
    let ?w = "ss_waiting st ! i"
    have eq: "dispatch_iteration sh now st =
        (let st2 = reserve (st\<lparr>ss_waiting := remove_at i (bumped i st)\<rparr>) (wj_cost ?w)
         in if wj_open ?w then (True, st2, [(wj_sequence ?w, Granted (wj_cost ?w))])
            else (True, release st2 (wj_cost ?w), []))"
      using guard Some i bumped_nth [of i st]
      by (auto simp: dispatch_iteration_def send_ready_def Let_def)
    show ?thesis
    proof (cases "wj_open ?w")
      case True
      then show ?thesis using grant [OF Some refl i] guard eq by (simp add: Let_def)
    next
      case False
      then show ?thesis using undelivered [OF Some refl i] guard eq by (simp add: Let_def)
    qed
  qed
qed


lemma dispatch_iteration_False:
  "dispatch_iteration sh now st = (False, st', rs) \<Longrightarrow> st' = st \<and> rs = []"
  by (rule dispatch_iteration_cases [of sh now st]) auto

text \<open>The two rules every property of the loop rests on: what a pass keeps, the loop keeps; and
  the loop ends in a state where a further pass stops at once.\<close>

lemma dispatch_loop_preserves:
  assumes "R st rs0"
    and step: "\<And>s rs s' rs'. R s rs \<Longrightarrow> dispatch_iteration sh now s = (True, s', rs') \<Longrightarrow>
      R s' (rs @ rs')"
    and "dispatch_loop sh now st = (st', rs)"
  shows "R st' (rs0 @ rs)"
  using assms(1,3)
proof (induction "length (ss_waiting st)" arbitrary: st rs0 rs rule: less_induct)
  case less
  obtain go s1 rs1 where it: "dispatch_iteration sh now st = (go, s1, rs1)"
    by (cases "dispatch_iteration sh now st") auto
  obtain s2 rs2 where rec: "dispatch_loop sh now s1 = (s2, rs2)"
    by (cases "dispatch_loop sh now s1") auto
  show ?case
  proof (cases go)
    case True
    have "st' = s2" "rs = rs1 @ rs2"
      using less.prems(2) it rec True by (auto simp: dispatch_loop.simps [of sh now st])
    moreover have "R s2 ((rs0 @ rs1) @ rs2)" if "s2 = st'"
      using less.hyps [of s1 "rs0 @ rs1" rs2] dispatch_iteration_shrinks it True rec that
        step [OF less.prems(1)] by auto
    ultimately show ?thesis by simp
  next
    case False
    then have "st' = s1" "rs = rs1"
      using less.prems(2) it by (auto simp: dispatch_loop.simps [of sh now st])
    with dispatch_iteration_False it False less.prems show ?thesis by fastforce
  qed
qed

lemma dispatch_loop_stops:
  "dispatch_loop sh now st = (st', rs) \<Longrightarrow> dispatch_iteration sh now st' = (False, st', [])"
proof (induction "length (ss_waiting st)" arbitrary: st rs rule: less_induct)
  case less
  obtain go s1 rs1 where it: "dispatch_iteration sh now st = (go, s1, rs1)"
    by (cases "dispatch_iteration sh now st") auto
  show ?case
  proof (cases go)
    case True
    then obtain rs2 where "dispatch_loop sh now s1 = (st', rs2)"
      using less.prems it by (auto simp: dispatch_loop.simps [of sh now st] split: prod.splits)
    then show ?thesis
      using less.hyps [of s1 rs2] dispatch_iteration_shrinks [of sh now st s1 rs1] it True by (metis (full_types))
  next
    case False
    then have "st' = s1" using less.prems it by (auto simp: dispatch_loop.simps [of sh now st])
    with dispatch_iteration_False it False show ?thesis by fastforce
  qed
qed

section \<open>Exact accounting\<close>

text \<open>\<open>cost_small\<close> bounds a cost so that the sums over the largest permitted number of active
  jobs (1024 by configuration) stay far below the saturation point; every estimate is small.\<close>

definition cost_small :: "job_resource_cost \<Rightarrow> bool" where
  "cost_small c \<longleftrightarrow> jc_memory_mib c \<le> 2 ^ 53 \<and> jc_io_mib c \<le> 2 ^ 53 \<and> jc_cpu_units c \<le> 2 ^ 53"

definition valid_estimate_input :: "job_estimate_input \<Rightarrow> bool" where
  "valid_estimate_input e \<longleftrightarrow>
     ei_input_size_bytes e \<le> u64_max \<and> ei_rollback_size_bytes e \<le> u64_max"

lemma job_cost_bounds:
  "base_memory_mib (job_cost p) \<le> 256" "stream_memory_cap_mib (job_cost p) \<le> 512"
  "io_multiplier (job_cost p) \<le> 4" "base_cpu_units (job_cost p) \<le> 2"
  by (cases p; simp add: job_cost_defs)+

lemma estimate_small:
  assumes "valid_estimate_input e"
  shows "cost_small (estimate e)"
proof -
  let ?s = "max (bytes_to_mib_ceil (ei_input_size_bytes e)) 1"
  let ?r = "bytes_to_mib_ceil (ei_rollback_size_bytes e)"
  let ?p = "job_cost (ei_protocol e)"
  have s: "?s \<le> 17592186044416" and r: "?r \<le> 17592186044416"
    using assms bytes_to_mib_ceil_le by (auto simp: valid_estimate_input_def)
  note p = job_cost_bounds [of "ei_protocol e"]
  have "jc_memory_mib (estimate e) \<le> 2 ^ 53"
    unfolding estimate_def Let_def job_resource_cost.simps
    by (rule max.boundedI, rule sat_add_bound [where x = 832 and y = 64],
        rule sat_add_bound [where x = 768 and y = 64],
        rule sat_add_bound [where x = 256 and y = 512]) (use p in \<open>auto simp: min.coboundedI2\<close>)
  moreover have "sat_mul ?s (io_multiplier ?p) \<le> 70368744177664"
    "sat_mul ?r 2 \<le> 70368744177664" "sat_mul ?s 2 \<le> 70368744177664"
    using s r p by (auto intro!: sat_mul_bound)
  then have "jc_io_mib (estimate e) \<le> 2 ^ 53"
    unfolding estimate_def Let_def job_resource_cost.simps
    by (auto intro!: max.boundedI sat_add_bound
        [where x = 70368744177664 and y = 70368744177664])
  moreover have "jc_cpu_units (estimate e) \<le> 2 ^ 53"
    unfolding estimate_def Let_def job_resource_cost.simps using p(4) by auto
  ultimately show ?thesis by (simp add: cost_small_def)
qed

fun granted :: "replies \<Rightarrow> job_resource_cost list" where
  "granted [] = []"
| "granted ((s, Granted c) # rs) = c # granted rs"
| "granted ((s, Refused e) # rs) = granted rs"

lemma granted_append [simp]: "granted (rs @ rs') = granted rs @ granted rs'"
  by (induction rs rule: granted.induct) auto

lemma granted_send_refused [simp]: "granted (send_ready w (Refused e)) = []"
  by (simp add: send_ready_def)

definition accounted :: "scheduler_state \<Rightarrow> job_resource_cost list \<Rightarrow> bool" where
  "accounted st ps \<longleftrightarrow> active_jobs st = length ps
     \<and> active_memory_mib st = sum_list (map jc_memory_mib ps)
     \<and> active_io_mib st = sum_list (map jc_io_mib ps)
     \<and> active_cpu_units st = sum_list (map jc_cpu_units ps)"

definition sched_inv :: "scheduler_state \<Rightarrow> job_resource_cost list \<Rightarrow> bool" where
  "sched_inv st ps \<longleftrightarrow> accounted st ps
     \<and> length ps \<le> cap_max_active_jobs (ss_capacity st)
     \<and> cap_max_active_jobs (ss_capacity st) \<le> 1024
     \<and> (\<forall>c \<in> set ps. cost_small c) \<and> (\<forall>w \<in> set (ss_waiting st). cost_small (wj_cost w))"

lemma accounted_room:
  assumes "accounted st ps" "length ps < 1024" "\<forall>c \<in> set ps. cost_small c" "cost_small c"
  shows "active_memory_mib st + jc_memory_mib c \<le> u64_max"
    "active_io_mib st + jc_io_mib c \<le> u64_max"
    "active_cpu_units st + jc_cpu_units c \<le> u64_max"
proof -
  have b: "sum_list (map f ps) + f c \<le> u64_max"
    if "\<And>c. cost_small c \<Longrightarrow> f c \<le> 2 ^ 53" for f
  proof -
    have "sum_list (map f ps) \<le> length ps * 2 ^ 53"
      using assms(3) that by (intro sum_list_bound) auto
    also have "\<dots> \<le> 1023 * 2 ^ 53" using assms(2) by (intro mult_le_mono) auto
    finally show ?thesis using that [OF assms(4)] by simp
  qed
  show "active_memory_mib st + jc_memory_mib c \<le> u64_max"
    "active_io_mib st + jc_io_mib c \<le> u64_max"
    "active_cpu_units st + jc_cpu_units c \<le> u64_max"
    using assms(1) b [of jc_memory_mib] b [of jc_io_mib] b [of jc_cpu_units]
    by (auto simp: accounted_def cost_small_def)
qed

lemma reserve_accounted:
  assumes "accounted st ps" "length ps < 1024" "\<forall>c \<in> set ps. cost_small c" "cost_small c"
  shows "accounted (reserve st c) (ps @ [c])"
  using accounted_room [OF assms] assms(1,2)
  by (auto simp: accounted_def reserve_def sat_simps)

lemma release_reserve:
  assumes "accounted st ps" "length ps < 1024" "\<forall>c \<in> set ps. cost_small c" "cost_small c"
  shows "release (reserve st c) c = st"
  using accounted_room [OF assms] assms(1,2)
  by (auto simp: accounted_def reserve_def release_def sat_simps)

lemma release_accounted:
  assumes "accounted st ps" "i < length ps"
  shows "accounted (release st (ps ! i)) (remove_at i ps)"
proof -
  have "sum_list (map f (remove_at i ps)) = sum_list (map f ps) - f (ps ! i)" for f :: "_ \<Rightarrow> nat"
    using sum_list_remove_at [of i "map f ps"] assms(2) by (simp add: map_remove_at)
  then show ?thesis using assms by (auto simp: accounted_def release_def sat_simps)
qed

lemma bump_head_cost: "wj_cost ` set (bump_head ws) = wj_cost ` set ws"
  by (cases ws) auto

lemma bumped_cost:
  "w \<in> set (remove_at i (bumped i st)) \<Longrightarrow> wj_cost w \<in> wj_cost ` set (ss_waiting st)"
  using bump_head_cost [of "ss_waiting st"]
  by (auto dest!: in_set_remove_atD split: if_splits)

section \<open>What each stage of an operation keeps\<close>

lemma refresh_capacity_keeps [simp]:
  "active_jobs (refresh_capacity sh sample st) = active_jobs st"
  "active_memory_mib (refresh_capacity sh sample st) = active_memory_mib st"
  "active_io_mib (refresh_capacity sh sample st) = active_io_mib st"
  "active_cpu_units (refresh_capacity sh sample st) = active_cpu_units st"
  "ss_waiting (refresh_capacity sh sample st) = ss_waiting st"
  "ss_accepting (refresh_capacity sh sample st) = ss_accepting st"
  "next_sequence (refresh_capacity sh sample st) = next_sequence st"
  "cap_mode (ss_capacity (refresh_capacity sh sample st)) = cap_mode (ss_capacity st)"
  "cap_max_active_jobs (ss_capacity (refresh_capacity sh sample st)) =
     cap_max_active_jobs (ss_capacity st)"
  by (auto simp: refresh_capacity_def refresh_memory_def refresh_cpu_def split: prod.splits)

lemma schedule_capacity_refresh_keeps [simp]:
  "active_jobs (schedule_capacity_refresh sh rt st) = active_jobs st"
  "active_memory_mib (schedule_capacity_refresh sh rt st) = active_memory_mib st"
  "active_io_mib (schedule_capacity_refresh sh rt st) = active_io_mib st"
  "active_cpu_units (schedule_capacity_refresh sh rt st) = active_cpu_units st"
  "ss_waiting (schedule_capacity_refresh sh rt st) = ss_waiting st"
  "ss_accepting (schedule_capacity_refresh sh rt st) = ss_accepting st"
  "next_sequence (schedule_capacity_refresh sh rt st) = next_sequence st"
  "ss_capacity (schedule_capacity_refresh sh rt st) = ss_capacity st"
  by (auto simp: schedule_capacity_refresh_def)

definition expired_unfit ::
    "scheduler_shared \<Rightarrow> nat \<Rightarrow> scheduler_capacity \<Rightarrow> waiting_job \<Rightarrow> bool" where
  "expired_unfit sh now capacity w \<longleftrightarrow>
     elapsed now (wj_queued_at w) \<ge> starvation_timeout sh
     \<and> \<not> fits_hard_memory capacity (wj_cost w)"

lemma reject_loop_filter:
  "reject_loop sh now capacity ws =
     (filter (\<lambda>w. \<not> expired_unfit sh now capacity w) ws,
      map (\<lambda>w. (wj_sequence w, Refused InsufficientCapacity))
        (filter (\<lambda>w. wj_open w \<and> expired_unfit sh now capacity w) ws))"
  by (induction ws) (auto simp: expired_unfit_def send_ready_def Let_def)

lemma reject_spec:
  "reject_expired_unfit_jobs sh now st =
     (st\<lparr>ss_waiting := filter (\<lambda>w. \<not> expired_unfit sh now (ss_capacity st) w) (ss_waiting st)\<rparr>,
      map (\<lambda>w. (wj_sequence w, Refused InsufficientCapacity))
        (filter (\<lambda>w. wj_open w \<and> expired_unfit sh now (ss_capacity st) w) (ss_waiting st)))"
proof (cases "cap_mode (ss_capacity st) = Dynamic")
  case False
  then have "cap_mode (ss_capacity st) = Manual" by (cases "cap_mode (ss_capacity st)") auto
  then show ?thesis
    by (simp add: reject_expired_unfit_jobs_def expired_unfit_def fits_hard_memory_def)
qed (simp add: reject_expired_unfit_jobs_def reject_loop_filter)

lemma granted_refusals [simp]: "granted (map (\<lambda>w. (f w, Refused e)) ws) = []"
  by (induction ws) auto

text \<open>A dispatch is a rejection, then the loop, then at most the wakeup flag.\<close>

lemma dispatch_cases:
  assumes "dispatch sh rt now sample st = (st', rs)"
  obtains st1 rs1 st2 rs2 where
    "reject_expired_unfit_jobs sh now (refresh_capacity sh sample st) = (st1, rs1)"
    "dispatch_loop sh now st1 = (st2, rs2)" "rs = rs1 @ rs2"
    "st' = st2 \<or> st' = schedule_capacity_refresh sh rt st2"
  using assms by (auto simp: dispatch_def split: prod.splits if_splits)

section \<open>The accounting invariant is kept\<close>

lemma sched_inv_waiting:
  "sched_inv st ps \<Longrightarrow> \<forall>w \<in> set ws. cost_small (wj_cost w) \<Longrightarrow>
   sched_inv (st\<lparr>ss_waiting := ws\<rparr>) ps"
  by (simp add: sched_inv_def accounted_def)

lemma dispatch_iteration_inv:
  assumes inv: "sched_inv st ps" and it: "dispatch_iteration sh now st = (True, st', rs)"
  shows "sched_inv st' (ps @ granted rs)"
proof (rule dispatch_iteration_cases [of sh now st])
  assume "dispatch_iteration sh now st = (False, st, [])"
  with it show ?thesis by simp
next
  fix i w
  let ?st1 = "st\<lparr>ss_waiting := remove_at i (bumped i st)\<rparr>"
  assume w: "w = ss_waiting st ! i" "i < length (ss_waiting st)"
    and lt: "active_jobs st < cap_max_active_jobs (ss_capacity st)"
  have small: "cost_small (wj_cost w)" using inv w by (simp add: sched_inv_def)
  have inv1: "sched_inv ?st1 ps"
    using bumped_cost [of _ i st] inv by (intro sched_inv_waiting) (force simp: sched_inv_def)+
  have room: "accounted ?st1 ps" "length ps < 1024" "\<forall>c \<in> set ps. cost_small c"
    "length ps < cap_max_active_jobs (ss_capacity st)"
    using inv1 lt by (auto simp: sched_inv_def accounted_def)
  {
    assume "dispatch_iteration sh now st =
      (True, reserve ?st1 (wj_cost w), [(wj_sequence w, Granted (wj_cost w))])"
    then have "st' = reserve ?st1 (wj_cost w)" "granted rs = [wj_cost w]" using it by auto
    moreover have "accounted (reserve ?st1 (wj_cost w)) (ps @ [wj_cost w])"
      by (rule reserve_accounted [OF room(1-3) small])
    ultimately show ?thesis
      using inv1 room small by (auto simp: sched_inv_def reserve_def)
  next
    assume "dispatch_iteration sh now st =
      (True, release (reserve ?st1 (wj_cost w)) (wj_cost w), [])"
    then show ?thesis using it release_reserve [OF room(1-3) small] inv1 by simp
  }
qed

lemma dispatch_inv:
  assumes inv: "sched_inv st ps" and d: "dispatch sh rt now sample st = (st', rs)"
  shows "sched_inv st' (ps @ granted rs)"
proof -
  from d obtain st1 rs1 st2 rs2 where
    rej: "reject_expired_unfit_jobs sh now (refresh_capacity sh sample st) = (st1, rs1)" and
    loop: "dispatch_loop sh now st1 = (st2, rs2)" and rs: "rs = rs1 @ rs2" and
    st': "st' = st2 \<or> st' = schedule_capacity_refresh sh rt st2"
    by (rule dispatch_cases)
  have "sched_inv (refresh_capacity sh sample st) ps"
    using inv by (simp add: sched_inv_def accounted_def)
  then have "sched_inv st1 (ps @ granted [])" and g: "granted rs1 = []"
    using rej by (auto simp: reject_spec sched_inv_def accounted_def)
  then have "sched_inv st2 (ps @ granted ([] @ rs2))"
    using dispatch_iteration_inv loop
    by (rule_tac dispatch_loop_preserves [where R = "\<lambda>s rs. sched_inv s (ps @ granted rs)"])
      (auto simp flip: append_assoc)
  then show ?thesis using st' rs g by (auto simp: sched_inv_def accounted_def)
qed

section \<open>The scheduler as a state machine\<close>

text \<open>The scheduler together with the permits that are out: the steps are the critical sections
  of the public operations and of the two destructors, the delayed wakeup, the passing of time
  and a waiting future that drops its receiver.  A permit is in \<open>sys_permits\<close> from the moment it
  is sent; a permit that is dropped inside the channel is dropped by \<open>step_drop_permit\<close>.\<close>

record sched_sys =
  sys_now :: nat
  sys_state :: scheduler_state
  sys_permits :: "job_resource_cost list"

definition sched_init ::
    "scheduler_config \<Rightarrow> nat \<Rightarrow> nat \<Rightarrow> resource_sample \<Rightarrow> sched_sys \<Rightarrow> bool" where
  "sched_init config up total_up sample s \<longleftrightarrow> validate_scheduler_config config = Inr ()
     \<and> sys_state s = new_state (detect_with_provider config up total_up sample)
     \<and> sys_permits s = []"

inductive sched_step :: "scheduler_shared \<Rightarrow> sched_sys \<Rightarrow> sched_sys \<Rightarrow> bool"
  for sh :: scheduler_shared where
  step_clock: "sys_now s \<le> now' \<Longrightarrow> sched_step sh s (s\<lparr>sys_now := now'\<rparr>)"
| step_acquire: "valid_estimate_input e \<Longrightarrow>
    acquire sh rt (sys_now s) sample (estimate e) (sys_state s) = (r, st', rs) \<Longrightarrow>
    sched_step sh s (s\<lparr>sys_state := st', sys_permits := sys_permits s @ granted rs\<rparr>)"
| step_close: "close (sys_state s) = (st', rs) \<Longrightarrow>
    sched_step sh s (s\<lparr>sys_state := st', sys_permits := sys_permits s @ granted rs\<rparr>)"
| step_snapshot: "snapshot sh rt (sys_now s) sample (sys_state s) = (snap, st', rs) \<Longrightarrow>
    sched_step sh s (s\<lparr>sys_state := st', sys_permits := sys_permits s @ granted rs\<rparr>)"
| step_drop_permit: "i < length (sys_permits s) \<Longrightarrow>
    drop_permit sh rt (sys_now s) sample (sys_permits s ! i) (sys_state s) = (st', rs) \<Longrightarrow>
    sched_step sh s
      (s\<lparr>sys_state := st', sys_permits := remove_at i (sys_permits s) @ granted rs\<rparr>)"
| step_receiver_gone: "i < length (ss_waiting (sys_state s)) \<Longrightarrow>
    sched_step sh s (s\<lparr>sys_state := (sys_state s)\<lparr>ss_waiting := (ss_waiting (sys_state s))
      [i := (ss_waiting (sys_state s) ! i)\<lparr>wj_open := False\<rparr>]\<rparr>\<rparr>)"
| step_drop_registration:
    "drop_registration sh rt (sys_now s) sample sequence (sys_state s) = (st', rs) \<Longrightarrow>
    sched_step sh s (s\<lparr>sys_state := st', sys_permits := sys_permits s @ granted rs\<rparr>)"
| step_wakeup: "refresh_wakeup sh rt (sys_now s) sample (sys_state s) = (st', rs) \<Longrightarrow>
    sched_step sh s (s\<lparr>sys_state := st', sys_permits := sys_permits s @ granted rs\<rparr>)"

inductive_cases sched_stepE: "sched_step sh s s'"

definition enqueued :: "nat \<Rightarrow> job_resource_cost \<Rightarrow> scheduler_state \<Rightarrow> scheduler_state" where
  "enqueued now cost st = st\<lparr>next_sequence := (next_sequence st + 1) mod (u64_max + 1),
     ss_waiting := ss_waiting st @ [\<lparr>wj_sequence = next_sequence st, wj_queued_at = now,
       wj_bypasses = 0, wj_cost = cost, wj_open = True\<rparr>]\<rparr>"

lemma acquire_cases:
  assumes "acquire sh rt now sample cost st = (r, st', rs)"
  obtains
    (closed) "r = Inl Closed" "st' = st" "rs = []" "\<not> ss_accepting st"
  | (exceeds) "r = Inl InsufficientCapacity" "st' = st" "rs = []"
      "structurally_exceeds_fixed_budget sh st cost"
  | (queued) "r = Inr (next_sequence st)" "ss_accepting st"
      "\<not> structurally_exceeds_fixed_budget sh st cost"
      "dispatch sh rt now sample (enqueued now cost st) = (st', rs)"
  using assms by (auto simp: acquire_def enqueued_def Let_def split: if_splits prod.splits)

lemma set_update_open:
  "w \<in> set (ws[i := (ws ! i)\<lparr>wj_open := b\<rparr>]) \<Longrightarrow> i < length ws \<Longrightarrow>
   \<exists>v \<in> set ws. wj_cost w = wj_cost v \<and> wj_bypasses w = wj_bypasses v"
  by (auto simp: in_set_conv_nth nth_list_update) (metis nth_mem)+

lemma detect_inv:
  "validate_scheduler_config config = Inr () \<Longrightarrow>
   sched_inv (new_state (detect_with_provider config up tot sample)) []"
  by (auto simp: sched_inv_def accounted_def new_state_def detect_with_provider_def Let_def
      validate_scheduler_config_def split: if_splits)

lemma granted_close [simp]: "granted (concat (map (\<lambda>w. send_ready w (Refused e)) ws)) = []"
  by (induction ws) auto

lemma sched_inv_release:
  "sched_inv st ps \<Longrightarrow> i < length ps \<Longrightarrow> sched_inv (release st (ps ! i)) (remove_at i ps)"
  using release_accounted [of st ps i]
  by (auto simp: sched_inv_def release_def dest: in_set_remove_atD)

lemma sched_step_inv:
  assumes "sched_inv (sys_state s) (sys_permits s)" "sched_step sh s s'"
  shows "sched_inv (sys_state s') (sys_permits s')"
  using assms(2)
proof (cases rule: sched_step.cases)
  case (step_acquire e rt sample r st' rs)
  have "sched_inv (enqueued now (estimate e) (sys_state s)) (sys_permits s)" for now
    using assms(1) estimate_small [OF step_acquire(2)]
    by (auto simp: sched_inv_def accounted_def enqueued_def)
  note queued_inv = dispatch_inv [OF this]
  from step_acquire(3) show ?thesis
    by (cases rule: acquire_cases) (use step_acquire(1) assms(1) queued_inv in simp_all)
next
  case (step_close st' rs)
  then show ?thesis using assms(1) by (auto simp: close_def sched_inv_def accounted_def)
next
  case (step_snapshot rt sample snap st' rs)
  then show ?thesis using dispatch_inv [OF assms(1)]
    by (auto simp: snapshot_def split: prod.splits)
next
  case (step_drop_permit i rt sample st' rs)
  then show ?thesis using dispatch_inv [OF sched_inv_release [OF assms(1)]]
    by (auto simp: drop_permit_def)
next
  case (step_receiver_gone i)
  then show ?thesis
    using assms(1) set_update_open [OF _ step_receiver_gone(2)]
    by (simp, intro sched_inv_waiting) (simp, fastforce simp: sched_inv_def)
next
  case (step_drop_registration rt sample sequence st' rs)
  have "sched_inv ((sys_state s)\<lparr>ss_waiting := remove_at i (ss_waiting (sys_state s))\<rparr>)
      (sys_permits s)" for i
    using assms(1) by (intro sched_inv_waiting) (auto simp: sched_inv_def dest: in_set_remove_atD)
  from dispatch_inv [OF this] show ?thesis using step_drop_registration assms(1)
    by (auto simp: drop_registration_def split: option.splits)
next
  case (step_wakeup rt sample st' rs)
  have "sched_inv ((sys_state s)\<lparr>refresh_wakeup_scheduled := False\<rparr>) (sys_permits s)"
    using assms(1) by (simp add: sched_inv_def accounted_def)
  from dispatch_inv [OF this] show ?thesis using step_wakeup
    by (auto simp: refresh_wakeup_def)
qed (use assms(1) in auto)

interpretation accounting: step_invariant "sched_init config up tot sample" "sched_step sh"
    "\<lambda>s. sched_inv (sys_state s) (sys_permits s)"
  for config up tot sample sh
  by unfold_locales (auto simp: sched_init_def detect_inv intro: sched_step_inv)

end
