(* ===== verification/SchedulerProps.thy ===== *)
theory SchedulerProps
  imports Scheduler
begin

text \<open>
  What the scheduler of import and export jobs guarantees: the books always equal the permits
  that are out, a grant never overcommits memory, no queued job is bypassed without bound, no
  job loses its answer or is answered twice, and a dispatch leaves nothing runnable behind.
\<close>

section \<open>Facts kept by the loop\<close>

abbreviation open_sequences :: "waiting_job list \<Rightarrow> nat multiset" where
  "open_sequences ws \<equiv> mset (map wj_sequence (filter wj_open ws))"

lemma bump_head_views [simp]:
  "map wj_sequence (bump_head ws) = map wj_sequence ws"
  "map wj_open (bump_head ws) = map wj_open ws"
  "map wj_sequence (filter wj_open (bump_head ws)) = map wj_sequence (filter wj_open ws)"
  by (cases ws; simp)+

lemma reserve_keeps [simp]:
  "ss_waiting (reserve st c) = ss_waiting st" "ss_capacity (reserve st c) = ss_capacity st"
  "ss_accepting (reserve st c) = ss_accepting st"
  by (simp_all add: reserve_def)

lemma release_keeps [simp]:
  "ss_waiting (release st c) = ss_waiting st" "ss_capacity (release st c) = ss_capacity st"
  "ss_accepting (release st c) = ss_accepting st"
  by (simp_all add: release_def)

text \<open>A pass takes one job out of the queue; the rest of the queue keeps its order.\<close>

lemma dispatch_iteration_queue:
  assumes "dispatch_iteration sh now st = (True, st', rs)"
  obtains i where "i < length (ss_waiting st)" "runnable_index sh now st = Some i"
    "ss_waiting st' = remove_at i (bumped i st)"
    "map fst rs = (if wj_open (ss_waiting st ! i) then [wj_sequence (ss_waiting st ! i)] else [])"
    "ss_capacity st' = ss_capacity st" "ss_accepting st' = ss_accepting st" "ss_accepting st"
  using assms
  by (rule_tac dispatch_iteration_cases [of sh now st])
    (auto simp: dispatch_iteration_def split: if_splits)

lemma mset_remove_at: "i < length xs \<Longrightarrow> mset xs = add_mset (xs ! i) (mset (remove_at i xs))"
  using split_remove_at [of i xs] by (metis mset.simps(2) mset_append union_mset_add_mset_right)

lemma subseq_remove_at: "subseq (remove_at i xs) xs"
  unfolding remove_at_def
  by (metis append_take_drop_id list_emb_append_mono subseq_order.order_refl suffix_imp_subseq
      suffix_drop suffix_order.dual_order.trans drop_drop add.commute plus_1_eq_Suc)

lemma open_remove_at:
  assumes "i < length ws"
  shows "open_sequences ws = open_sequences (remove_at i ws)
     + (if wj_open (ws ! i) then {#wj_sequence (ws ! i)#} else {#})"
proof -
  have "mset ws = add_mset (ws ! i) (mset (remove_at i ws))" by (rule mset_remove_at [OF assms])
  then show ?thesis by (simp add: mset_filter)
qed

lemma iteration_conserves:
  assumes "dispatch_iteration sh now st = (True, st', rs)"
  shows "open_sequences (ss_waiting st) =
    open_sequences (ss_waiting st') + mset (map fst rs)"
proof (rule dispatch_iteration_queue [OF assms])
  fix i assume i: "i < length (ss_waiting st)"
    and q: "ss_waiting st' = remove_at i (bumped i st)"
      "map fst rs = (if wj_open (ss_waiting st ! i)
         then [wj_sequence (ss_waiting st ! i)] else [])"
  have "i < length (bumped i st)" using i by auto
  from open_remove_at [OF this] q bumped_nth [of i st] show ?thesis
    by (auto simp flip: mset_map split: if_splits)
qed

lemma iteration_subseq:
  assumes "dispatch_iteration sh now st = (True, st', rs)"
  shows "subseq (map wj_sequence (ss_waiting st')) (map wj_sequence (ss_waiting st))"
  by (rule dispatch_iteration_queue [OF assms])
    (auto simp: map_remove_at subseq_remove_at)

lemma loop_conserves:
  assumes "dispatch_loop sh now st = (st', rs)"
  shows "open_sequences (ss_waiting st) = open_sequences (ss_waiting st') + mset (map fst rs)"
proof -
  let ?R = "\<lambda>s rs. open_sequences (ss_waiting st) =
    open_sequences (ss_waiting s) + mset (map fst rs)"
  have "?R st' ([] @ rs)"
    by (rule dispatch_loop_preserves [where R = ?R, OF _ _ assms])
      (auto dest: iteration_conserves)
  then show ?thesis by simp
qed

lemma loop_subseq:
  assumes "dispatch_loop sh now st = (st', rs)"
  shows "subseq (map wj_sequence (ss_waiting st')) (map wj_sequence (ss_waiting st))"
    (is "?R st' ([] @ rs)")
proof (rule dispatch_loop_preserves [OF _ _ assms])
  show "?R st []" by simp
  show "?R s' (r @ r')" if "?R s r" "dispatch_iteration sh now s = (True, s', r')" for s r s' r'
    using subseq_order.trans [OF iteration_subseq [OF that(2)] that(1)] .
qed

lemma loop_keeps:
  assumes "dispatch_loop sh now st = (st', rs)"
  shows "ss_capacity st' = ss_capacity st \<and> ss_accepting st' = ss_accepting st"
    (is "?R st' ([] @ rs)")
proof (rule dispatch_loop_preserves [OF _ _ assms])
  show "?R st []" by simp
  show "?R s' (r @ r')" if "?R s r" "dispatch_iteration sh now s = (True, s', r')" for s r s' r'
    using that(1) by (rule_tac dispatch_iteration_queue [OF that(2)]) simp
qed

lemma open_sequences_filter:
  "open_sequences ws = open_sequences (filter (\<lambda>w. \<not> P w) ws)
     + mset (map wj_sequence (filter (\<lambda>w. wj_open w \<and> P w) ws))"
  by (induction ws) (auto simp del: mset_filter mset_map)

text \<open>A pass that grants leaves the memory within the budget.\<close>

lemma iteration_memory:
  assumes inv: "sched_inv st ps" and it: "dispatch_iteration sh now st = (True, st', rs)"
    and dyn: "cap_mode (ss_capacity st) = Dynamic"
  shows "granted rs \<noteq> [] \<and> active_memory_mib st' \<le> cap_memory_budget_mib (ss_capacity st)
    \<or> granted rs = [] \<and> active_memory_mib st' = active_memory_mib st"
proof (rule dispatch_iteration_cases [of sh now st])
  assume "dispatch_iteration sh now st = (False, st, [])"
  with it show ?thesis by simp
next
  fix i w
  let ?st1 = "st\<lparr>ss_waiting := remove_at i (bumped i st)\<rparr>"
  assume ri: "runnable_index sh now st = Some i"
    and w: "w = ss_waiting st ! i" "i < length (ss_waiting st)"
    and lt: "active_jobs st < cap_max_active_jobs (ss_capacity st)"
  have small: "cost_small (wj_cost w)" using inv w by (simp add: sched_inv_def)
  have room: "accounted st ps" "length ps < 1024" "\<forall>c \<in> set ps. cost_small c"
    using inv lt by (auto simp: sched_inv_def accounted_def)
  have exact: "sat_add (active_memory_mib st) (jc_memory_mib (wj_cost w)) =
      active_memory_mib st + jc_memory_mib (wj_cost w)"
    by (rule sat_add_exact [OF accounted_room(1) [OF room small]])
  {
    assume "dispatch_iteration sh now st =
      (True, reserve ?st1 (wj_cost w), [(wj_sequence w, Granted (wj_cost w))])"
    then have st': "st' = reserve ?st1 (wj_cost w)" "granted rs = [wj_cost w]" using it by auto
    have "active_memory_mib st + jc_memory_mib (wj_cost w) \<le>
        cap_memory_budget_mib (ss_capacity st)"
    proof (rule runnable_index_Some [OF ri])
      fix head rest
      assume q: "ss_waiting st = head # rest"
        and f: "fits (ss_capacity st) st (wj_cost (ss_waiting st ! i)) \<or>
          i = 0 \<and> active_jobs st = 0 \<and> fits_hard_memory (ss_capacity st) (wj_cost head)"
      show ?thesis
      proof (cases "fits (ss_capacity st) st (wj_cost w)")
        case True
        then show ?thesis using dyn exact by (simp add: fits_def)
      next
        case False
        then show ?thesis using f w q room(1) dyn
          by (simp add: fits_hard_memory_def accounted_def)
      qed
    qed
    then show ?thesis using st' exact by (simp add: reserve_def)
  next
    assume "dispatch_iteration sh now st =
      (True, release (reserve ?st1 (wj_cost w)) (wj_cost w), [])"
    then show ?thesis using it exact by (auto simp: reserve_def release_def sat_sub_def)
  }
qed

lemma loop_memory:
  assumes inv: "sched_inv st ps" and loop: "dispatch_loop sh now st = (st', rs)"
    and dyn: "cap_mode (ss_capacity st) = Dynamic"
  shows "granted rs \<noteq> [] \<longrightarrow> active_memory_mib st' \<le> cap_memory_budget_mib (ss_capacity st)"
proof -
  let ?R = "\<lambda>s r. sched_inv s (ps @ granted r) \<and> ss_capacity s = ss_capacity st
    \<and> (granted r \<noteq> [] \<longrightarrow> active_memory_mib s \<le> cap_memory_budget_mib (ss_capacity st))"
  have "?R st' ([] @ rs)"
  proof (rule dispatch_loop_preserves [where R = ?R, OF _ _ loop])
    show "?R st []" using inv by simp
    fix s r s' r' assume R: "?R s r" and it: "dispatch_iteration sh now s = (True, s', r')"
    have "sched_inv s' (ps @ granted (r @ r'))" 
      using dispatch_iteration_inv [OF conjunct1 [OF R] it] by simp
    moreover have "ss_capacity s' = ss_capacity st"
      using R by (rule_tac dispatch_iteration_queue [OF it]) simp
    ultimately show "?R s' (r @ r')" using iteration_memory [OF conjunct1 [OF R] it] R dyn by auto
  qed
  then show ?thesis by simp
qed

lemma refresh_memory_budget:
  assumes "auto_memory_budget sh" "memory_valid sample" "available_memory_mib sample = Some avail"
  shows "cap_memory_budget_mib (ss_capacity (refresh_capacity sh sample st)) \<le>
    memory_budget_from_available avail"
  using assms
  by (auto simp: refresh_capacity_def refreshes_capacity_def refresh_memory_def refresh_cpu_def
      apply_capacity_sample_def unwrap_or_def split: prod.splits option.splits if_splits)

section \<open>Bounded bypassing\<close>

text \<open>While the memory budget is fixed (or the mode is manual) every queued job fits the memory
  on its own, and then the head is bypassed at most \<open>max_bypass\<close> times.\<close>

definition fixed_memory :: "scheduler_shared \<Rightarrow> scheduler_state \<Rightarrow> bool" where
  "fixed_memory sh st \<longleftrightarrow> cap_mode (ss_capacity st) = Manual \<or> \<not> auto_memory_budget sh"

definition bypass_ok :: "scheduler_shared \<Rightarrow> scheduler_capacity \<Rightarrow> waiting_job \<Rightarrow> bool" where
  "bypass_ok sh capacity w \<longleftrightarrow>
     fits_hard_memory capacity (wj_cost w) \<and> wj_bypasses w \<le> max_bypass sh"

definition bypass_inv :: "scheduler_shared \<Rightarrow> scheduler_state \<Rightarrow> bool" where
  "bypass_inv sh st \<longleftrightarrow>
     (fixed_memory sh st \<longrightarrow> (\<forall>w \<in> set (ss_waiting st). bypass_ok sh (ss_capacity st) w))"

lemma bypass_ok_open [simp]: "bypass_ok sh cap (w\<lparr>wj_open := b\<rparr>) = bypass_ok sh cap w"
  by (simp add: bypass_ok_def)

lemma bypass_ok_refresh:
  "fixed_memory sh st \<Longrightarrow>
   bypass_ok sh (ss_capacity (refresh_capacity sh sample st)) w = bypass_ok sh (ss_capacity st) w"
  by (auto simp: bypass_ok_def fixed_memory_def fits_hard_memory_def refresh_capacity_def
      refresh_memory_def refresh_cpu_def split: prod.splits)

lemma iteration_bypass:
  assumes inv: "bypass_inv sh st" and it: "dispatch_iteration sh now st = (True, st', rs)"
  shows "bypass_inv sh st'"
proof (rule dispatch_iteration_queue [OF it])
  fix i assume i: "i < length (ss_waiting st)" and ri: "runnable_index sh now st = Some i"
    and q: "ss_waiting st' = remove_at i (bumped i st)" "ss_capacity st' = ss_capacity st"
  show ?thesis
  proof (rule runnable_index_Some [OF ri])
    fix head rest assume w: "ss_waiting st = head # rest"
      and b: "0 < i \<longrightarrow> \<not> fits_hard_memory (ss_capacity st) (wj_cost head)
        \<or> wj_bypasses head < max_bypass sh"
    have "\<forall>v \<in> set (bumped i st). bypass_ok sh (ss_capacity st) v" if "fixed_memory sh st"
      using inv w b that by (auto simp: bypass_inv_def bypass_ok_def sat_add_def)
    then show ?thesis using q
      by (auto simp: bypass_inv_def fixed_memory_def dest: in_set_remove_atD)
  qed
qed

lemma dispatch_bypass:
  assumes inv: "bypass_inv sh st" and d: "dispatch sh rt now sample st = (st', rs)"
  shows "bypass_inv sh st'"
proof (rule dispatch_cases [OF d])
  fix st1 rs1 st2 rs2
  assume rej: "reject_expired_unfit_jobs sh now (refresh_capacity sh sample st) = (st1, rs1)"
    and loop: "dispatch_loop sh now st1 = (st2, rs2)"
    and st': "st' = st2 \<or> st' = schedule_capacity_refresh sh rt st2"
  have "bypass_inv sh st1"
    using rej inv bypass_ok_refresh [of sh st]
    by (auto simp: reject_spec bypass_inv_def fixed_memory_def)
  then have "bypass_inv sh st2"
    using dispatch_loop_preserves [where R = "\<lambda>s _. bypass_inv sh s", OF _ _ loop]
      iteration_bypass by blast
  then show ?thesis using st' by (auto simp: bypass_inv_def fixed_memory_def)
qed

lemma bypass_inv_subset:
  "bypass_inv sh st \<Longrightarrow> set ws \<subseteq> set (ss_waiting st) \<Longrightarrow> bypass_inv sh (st\<lparr>ss_waiting := ws\<rparr>)"
  by (auto simp: bypass_inv_def fixed_memory_def)

lemma bypass_inv_enqueued:
  "bypass_inv sh st \<Longrightarrow> \<not> structurally_exceeds_fixed_budget sh st cost \<Longrightarrow>
   bypass_inv sh (enqueued now cost st)"
  by (cases "cap_mode (ss_capacity st)")
    (auto simp: bypass_inv_def fixed_memory_def enqueued_def bypass_ok_def fits_hard_memory_def
      structurally_exceeds_fixed_budget_def)

lemma sched_step_bypass:
  assumes inv: "bypass_inv sh (sys_state s)" and "sched_step sh s s'"
  shows "bypass_inv sh (sys_state s')"
  using assms(2)
proof (cases rule: sched_step.cases)
  case (step_acquire e rt sample r st' rs)
  from step_acquire(3) show ?thesis
    by (cases rule: acquire_cases)
      (use step_acquire(1) inv dispatch_bypass [OF bypass_inv_enqueued] in auto)
next
  case (step_close st' rs)
  then show ?thesis by (auto simp: close_def bypass_inv_def)
next
  case (step_snapshot rt sample snap st' rs)
  then show ?thesis using dispatch_bypass [OF inv] by (auto simp: snapshot_def split: prod.splits)
next
  case (step_drop_permit i rt sample st' rs)
  have "bypass_inv sh (release (sys_state s) c)" for c
    using inv by (simp add: bypass_inv_def fixed_memory_def)
  from dispatch_bypass [OF this] show ?thesis
    using step_drop_permit by (auto simp: drop_permit_def)
next
  case (step_receiver_gone i)
  then show ?thesis using inv
    by (auto simp: bypass_inv_def fixed_memory_def dest!: set_update_subset_insert [THEN subsetD])
next
  case (step_drop_registration rt sample sequence st' rs)
  then show ?thesis
    using inv dispatch_bypass [OF bypass_inv_subset [OF inv set_remove_at_subset]]
    by (auto simp: drop_registration_def split: option.splits)
next
  case (step_wakeup rt sample st' rs)
  have "bypass_inv sh ((sys_state s)\<lparr>refresh_wakeup_scheduled := False\<rparr>)"
    using inv by (simp add: bypass_inv_def fixed_memory_def)
  from dispatch_bypass [OF this] show ?thesis
    using step_wakeup by (auto simp: refresh_wakeup_def)
qed (use inv in auto)

interpretation bypassing: step_invariant "sched_init config up tot sample" "sched_step sh"
    "\<lambda>s. bypass_inv sh (sys_state s)"
  for config up tot sample sh
proof unfold_locales
  show "bypass_inv sh (sys_state s)" if "sched_init config up tot sample s" for s
    using that by (simp add: sched_init_def bypass_inv_def new_state_def)
qed (rule sched_step_bypass)

section \<open>Nothing runnable is left behind\<close>

lemma loop_waiting:
  assumes "dispatch_loop sh now st = (st', rs)"
    and "\<forall>w \<in> set (ss_waiting st). \<not> expired_unfit sh now (ss_capacity st) w"
  shows "\<forall>w \<in> set (ss_waiting st'). \<not> expired_unfit sh now (ss_capacity st) w" (is "?R st' rs")
proof -
  have bump: "\<forall>w \<in> set (bump_head ws). \<not> expired_unfit sh now cap w"
    if "\<forall>w \<in> set ws. \<not> expired_unfit sh now cap w" for ws cap
    using that by (cases ws) (auto simp: expired_unfit_def)
  have "?R s' (r @ r')" if "?R s r" "dispatch_iteration sh now s = (True, s', r')" for s r s' r'
    by (rule dispatch_iteration_queue [OF that(2)])
      (use that(1) bump [of "ss_waiting s"] in \<open>auto dest!: in_set_remove_atD split: if_splits\<close>)
  from dispatch_loop_preserves [where R = ?R, OF assms(2) this assms(1)] show ?thesis by simp
qed

lemma runnable_index_schedule [simp]:
  "runnable_index sh now (schedule_capacity_refresh sh' rt st) = runnable_index sh now st"
proof -
  have fits: "fits c (schedule_capacity_refresh sh' rt st) = fits c st" for c
    by (simp add: fits_def fun_eq_iff)
  have "find_later (schedule_capacity_refresh sh' rt st) h k ws = find_later st h k ws"
    for h k ws
    by (induction ws arbitrary: k) (auto simp: fits)
  then show ?thesis by (cases "ss_waiting st") (simp_all add: runnable_index_def fits Let_def)
qed

lemma dispatch_end:
  assumes "dispatch sh rt now sample st = (st', rs)"
  shows "\<forall>w \<in> set (ss_waiting st'). \<not> expired_unfit sh now (ss_capacity st') w"
    and "ss_accepting st' \<and> active_jobs st' < cap_max_active_jobs (ss_capacity st') \<longrightarrow>
         runnable_index sh now st' = None"
    and "ss_capacity st' = ss_capacity (refresh_capacity sh sample st)"
proof -
  from assms obtain st1 rs1 st2 rs2 where
    rej: "reject_expired_unfit_jobs sh now (refresh_capacity sh sample st) = (st1, rs1)" and
    loop: "dispatch_loop sh now st1 = (st2, rs2)" and
    st': "st' = st2 \<or> st' = schedule_capacity_refresh sh rt st2"
    by (rule dispatch_cases)
  have stop: "dispatch_iteration sh now st2 = (False, st2, [])"
    by (rule dispatch_loop_stops [OF loop])
  have eq: "runnable_index sh now st' = runnable_index sh now st2"
    "active_jobs st' = active_jobs st2" "ss_capacity st' = ss_capacity st2"
    "ss_accepting st' = ss_accepting st2" "ss_waiting st' = ss_waiting st2"
    using st' by auto
  have cap: "ss_capacity st1 = ss_capacity (refresh_capacity sh sample st)"
    "ss_capacity st2 = ss_capacity st1"
    using rej loop_keeps [OF loop] by (auto simp: reject_spec)
  show "\<forall>w \<in> set (ss_waiting st'). \<not> expired_unfit sh now (ss_capacity st') w"
    using loop_waiting [OF loop] rej eq cap by (auto simp: reject_spec)
  show "ss_accepting st' \<and> active_jobs st' < cap_max_active_jobs (ss_capacity st') \<longrightarrow>
      runnable_index sh now st' = None"
    using eq by (rule_tac dispatch_iteration_cases [of sh now st2]) (auto simp: stop)
  show "ss_capacity st' = ss_capacity (refresh_capacity sh sample st)" using eq cap by simp
qed

section \<open>After shutdown\<close>

definition closed :: "scheduler_state \<Rightarrow> bool" where
  "closed st \<longleftrightarrow> \<not> ss_accepting st \<and> ss_waiting st = []"

lemma dispatch_closed:
  assumes "closed st" "dispatch sh rt now sample st = (st', rs)"
  shows "closed st' \<and> rs = []"
  using assms
  by (auto simp: dispatch_def closed_def reject_spec dispatch_loop.simps dispatch_iteration_def)

lemma sched_step_closed:
  assumes c: "closed (sys_state s)" and "sched_step sh s s'"
  shows "closed (sys_state s') \<and> mset (sys_permits s') \<subseteq># mset (sys_permits s)"
  using assms(2)
proof (cases rule: sched_step.cases)
  case (step_acquire e rt sample r st' rs)
  then show ?thesis using c by (auto simp: acquire_def closed_def)
next
  case (step_close st' rs)
  then show ?thesis using c by (auto simp: close_def closed_def)
next
  case (step_snapshot rt sample snap st' rs)
  then show ?thesis
    by (auto simp: snapshot_def split: prod.splits dest!: dispatch_closed [OF c])
next
  case (step_drop_permit i rt sample st' rs)
  have "closed (release (sys_state s) c)" for c using c by (simp add: closed_def)
  then show ?thesis using step_drop_permit mset_remove_at [of i "sys_permits s"]
    by (auto simp: drop_permit_def dest!: dispatch_closed [rotated])
next
  case (step_receiver_gone i)
  then show ?thesis using c by (simp add: closed_def)
next
  case (step_drop_registration rt sample sequence st' rs)
  then show ?thesis using c by (auto simp: drop_registration_def closed_def)
next
  case (step_wakeup rt sample st' rs)
  have "closed ((sys_state s)\<lparr>refresh_wakeup_scheduled := False\<rparr>)"
    using c by (simp add: closed_def)
  then show ?thesis using step_wakeup
    by (auto simp: refresh_wakeup_def dest!: dispatch_closed [rotated])
qed (use c in auto)

interpretation shutdown: step_invariant "\<lambda>t. t = s0 \<and> closed (sys_state s0)" "sched_step sh"
    "\<lambda>s. closed (sys_state s) \<and> mset (sys_permits s) \<subseteq># mset (sys_permits s0)"
  for s0 sh
  by unfold_locales (auto dest: sched_step_closed intro: subset_mset.order_trans)

section \<open>A concrete scheduler\<close>

text \<open>A scheduler with a fixed memory budget of 512 MiB, and a state of it in which a job of
  400 MiB runs, a job of 200 MiB waits at the head and a job of 100 MiB waits behind it.\<close>

definition ex_config :: scheduler_config where
  "ex_config = default_scheduler_config
     \<lparr>dynamic_memory_budget_mib := 512, dynamic_io_budget_mib := 4096, dynamic_cpu_units := 4\<rparr>"

definition ex_sample :: resource_sample where
  "ex_sample = \<lparr>available_memory_mib = Some 1000, sample_cpu_units = None, memory_valid = True,
     cpu_valid = True\<rparr>"

definition ex_input :: job_estimate_input where
  "ex_input = \<lparr>ei_protocol = Postgres, ei_input_size_bytes = 3000000,
     ei_rollback_size_bytes = 0, ei_wipe = False, ei_compressed = True, ei_export = False\<rparr>"

definition ex_cost :: "nat \<Rightarrow> job_resource_cost" where
  "ex_cost m = \<lparr>jc_input_size_bytes = 1, jc_memory_mib = m, jc_io_mib = 1, jc_cpu_units = 1\<rparr>"

definition ex_job :: "nat \<Rightarrow> nat \<Rightarrow> waiting_job" where
  "ex_job n m = \<lparr>wj_sequence = n, wj_queued_at = 0, wj_bypasses = 0, wj_cost = ex_cost m,
     wj_open = True\<rparr>"

definition ex_state :: scheduler_state where
  "ex_state = \<lparr>ss_capacity = detect_with_provider ex_config 0 0 ex_sample,
     pending_memory_increase_mib = None, pending_cpu_increase = None,
     refresh_wakeup_scheduled = False, ss_accepting = True, next_sequence = 3, active_jobs = 1,
     active_memory_mib = 400, active_io_mib = 1, active_cpu_units = 1,
     ss_waiting = [ex_job 1 200, ex_job 2 100]\<rparr>"

definition ex_after :: scheduler_state where
  "ex_after = ex_state\<lparr>active_jobs := 2, active_memory_mib := 500, active_io_mib := 2,
     active_cpu_units := 2, ss_waiting := [(ex_job 1 200)\<lparr>wj_bypasses := 1\<rparr>]\<rparr>"

lemmas ex_defs = ex_config_def ex_sample_def ex_input_def ex_cost_def ex_job_def ex_state_def
  ex_after_def default_scheduler_config_def

lemmas sched_eval = new_shared_def dispatch_def refresh_capacity_def refreshes_capacity_def
  refresh_memory_def refresh_cpu_def detect_with_provider_def reject_spec expired_unfit_def
  fits_hard_memory_def fits_def elapsed_def runnable_index_def dispatch_iteration_def
  dispatch_loop.simps reserve_def release_def send_ready_def schedule_capacity_refresh_def
  Let_def sat_simps unwrap_or_def

lemma ex_dispatch:
  "dispatch (new_shared ex_config) True 7 ex_sample ex_state =
     (ex_after, [(2, Granted (ex_cost 100))])"
  by (simp add: ex_defs sched_eval)

lemma ex_inv: "sched_inv ex_state [ex_cost 400]"
  by (simp add: sched_inv_def accounted_def cost_small_def ex_defs sched_eval)

text \<open>Acquiring for the same job three times: the first two run, the third waits for CPU.\<close>

definition ex_sys :: "scheduler_state \<Rightarrow> job_resource_cost list \<Rightarrow> sched_sys" where
  "ex_sys st ps = \<lparr>sys_now = 0, sys_state = st, sys_permits = ps\<rparr>"

definition ex_new :: scheduler_state where
  "ex_new = new_state (detect_with_provider ex_config 0 0 ex_sample)"

definition ex_estimate :: job_resource_cost where
  "ex_estimate = \<lparr>jc_input_size_bytes = 3000000, jc_memory_mib = 160, jc_io_mib = 12,
     jc_cpu_units = 2\<rparr>"

lemma ex_estimate_eq: "estimate ex_input = ex_estimate"
  by (simp add: estimate_def ex_input_def ex_estimate_def job_cost_defs bytes_to_mib_ceil_def
      div_ceil_def sat_simps)

definition ex_running :: "nat \<Rightarrow> scheduler_state" where
  "ex_running n = ex_new\<lparr>next_sequence := n, active_jobs := n, active_memory_mib := 160 * n,
     active_io_mib := 12 * n, active_cpu_units := 2 * n\<rparr>"

definition ex_waiting :: scheduler_state where
  "ex_waiting = (ex_running 2)\<lparr>next_sequence := 3, ss_waiting := [\<lparr>wj_sequence = 2,
     wj_queued_at = 0, wj_bypasses = 0, wj_cost = ex_estimate, wj_open = True\<rparr>]\<rparr>"

lemmas ex_acquire_defs = acquire_def structurally_exceeds_fixed_budget_def ex_new_def
  new_state_def ex_estimate_def ex_running_def ex_waiting_def

lemma ex_acquire:
  "acquire (new_shared ex_config) True 0 ex_sample ex_estimate (ex_running 0) =
     (Inr 0, ex_running 1, [(0, Granted ex_estimate)])"
  "acquire (new_shared ex_config) True 0 ex_sample ex_estimate (ex_running 1) =
     (Inr 1, ex_running 2, [(1, Granted ex_estimate)])"
  "acquire (new_shared ex_config) True 0 ex_sample ex_estimate (ex_running 2) =
     (Inr 2, ex_waiting, [])"
  by (simp_all add: ex_acquire_defs ex_defs sched_eval)

abbreviation ex_reach :: "scheduler_state \<Rightarrow> job_resource_cost list \<Rightarrow> bool" where
  "ex_reach st ps \<equiv> reach (sched_init ex_config 0 0 ex_sample)
     (sched_step (new_shared ex_config)) (ex_sys st ps)"

lemma ex_reach_acquire:
  assumes "ex_reach st ps"
    and "acquire (new_shared ex_config) True 0 ex_sample ex_estimate st = (r, st', rs)"
  shows "ex_reach st' (ps @ granted rs)"
proof (rule reach_step [OF assms(1)])
  have "valid_estimate_input ex_input" by (simp add: valid_estimate_input_def ex_input_def)
  then show "sched_step (new_shared ex_config) (ex_sys st ps) (ex_sys st' (ps @ granted rs))"
    using step_acquire [of ex_input "new_shared ex_config" True "ex_sys st ps" ex_sample r st' rs]
      assms(2) by (simp add: ex_sys_def ex_estimate_eq)
qed

lemma ex_reach0: "ex_reach (ex_running 0) []"
  by (rule reach_init) (simp add: sched_init_def ex_sys_def ex_running_def ex_new_def
      new_state_def validate_scheduler_config_def ex_config_def default_scheduler_config_def)

lemma ex_reach_waiting: "ex_reach ex_waiting [ex_estimate, ex_estimate]"
  using ex_reach_acquire [OF ex_reach_acquire [OF ex_reach_acquire [OF ex_reach0 ex_acquire(1)]
      ex_acquire(2)] ex_acquire(3)] by simp

section \<open>Properties\<close>

text \<open>C21: a dispatch neither loses a waiting job nor answers one twice: the jobs whose receiver is
  alive before the dispatch are exactly the jobs still waiting after it and the jobs that got a
  reply (a permit or a refusal), each once.\<close>

theorem dispatch_conserves_jobs:
  assumes "dispatch sh rt now sample st = (st', rs)"
  shows "mset (map wj_sequence (filter wj_open (ss_waiting st))) =
    mset (map wj_sequence (filter wj_open (ss_waiting st'))) + mset (map fst rs)"
proof (rule dispatch_cases [OF assms])
  fix st1 rs1 st2 rs2
  let ?e = "expired_unfit sh now (ss_capacity (refresh_capacity sh sample st))"
  assume rej: "reject_expired_unfit_jobs sh now (refresh_capacity sh sample st) = (st1, rs1)"
    and loop: "dispatch_loop sh now st1 = (st2, rs2)" and rs: "rs = rs1 @ rs2"
    and st': "st' = st2 \<or> st' = schedule_capacity_refresh sh rt st2"
  have "open_sequences (ss_waiting st) =
      open_sequences (filter (\<lambda>w. \<not> ?e w) (ss_waiting st)) + mset (map wj_sequence
        (filter (\<lambda>w. wj_open w \<and> ?e w) (ss_waiting st)))"
    by (rule open_sequences_filter)
  moreover have "ss_waiting st1 = filter (\<lambda>w. \<not> ?e w) (ss_waiting st)"
    "map fst rs1 = map wj_sequence (filter (\<lambda>w. wj_open w \<and> ?e w) (ss_waiting st))"
    using rej by (auto simp: reject_spec)
  moreover note loop_conserves [OF loop]
  ultimately show ?thesis using rs st' by auto
qed

theorem dispatch_conserves_jobs_witness:
  "mset (map wj_sequence (filter wj_open (ss_waiting ex_state))) =
     mset (map wj_sequence (filter wj_open (ss_waiting ex_after))) + {#2#}
   \<and> ss_waiting ex_after \<noteq> []"
  using dispatch_conserves_jobs [OF ex_dispatch] by (simp add: ex_after_def)

text \<open>C1: in every state the scheduler reaches from a validated configuration, the four counters
  are exactly the number and the summed costs of the permits that are out, and no more permits
  are out than the configured maximum: nothing is leaked, lost or released twice, across
  cancelled acquirers, undelivered permits, shutdown and capacity refreshes.\<close>

theorem books_match_permits:
  assumes "reach (sched_init config up tot sample) (sched_step (new_shared config)) s"
  shows "active_jobs (sys_state s) = length (sys_permits s)
    \<and> active_memory_mib (sys_state s) = sum_list (map jc_memory_mib (sys_permits s))
    \<and> active_io_mib (sys_state s) = sum_list (map jc_io_mib (sys_permits s))
    \<and> active_cpu_units (sys_state s) = sum_list (map jc_cpu_units (sys_permits s))
    \<and> length (sys_permits s) \<le> cap_max_active_jobs (ss_capacity (sys_state s))"
  using accounting.reach_inv [OF assms] by (simp add: sched_inv_def accounted_def)

theorem books_match_permits_witness:
  "active_memory_mib ex_waiting = sum_list (map jc_memory_mib [ex_estimate, ex_estimate])
   \<and> active_jobs ex_waiting = 2"
  using books_match_permits [OF ex_reach_waiting] by (simp add: ex_sys_def)

text \<open>C6: a dispatch in dynamic mode that grants a permit leaves the memory of all running jobs
  within the memory budget, which is at most the budget derived from the sample it just took
  when the budget is automatic.\<close>

theorem grants_respect_memory:
  assumes "sched_inv st ps" "dispatch sh rt now sample st = (st', rs)"
    and "cap_mode (ss_capacity st) = Dynamic" "granted rs \<noteq> []"
  shows "active_memory_mib st' \<le> cap_memory_budget_mib (ss_capacity st')
    \<and> (auto_memory_budget sh \<and> memory_valid sample
         \<and> available_memory_mib sample = Some avail \<longrightarrow>
       active_memory_mib st' \<le> memory_budget_from_available avail)"
proof (rule dispatch_cases [OF assms(2)])
  fix st1 rs1 st2 rs2
  assume rej: "reject_expired_unfit_jobs sh now (refresh_capacity sh sample st) = (st1, rs1)"
    and loop: "dispatch_loop sh now st1 = (st2, rs2)" and rs: "rs = rs1 @ rs2"
    and st': "st' = st2 \<or> st' = schedule_capacity_refresh sh rt st2"
  have "sched_inv st1 ps" "granted rs1 = []" "cap_mode (ss_capacity st1) = Dynamic"
    using rej assms(1,3) by (auto simp: reject_spec sched_inv_def accounted_def)
  then have "active_memory_mib st2 \<le> cap_memory_budget_mib (ss_capacity st1)"
    using loop_memory [OF _ loop] rs assms(4) by auto
  moreover have "ss_capacity st1 = ss_capacity (refresh_capacity sh sample st)"
    using rej by (auto simp: reject_spec)
  ultimately show ?thesis
    using st' loop_keeps [OF loop] refresh_memory_budget [of sh sample avail st]
    by (auto intro: order.trans)
qed

theorem grants_respect_memory_witness:
  "active_memory_mib ex_after \<le> cap_memory_budget_mib (ss_capacity ex_after)
   \<and> active_memory_mib ex_after = 500"
  using grants_respect_memory [OF ex_inv ex_dispatch] by (simp add: ex_defs sched_eval)



text \<open>C26: a dispatch leaves nothing runnable behind.  If slots are free afterwards, no queued job is
  runnable; if moreover nothing runs, the queue is empty or its head alone exceeds the current
  memory budget of the dynamic mode, and has waited for less than the starvation timeout.\<close>

theorem dispatch_work_conserving:
  assumes "dispatch sh rt now sample st = (st', rs)" "ss_accepting st'"
    and "active_jobs st' < cap_max_active_jobs (ss_capacity st')"
  shows "runnable_index sh now st' = None
    \<and> (active_jobs st' = 0 \<longrightarrow> (case ss_waiting st' of [] \<Rightarrow> True
        | head # _ \<Rightarrow> cap_mode (ss_capacity st') = Dynamic
            \<and> jc_memory_mib (wj_cost head) > cap_memory_budget_mib (ss_capacity st')
            \<and> elapsed now (wj_queued_at head) < starvation_timeout sh))"
proof (intro conjI impI)
  show none: "runnable_index sh now st' = None" using dispatch_end(2) [OF assms(1)] assms by simp
  assume idle: "active_jobs st' = 0"
  show "case ss_waiting st' of [] \<Rightarrow> True
        | head # _ \<Rightarrow> cap_mode (ss_capacity st') = Dynamic
            \<and> jc_memory_mib (wj_cost head) > cap_memory_budget_mib (ss_capacity st')
            \<and> elapsed now (wj_queued_at head) < starvation_timeout sh"
  proof (cases "ss_waiting st'")
    case (Cons head rest)
    then have "\<not> fits_hard_memory (ss_capacity st') (wj_cost head)"
      using none idle by (auto simp: runnable_index_def Let_def split: if_splits)
    moreover have "\<not> expired_unfit sh now (ss_capacity st') head"
      using dispatch_end(1) [OF assms(1)] Cons by simp
    ultimately show ?thesis using Cons
      by (cases "cap_mode (ss_capacity st')") (auto simp: fits_hard_memory_def expired_unfit_def)
  qed simp
qed

theorem dispatch_work_conserving_witness:
  "runnable_index (new_shared ex_config) 7 ex_after = None \<and> ss_waiting ex_after \<noteq> []"
  using dispatch_work_conserving [OF ex_dispatch] by (simp add: ex_defs sched_eval)

text \<open>A dispatch never reorders the queue: the jobs that keep waiting keep their relative
  order.\<close>

theorem dispatch_keeps_order:
  assumes "dispatch sh rt now sample st = (st', rs)"
  shows "subseq (map wj_sequence (ss_waiting st')) (map wj_sequence (ss_waiting st))"
proof (rule dispatch_cases [OF assms])
  fix st1 rs1 st2 rs2
  assume rej: "reject_expired_unfit_jobs sh now (refresh_capacity sh sample st) = (st1, rs1)"
    and loop: "dispatch_loop sh now st1 = (st2, rs2)"
    and st': "st' = st2 \<or> st' = schedule_capacity_refresh sh rt st2"
  have "subseq (map wj_sequence (ss_waiting st1)) (map wj_sequence (ss_waiting st))"
    using rej by (auto simp: reject_spec intro!: subseq_map)
  with loop_subseq [OF loop] st' show ?thesis by (auto intro: subseq_order.trans)
qed

theorem dispatch_keeps_order_witness:
  "subseq (map wj_sequence (ss_waiting ex_after)) (map wj_sequence (ss_waiting ex_state))
   \<and> map wj_sequence (ss_waiting ex_after) = [1]"
  using dispatch_keeps_order [OF ex_dispatch] by (simp add: ex_after_def ex_job_def)

text \<open>Shutdown is final.  Closing refuses exactly the jobs that are still waiting, and in every
  state reached afterwards the queue is empty, nothing is accepted, and the permits that are out
  are among those that were out at the close.\<close>

theorem close_is_final:
  assumes "close (sys_state s) = (st', rs)"
    and "reach (\<lambda>t. t = s\<lparr>sys_state := st'\<rparr>) (sched_step sh) t"
  shows "rs = map (\<lambda>w. (wj_sequence w, Refused Closed))
      (filter wj_open (ss_waiting (sys_state s)))
    \<and> \<not> ss_accepting (sys_state t) \<and> ss_waiting (sys_state t) = []
    \<and> mset (sys_permits t) \<subseteq># mset (sys_permits s)"
proof -
  have "concat (map (\<lambda>w. send_ready w (Refused Closed)) ws) =
      map (\<lambda>w. (wj_sequence w, Refused Closed)) (filter wj_open ws)" for ws
    by (induction ws) (auto simp: send_ready_def)
  moreover have "closed st'" using assms(1) by (auto simp: close_def closed_def)
  then have "closed (sys_state t) \<and> mset (sys_permits t) \<subseteq># mset (sys_permits s)"
    using shutdown.reach_inv [of "s\<lparr>sys_state := st'\<rparr>" sh t] assms(2) by simp
  ultimately show ?thesis using assms(1) by (auto simp: close_def closed_def)
qed

theorem close_is_final_witness:
  "snd (close ex_waiting) = [(2, Refused Closed)] \<and> ss_waiting (fst (close ex_waiting)) = []
   \<and> mset (sys_permits (ex_sys (fst (close ex_waiting)) [ex_estimate, ex_estimate]))
       \<subseteq># mset [ex_estimate, ex_estimate]"
proof -
  let ?s = "ex_sys ex_waiting [ex_estimate, ex_estimate]"
  let ?t = "?s\<lparr>sys_state := fst (close ex_waiting)\<rparr>"
  have "close (sys_state ?s) = (fst (close ex_waiting), snd (close ex_waiting))"
    by (simp add: ex_sys_def)
  moreover have "reach (\<lambda>t. t = ?t) (sched_step (new_shared ex_config)) ?t"
    by (rule reach_init) simp
  ultimately show ?thesis
    using close_is_final [of ?s "fst (close ex_waiting)" "snd (close ex_waiting)"
        "new_shared ex_config" ?t]
    by (simp add: ex_sys_def ex_waiting_def)
qed

text \<open>The capacity follows the samples cautiously: after a sample the value is never above that
  sample, and it rises only when the sample before was also above it, to the smaller of the
  two.\<close>

theorem capacity_hysteresis:
  assumes "apply_capacity_sample current pending candidate = (value, pending')"
  shows "value \<le> candidate
    \<and> (current < value \<longrightarrow> (\<exists>previous. pending = Some previous \<and> value = min previous candidate))
    \<and> (pending' \<noteq> None \<longrightarrow> pending' = Some candidate \<and> value = current \<and> current < candidate)"
  using assms by (auto simp: apply_capacity_sample_def split: if_splits option.splits)

theorem capacity_hysteresis_witness:
  "apply_capacity_sample 100 (Some 150) 200 = (150, None) \<and> (150::nat) \<le> 200"
  using capacity_hysteresis [of 100 "Some 150" 200 150 None]
  by (simp add: apply_capacity_sample_def)

text \<open>For a validated configuration and any resource sample, the number of jobs the scheduler
  recommends running in dynamic mode fits the memory budget and the configured maximum, and it
  is positive exactly when one such job fits the memory.\<close>

theorem recommended_fits:
  assumes "validate_scheduler_config config = Inr ()" "dynamic_limiter_enabled config"
    and "jc_memory_mib cost > 0"
    and "capacity = detect_with_provider config up tot sample"
  shows "recommended_active_jobs capacity cost * jc_memory_mib cost
      \<le> cap_memory_budget_mib capacity
    \<and> recommended_active_jobs capacity cost \<le> dynamic_max_active_jobs config
    \<and> (0 < recommended_active_jobs capacity cost \<longleftrightarrow> fits_hard_memory capacity cost)"
proof -
  have cap: "cap_mode capacity = Dynamic" "0 < dynamic_max_active_jobs config"
    "cap_max_active_jobs capacity = dynamic_max_active_jobs config"
    using assms(1,2,4) by (auto simp: detect_with_provider_def Let_def
        validate_scheduler_config_def split: if_splits)
  let ?n = "cap_memory_budget_mib capacity div jc_memory_mib cost"
  have n: "ratio (cap_memory_budget_mib capacity) (jc_memory_mib cost) = ?n"
    using assms(3) by (cases "jc_memory_mib cost") (simp_all add: ratio_def)
  have "recommended_active_jobs capacity cost \<le> ?n"
    "0 < recommended_active_jobs capacity cost \<longleftrightarrow> ?n \<noteq> 0"
    "recommended_active_jobs capacity cost \<le> dynamic_max_active_jobs config"
    using n cap by (auto simp: recommended_active_jobs_def model_recommended_active_jobs_def
        Let_def)
  moreover have "?n * jc_memory_mib cost \<le> cap_memory_budget_mib capacity" by simp
  moreover have "?n \<noteq> 0 \<longleftrightarrow> fits_hard_memory capacity cost"
    using assms(3) cap by (auto simp: fits_hard_memory_def div_eq_0_iff not_less)
  ultimately show ?thesis by (meson le_trans mult_le_mono1)
qed

theorem recommended_fits_witness:
  "recommended_active_jobs (detect_with_provider ex_config 0 0 ex_sample) ex_estimate
     \<le> dynamic_max_active_jobs ex_config
   \<and> 0 < recommended_active_jobs (detect_with_provider ex_config 0 0 ex_sample) ex_estimate"
  using recommended_fits [of ex_config ex_estimate _ 0 0 ex_sample, OF _ _ _ refl]
  by (auto simp: validate_scheduler_config_def ex_defs ex_estimate_def sched_eval)

end
