(* ===== verification/OrderedMap.thy ===== *)
theory OrderedMap
  imports Prelude
begin

text \<open>
  The ordered map of the standard library (\<open>BTreeMap\<close>) as the components use it: an
  association list with strictly increasing keys, so that iteration is in key order.  The
  interface \<open>map_laws\<close> states what a lookup returns after each update; the components' lemmas
  rest on its interpretation for the association lists.
\<close>

section \<open>Operations\<close>

type_synonym ('k, 'v) omap = "('k \<times> 'v) list"

fun om_get :: "('k::linorder, 'v) omap \<Rightarrow> 'k \<Rightarrow> 'v option" where
  "om_get [] k = None"
| "om_get ((k', v) # m) k = (if k = k' then Some v else om_get m k)"

fun om_put :: "('k::linorder, 'v) omap \<Rightarrow> 'k \<Rightarrow> 'v \<Rightarrow> ('k, 'v) omap" where
  "om_put [] k v = [(k, v)]"
| "om_put ((k', v') # m) k v =
     (if k < k' then (k, v) # (k', v') # m
      else if k = k' then (k, v) # m else (k', v') # om_put m k v)"

definition om_del :: "('k::linorder, 'v) omap \<Rightarrow> 'k \<Rightarrow> ('k, 'v) omap" where
  "om_del m k = filter (\<lambda>(k', v). k' \<noteq> k) m"

definition om_wf :: "('k::linorder, 'v) omap \<Rightarrow> bool" where
  "om_wf m \<longleftrightarrow> sorted_wrt (<) (map fst m)"

abbreviation om_keys :: "('k::linorder, 'v) omap \<Rightarrow> 'k set" where
  "om_keys m \<equiv> fst ` set m"

section \<open>Laws\<close>

lemma om_wf_Nil [simp]: "om_wf []"
  by (simp add: om_wf_def)

lemma om_wf_Cons [simp]: "om_wf ((k, v) # m) \<longleftrightarrow> om_wf m \<and> (\<forall>k' \<in> om_keys m. k < k')"
  by (auto simp: om_wf_def)

lemma om_keys_put [simp]: "om_keys (om_put m k v) = insert k (om_keys m)"
  by (induction m k v rule: om_put.induct) auto

lemma om_wf_put [simp]: "om_wf m \<Longrightarrow> om_wf (om_put m k v)"
proof (induction m k v rule: om_put.induct)
  case (2 k' v' m k v)
  have "\<forall>j \<in> om_keys (om_put m k v). k' < j" if "k' < k"
    using 2(2) that by (simp only: om_keys_put) auto
  with 2 show ?case by auto
qed simp

lemma om_wf_del [simp]: "om_wf m \<Longrightarrow> om_wf (om_del m k)"
  by (induction m) (auto simp: om_del_def)

lemma om_get_put [simp]: "om_get (om_put m k v) j = (if j = k then Some v else om_get m j)"
  by (induction m k v rule: om_put.induct) auto

lemma om_get_notin: "j \<notin> om_keys m \<Longrightarrow> om_get m j = None"
  by (induction m) auto

lemma om_get_del [simp]: "om_get (om_del m k) j = (if j = k then None else om_get m j)"
  by (induction m) (auto simp: om_del_def)

lemma om_get_in: "om_get m k = Some v \<Longrightarrow> (k, v) \<in> set m"
  by (induction m) (auto split: if_splits)

lemma om_get_iff: "om_wf m \<Longrightarrow> (k, v) \<in> set m \<longleftrightarrow> om_get m k = Some v"
  by (induction m) (force split: if_splits)+

lemma om_get_None: "om_get m k = None \<longleftrightarrow> k \<notin> om_keys m"
  by (induction m) (auto split: if_splits)

section \<open>The interface\<close>

locale map_laws =
  fixes get :: "'m \<Rightarrow> 'k \<Rightarrow> 'v option"
    and put :: "'m \<Rightarrow> 'k \<Rightarrow> 'v \<Rightarrow> 'm"
    and del :: "'m \<Rightarrow> 'k \<Rightarrow> 'm"
    and wf :: "'m \<Rightarrow> bool"
  assumes get_put: "get (put m k v) j = (if j = k then Some v else get m j)"
    and get_del: "get (del m k) j = (if j = k then None else get m j)"
    and wf_put: "wf m \<Longrightarrow> wf (put m k v)"
    and wf_del: "wf m \<Longrightarrow> wf (del m k)"
begin

text \<open>A predicate on every entry is kept by an update whose new entry satisfies it.\<close>

definition every :: "('k \<Rightarrow> 'v \<Rightarrow> bool) \<Rightarrow> 'm \<Rightarrow> bool" where
  "every P m \<longleftrightarrow> wf m \<and> (\<forall>k v. get m k = Some v \<longrightarrow> P k v)"

lemma every_put: "every P m \<Longrightarrow> P k v \<Longrightarrow> every P (put m k v)"
  by (auto simp: every_def get_put wf_put)

lemma every_del: "every P m \<Longrightarrow> every P (del m k)"
  by (auto simp: every_def get_del wf_del)

lemma every_get: "every P m \<Longrightarrow> get m k = Some v \<Longrightarrow> P k v"
  by (simp add: every_def)

lemma every_mono: "every P m \<Longrightarrow> (\<And>k v. P k v \<Longrightarrow> Q k v) \<Longrightarrow> every Q m"
  by (auto simp: every_def)

lemma every_wf: "every P m \<Longrightarrow> wf m"
  by (simp add: every_def)

end

interpretation om: map_laws om_get om_put om_del om_wf
  by unfold_locales auto

lemma om_every_empty: "om.every P []"
  by (simp add: om.every_def)

lemma om_every_set: "om.every P m \<Longrightarrow> (k, v) \<in> set m \<Longrightarrow> P k v"
  by (auto simp: om.every_def om_get_iff)

end
