(* ===== verification/HashMap.thy ===== *)
theory HashMap
  imports OrderedMap "HOL-Library.AList"
begin

text \<open>
  The hash map of the standard library (\<open>HashMap\<close>) as the components use it: an association
  list with distinct keys, whose order the components never rely on.  It satisfies the same
  interface \<open>map_laws\<close> as the ordered map.
\<close>

section \<open>Operations\<close>

definition hm_get :: "('k \<times> 'v) list \<Rightarrow> 'k \<Rightarrow> 'v option" where
  "hm_get m k = map_of m k"

definition hm_insert :: "('k \<times> 'v) list \<Rightarrow> 'k \<Rightarrow> 'v \<Rightarrow> ('k \<times> 'v) list" where
  "hm_insert m k v = AList.update k v m"

definition hm_remove :: "('k \<times> 'v) list \<Rightarrow> 'k \<Rightarrow> ('k \<times> 'v) list" where
  "hm_remove m k = AList.delete k m"

definition hm_wf :: "('k \<times> 'v) list \<Rightarrow> bool" where
  "hm_wf m = distinct (map fst m)"

section \<open>Laws\<close>

lemma hm_get_insert [simp]: "hm_get (hm_insert m k v) j = (if j = k then Some v else hm_get m j)"
  by (simp add: hm_get_def hm_insert_def update_conv')

lemma hm_get_remove [simp]: "hm_get (hm_remove m k) j = (if j = k then None else hm_get m j)"
  by (simp add: hm_get_def hm_remove_def delete_conv')

lemma hm_wf_insert [simp]: "hm_wf m \<Longrightarrow> hm_wf (hm_insert m k v)"
  by (simp add: hm_wf_def hm_insert_def distinct_update)

lemma hm_wf_remove [simp]: "hm_wf m \<Longrightarrow> hm_wf (hm_remove m k)"
  by (simp add: hm_wf_def hm_remove_def distinct_delete)

lemma hm_simps [simp]: "hm_get [] k = None" "hm_wf []"
  by (simp_all add: hm_get_def hm_wf_def)

interpretation hm: map_laws hm_get hm_insert hm_remove hm_wf
  by unfold_locales auto

lemma hm_get_set: "hm_wf m \<Longrightarrow> hm_get m k = Some v \<longleftrightarrow> (k, v) \<in> set m"
  by (simp add: hm_get_def hm_wf_def)

lemma hm_wf_filter: "hm_wf m \<Longrightarrow> hm_wf (filter P m)"
  by (simp add: hm_wf_def distinct_map_filter)

lemma hm_get_filter:
  "hm_wf m \<Longrightarrow> hm_get (filter P m) k = Some v \<longleftrightarrow> hm_get m k = Some v \<and> P (k, v)"
  by (auto simp: hm_get_set hm_wf_filter)

lemma hm_wf_map: "hm_wf m \<Longrightarrow> hm_wf (map (\<lambda>(k, v). (k, f v)) m)"
  by (simp add: hm_wf_def comp_def case_prod_beta)

lemma hm_get_map:
  "hm_get (map (\<lambda>(k, v). (k, f v)) m) k = map_option f (hm_get m k)"
  by (induction m) (auto simp: hm_get_def)

lemma hm_get_SomeD: "hm_get m k = Some v \<Longrightarrow> (k, v) \<in> set m"
  by (simp add: hm_get_def map_of_SomeD)

lemma hm_insert_new: "hm_get m k = None \<Longrightarrow> hm_insert m k v = m @ [(k, v)]"
proof (induction m)
  case (Cons a m)
  then show ?case by (cases a) (auto simp: hm_get_def hm_insert_def split: if_splits)
qed (simp add: hm_insert_def)

lemma hm_wf_snoc: "hm_wf m \<Longrightarrow> hm_get m k = None \<Longrightarrow> hm_wf (m @ [(k, v)])"
  by (metis hm_insert_new hm_wf_insert)

lemma hm_get_append: "hm_get (m @ m') k = (case hm_get m k of None \<Rightarrow> hm_get m' k | Some v \<Rightarrow> Some v)"
  by (simp add: hm_get_def map_add_def split: option.split)

lemma hm_get_subset:
  "hm_wf M \<Longrightarrow> hm_wf N \<Longrightarrow> set M \<subseteq> set N \<Longrightarrow> hm_get M k = Some v \<Longrightarrow> hm_get N k = Some v"
  by (auto simp: hm_get_set)

lemma hm_wf_appendD: "hm_wf (M @ N) \<Longrightarrow> hm_wf M \<and> hm_wf N \<and> fst ` set M \<inter> fst ` set N = {}"
  by (simp add: hm_wf_def)

lemma hm_get_None_iff: "hm_get m k = None \<longleftrightarrow> k \<notin> fst ` set m"
  unfolding hm_get_def by (rule map_of_eq_None_iff)

lemma hm_get_Cons: "hm_get ((k, v) # m) j = (if j = k then Some v else hm_get m j)"
  by (simp add: hm_get_def)

end
