(* ===== verification/DiskScan.thy ===== *)
theory DiskScan
  imports HashMap "HOL-Library.Char_ord" "HOL-Library.List_Lexorder" "HOL-Library.Sublist"
begin

text \<open>
  The two directory scanners of the soft disk limiter: the streaming scanner
  (\<open>server/disk/usage.rs\<close>), which keeps only the running sums, and the caching scanner
  (\<open>scan_directory_tree\<close> of \<open>server/disk/soft/usage_tree.rs\<close>), which keeps one node per directory.

  What the kernel answers during one traversal is a value of type \<open>dir_contents\<close>: every answer a
  scanner may ask for (the listing, the attributes of an entry, the opening of a directory, the
  attributes after opening) is part of it, errors included, so entries may vanish or be replaced
  at any point of the traversal.  The clock is the number of readings that are still before the
  time limit: \<open>sl_timeout\<close> readings succeed, the next one reports the timeout.
\<close>

section \<open>Usage\<close>

datatype directory_usage =
  DirectoryUsage (logical_bytes: nat) (physical_bytes: nat) (usage_entries: nat)

instantiation directory_usage :: comm_monoid_add
begin

definition zero_directory_usage :: directory_usage where
  "0 = DirectoryUsage 0 0 0"

definition plus_directory_usage :: "directory_usage \<Rightarrow> directory_usage \<Rightarrow> directory_usage" where
  "u + v = DirectoryUsage (logical_bytes u + logical_bytes v)
     (physical_bytes u + physical_bytes v) (usage_entries u + usage_entries v)"

instance
  by standard (auto simp: zero_directory_usage_def plus_directory_usage_def)

end

lemma usage_zero_sel [simp]: "logical_bytes 0 = 0" "physical_bytes 0 = 0" "usage_entries 0 = 0"
  by (simp_all add: zero_directory_usage_def)

lemma usage_plus_sel [simp]:
  "logical_bytes (u + v) = logical_bytes u + logical_bytes v"
  "physical_bytes (u + v) = physical_bytes u + physical_bytes v"
  "usage_entries (u + v) = usage_entries u + usage_entries v"
  by (simp_all add: plus_directory_usage_def)

lemma usage_eq_iff: "u = v \<longleftrightarrow> logical_bytes u = logical_bytes v
    \<and> physical_bytes u = physical_bytes v \<and> usage_entries u = usage_entries v"
  by (cases u; cases v) auto

text \<open>The sums a scanner can hold: every field is a \<open>u64\<close>.\<close>

definition usage_fits :: "directory_usage \<Rightarrow> bool" where
  "usage_fits u \<longleftrightarrow> logical_bytes u \<le> u64_max \<and> physical_bytes u \<le> u64_max
     \<and> usage_entries u \<le> u64_max"

lemma usage_fits_plusD:
  "usage_fits (u + v) \<Longrightarrow> usage_fits u" "usage_fits (u + v) \<Longrightarrow> usage_fits v"
  by (auto simp: usage_fits_def)

lemma usage_fits_zero [simp]: "usage_fits 0"
  by (simp add: usage_fits_def)

section \<open>Answers of the kernel\<close>

datatype errno = NOENT | STALE | NOTDIR | LOOP | OtherErrno nat

definition transient_entry_error :: "errno \<Rightarrow> bool" where
  "transient_entry_error e = (e = NOENT \<or> e = STALE)"

datatype file_type = Directory | RegularFile | OtherFile

record file_stat =
  st_dev :: nat
  st_ino :: nat
  st_kind :: file_type
  st_blocks :: int
  st_size :: int

record root_identity =
  ri_device :: nat
  ri_inode :: nat

definition identity_from_stat :: "file_stat \<Rightarrow> root_identity" where
  "identity_from_stat stat = \<lparr>ri_device = st_dev stat, ri_inode = st_ino stat\<rparr>"

text \<open>
  An entry carries its name, what \<open>statat\<close> answers, whether \<open>openat\<close> fails, what \<open>fstat\<close> of the
  opened directory answers, and what the opened directory contains.  The last three are only
  asked for when the entry is a directory.
\<close>

datatype dir_contents = Unlistable errno | Listing "dir_entry list"
and dir_entry =
    EntryError errno
  | Entry string "errno + file_stat" "errno option" "errno + file_stat" dir_contents

datatype scan_error =
    Os errno
  | TimedOut nat
  | EntryCountOverflow
  | TooManyEntries nat
  | TooDeep nat
  | NegativeBlocks
  | AllocatedOverflow
  | NegativeSize
  | LogicalUsageOverflow
  | DiskUsageOverflow
  | IdentityChanged
  | DuplicatePath
  | CacheDirectoryLimit
  | NoCachedRoot
  | EntryLimitTooLarge
  | CacheExceedsEntryBound
  | NotADirectory
  | RootReplaced
  | NotACleanPath

record scan_limits =
  sl_timeout :: nat
  sl_max_entries :: nat
  sl_max_depth :: nat

definition dot_name :: "string \<Rightarrow> bool" where
  "dot_name name = (name = ''.'' \<or> name = ''..'')"

definition stat_number_u64 :: "int \<Rightarrow> scan_error \<Rightarrow> scan_error + nat" where
  "stat_number_u64 v e = (if 0 \<le> v then Inr (nat v) else Inl e)"

abbreviation BYTES_PER_BLOCK :: nat where "BYTES_PER_BLOCK \<equiv> 512"

definition checked_mul :: "nat \<Rightarrow> nat \<Rightarrow> nat option" where
  "checked_mul a b = (if a * b \<le> u64_max then Some (a * b) else None)"

definition allocated_bytes :: "int \<Rightarrow> scan_error + nat" where
  "allocated_bytes blocks =
     bind_result (stat_number_u64 blocks NegativeBlocks)
       (\<lambda>b. ok_or (checked_mul b BYTES_PER_BLOCK) AllocatedOverflow)"

section \<open>The streaming scanner\<close>

record directory_scanner =
  ds_time :: nat
  ds_limits :: scan_limits
  ds_usage :: directory_usage

definition ensure_budget :: "directory_scanner \<Rightarrow> scan_error + directory_scanner" where
  "ensure_budget s =
     (if ds_time s = 0 then Inl (TimedOut (usage_entries (ds_usage s)))
      else Inr (s\<lparr>ds_time := ds_time s - 1\<rparr>))"

definition count_entry :: "directory_scanner \<Rightarrow> scan_error + directory_scanner" where
  "count_entry s =
     bind_result (ok_or (checked_add (usage_entries (ds_usage s)) 1) EntryCountOverflow) (\<lambda>n.
       if sl_max_entries (ds_limits s) < n then Inl (TooManyEntries (sl_max_entries (ds_limits s)))
       else Inr (s\<lparr>ds_usage := DirectoryUsage (logical_bytes (ds_usage s))
              (physical_bytes (ds_usage s)) n\<rparr>))"

definition add_allocated_blocks ::
  "int \<Rightarrow> directory_scanner \<Rightarrow> scan_error + directory_scanner" where
  "add_allocated_blocks blocks s =
     bind_result (stat_number_u64 blocks NegativeBlocks) (\<lambda>b.
     bind_result (ok_or (checked_mul b BYTES_PER_BLOCK) AllocatedOverflow) (\<lambda>allocated.
     bind_result (ok_or (checked_add (physical_bytes (ds_usage s)) allocated) DiskUsageOverflow)
       (\<lambda>n. Inr (s\<lparr>ds_usage := DirectoryUsage (logical_bytes (ds_usage s)) n
              (usage_entries (ds_usage s))\<rparr>))))"

definition add_logical_size :: "int \<Rightarrow> directory_scanner \<Rightarrow> scan_error + directory_scanner" where
  "add_logical_size sz s =
     bind_result (stat_number_u64 sz NegativeSize) (\<lambda>b.
     bind_result (ok_or (checked_add (logical_bytes (ds_usage s)) b) LogicalUsageOverflow)
       (\<lambda>n. Inr (s\<lparr>ds_usage := DirectoryUsage n (physical_bytes (ds_usage s))
              (usage_entries (ds_usage s))\<rparr>)))"

fun scan_open_directory ::
  "dir_contents \<Rightarrow> nat \<Rightarrow> directory_scanner \<Rightarrow> scan_error + directory_scanner"
and scan_open_entries ::
  "dir_entry list \<Rightarrow> nat \<Rightarrow> directory_scanner \<Rightarrow> scan_error + directory_scanner"
and scan_open_entry ::
  "dir_entry \<Rightarrow> nat \<Rightarrow> directory_scanner \<Rightarrow> scan_error + directory_scanner" where
  "scan_open_directory (Unlistable e) depth s = bind_result (ensure_budget s) (\<lambda>s. Inl (Os e))"
| "scan_open_directory (Listing es) depth s =
     bind_result (ensure_budget s) (\<lambda>s. scan_open_entries es depth s)"
| "scan_open_entries [] depth s = Inr s"
| "scan_open_entries (e # es) depth s =
     bind_result (ensure_budget s) (\<lambda>s.
     bind_result (scan_open_entry e depth s) (\<lambda>s. scan_open_entries es depth s))"
| "scan_open_entry (EntryError err) depth s =
     (if transient_entry_error err then Inr s else Inl (Os err))"
| "scan_open_entry (Entry name stat opening opened contents) depth s =
     (if dot_name name then Inr s
      else bind_result (count_entry s) (\<lambda>s.
        case stat of
          Inl err \<Rightarrow> if transient_entry_error err then Inr s else Inl (Os err)
        | Inr st \<Rightarrow>
            bind_result (add_allocated_blocks (st_blocks st) s) (\<lambda>s.
              case st_kind st of
                Directory \<Rightarrow>
                  if sl_max_depth (ds_limits s) \<le> depth
                  then Inl (TooDeep (sl_max_depth (ds_limits s)))
                  else (case opening of
                      Some err \<Rightarrow> if transient_entry_error err then Inr s else Inl (Os err)
                    | None \<Rightarrow> scan_open_directory contents (depth + 1) s)
              | RegularFile \<Rightarrow> add_logical_size (st_size st) s
              | OtherFile \<Rightarrow> Inr s)))"

text \<open>
  What the kernel answers about the root: whether it opens, its attributes, its contents, and
  what opening the same path again answers after the traversal.
\<close>

record root_observation =
  ro_open :: "errno + file_stat"
  ro_contents :: dir_contents
  ro_reopen :: "errno + file_stat"

definition os_result :: "errno + 'a \<Rightarrow> scan_error + 'a" where
  "os_result r = (case r of Inl e \<Rightarrow> Inl (Os e) | Inr x \<Rightarrow> Inr x)"

definition directory_identity :: "errno + file_stat \<Rightarrow> scan_error + root_identity" where
  "directory_identity r = bind_result (os_result r) (\<lambda>st. Inr (identity_from_stat st))"

definition scan_directory_with_id ::
  "root_observation \<Rightarrow> scan_limits \<Rightarrow> scan_error + directory_usage \<times> root_identity" where
  "scan_directory_with_id root limits =
     bind_result (os_result (ro_open root)) (\<lambda>root_stat.
     bind_result (allocated_bytes (st_blocks root_stat)) (\<lambda>allocated.
     bind_result (scan_open_directory (ro_contents root) 0
         \<lparr>ds_time = sl_timeout limits, ds_limits = limits,
          ds_usage = DirectoryUsage 0 allocated 0\<rparr>) (\<lambda>scanner.
     bind_result (directory_identity (ro_reopen root)) (\<lambda>again.
       if again \<noteq> identity_from_stat root_stat then Inl RootReplaced
       else Inr (ds_usage scanner, identity_from_stat root_stat)))))"

definition scan_directory_sync ::
  "root_observation \<Rightarrow> scan_limits \<Rightarrow> scan_error + directory_usage" where
  "scan_directory_sync root limits =
     bind_result (scan_directory_with_id root limits) (\<lambda>(usage, _). Inr usage)"

section \<open>The caching scanner\<close>

text \<open>A path below the root is the list of its components; the root is the empty path.\<close>

type_synonym path = "string list"

record cached_directory =
  cd_base :: directory_usage
  cd_total :: directory_usage
  cd_children :: "string list"

type_synonym nodes = "(path \<times> cached_directory) list"

record scan_budget =
  sb_time :: nat
  sb_limits :: scan_limits
  sb_entries :: nat

definition budget_new :: "scan_limits \<Rightarrow> scan_budget" where
  "budget_new limits = \<lparr>sb_time = sl_timeout limits, sb_limits = limits, sb_entries = 0\<rparr>"

definition budget_check :: "scan_budget \<Rightarrow> scan_error + scan_budget" where
  "budget_check b =
     (if sb_time b = 0 then Inl (TimedOut (sb_entries b)) else Inr (b\<lparr>sb_time := sb_time b - 1\<rparr>))"

definition visit_entry :: "scan_budget \<Rightarrow> scan_error + scan_budget" where
  "visit_entry b =
     bind_result (ok_or (checked_add (sb_entries b) 1) EntryCountOverflow) (\<lambda>n.
       if sl_max_entries (sb_limits b) < n then Inl (TooManyEntries (sl_max_entries (sb_limits b)))
       else Inr (b\<lparr>sb_entries := n\<rparr>))"

definition add_physical :: "directory_usage \<Rightarrow> nat \<Rightarrow> scan_error + directory_usage" where
  "add_physical u n =
     bind_result (ok_or (checked_add (physical_bytes u) n) DiskUsageOverflow)
       (\<lambda>m. Inr (DirectoryUsage (logical_bytes u) m (usage_entries u)))"

definition add_logical :: "directory_usage \<Rightarrow> nat \<Rightarrow> scan_error + directory_usage" where
  "add_logical u n =
     bind_result (ok_or (checked_add (logical_bytes u) n) LogicalUsageOverflow)
       (\<lambda>m. Inr (DirectoryUsage m (physical_bytes u) (usage_entries u)))"

definition add_entries :: "directory_usage \<Rightarrow> nat \<Rightarrow> scan_error + directory_usage" where
  "add_entries u n =
     bind_result (ok_or (checked_add (usage_entries u) n) EntryCountOverflow)
       (\<lambda>m. Inr (DirectoryUsage (logical_bytes u) (physical_bytes u) m))"

definition add_usage :: "directory_usage \<Rightarrow> directory_usage \<Rightarrow> scan_error + directory_usage" where
  "add_usage target source =
     bind_result (add_logical target (logical_bytes source)) (\<lambda>t.
     bind_result (add_physical t (physical_bytes source)) (\<lambda>t.
       add_entries t (usage_entries source)))"

text \<open>The local variables of the loop over one directory, with the budget and the nodes.\<close>

record frame =
  fr_base :: directory_usage
  fr_descendants :: directory_usage
  fr_children :: "string list"
  fr_budget :: scan_budget
  fr_nodes :: nodes

definition insert_node ::
  "path \<Rightarrow> nat \<Rightarrow> frame \<Rightarrow> scan_error + directory_usage \<times> scan_budget \<times> nodes" where
  "insert_node relative_path max_cached f =
     bind_result (add_usage (fr_base f) (fr_descendants f)) (\<lambda>total.
     let previous = hm_get (fr_nodes f) relative_path;
         nodes = hm_insert (fr_nodes f) relative_path
           \<lparr>cd_base = fr_base f, cd_total = total, cd_children = fr_children f\<rparr>
     in if previous \<noteq> None then Inl DuplicatePath
        else if max_cached < length nodes then Inl CacheDirectoryLimit
        else Inr (total, fr_budget f, nodes))"

fun scan_directory_tree ::
  "dir_contents \<Rightarrow> file_stat \<Rightarrow> path \<Rightarrow> nat \<Rightarrow> scan_budget \<Rightarrow> nodes \<Rightarrow> nat \<Rightarrow>
    scan_error + directory_usage \<times> scan_budget \<times> nodes"
and scan_tree_entries ::
  "dir_entry list \<Rightarrow> path \<Rightarrow> nat \<Rightarrow> nat \<Rightarrow> frame \<Rightarrow> scan_error + frame"
and scan_tree_entry ::
  "dir_entry \<Rightarrow> path \<Rightarrow> nat \<Rightarrow> nat \<Rightarrow> frame \<Rightarrow> scan_error + frame" where
  "scan_directory_tree (Unlistable e) stat relative_path depth budget nodes max_cached =
     bind_result (budget_check budget) (\<lambda>budget.
     bind_result (allocated_bytes (st_blocks stat)) (\<lambda>allocated. Inl (Os e)))"
| "scan_directory_tree (Listing es) stat relative_path depth budget nodes max_cached =
     bind_result (budget_check budget) (\<lambda>budget.
     bind_result (allocated_bytes (st_blocks stat)) (\<lambda>allocated.
     bind_result (scan_tree_entries es relative_path depth max_cached
         \<lparr>fr_base = DirectoryUsage 0 allocated 0, fr_descendants = 0, fr_children = [],
          fr_budget = budget, fr_nodes = nodes\<rparr>)
       (\<lambda>f. insert_node relative_path max_cached f)))"
| "scan_tree_entries [] relative_path depth max_cached f = Inr f"
| "scan_tree_entries (e # es) relative_path depth max_cached f =
     bind_result (budget_check (fr_budget f)) (\<lambda>budget.
     bind_result (scan_tree_entry e relative_path depth max_cached (f\<lparr>fr_budget := budget\<rparr>))
       (\<lambda>f. scan_tree_entries es relative_path depth max_cached f))"
| "scan_tree_entry (EntryError err) relative_path depth max_cached f =
     (if transient_entry_error err then Inr f else Inl (Os err))"
| "scan_tree_entry (Entry name stat opening opened contents) relative_path depth max_cached f =
     (if dot_name name then Inr f
      else bind_result (visit_entry (fr_budget f)) (\<lambda>budget.
        bind_result (add_entries (fr_base f) 1) (\<lambda>base.
        case stat of
          Inl err \<Rightarrow>
            if transient_entry_error err then Inr (f\<lparr>fr_base := base, fr_budget := budget\<rparr>)
            else Inl (Os err)
        | Inr st \<Rightarrow>
            bind_result (allocated_bytes (st_blocks st)) (\<lambda>allocated.
              case st_kind st of
                Directory \<Rightarrow>
                  if sl_max_depth (sb_limits budget) \<le> depth
                  then Inl (TooDeep (sl_max_depth (sb_limits budget)))
                  else (case opening of
                      Some err \<Rightarrow>
                        if transient_entry_error err
                        then bind_result (add_physical base allocated)
                          (\<lambda>base. Inr (f\<lparr>fr_base := base, fr_budget := budget\<rparr>))
                        else Inl (Os err)
                    | None \<Rightarrow>
                        bind_result (os_result opened) (\<lambda>opened_stat.
                        if identity_from_stat opened_stat \<noteq> identity_from_stat st
                        then Inl IdentityChanged
                        else bind_result
                            (scan_directory_tree contents st (relative_path @ [name]) (depth + 1)
                              budget (fr_nodes f) max_cached)
                          (\<lambda>(child_total, budget, nodes).
                            bind_result (add_usage (fr_descendants f) child_total)
                              (\<lambda>descendants. Inr \<lparr>fr_base = base, fr_descendants = descendants,
                                 fr_children = insort_insert name (fr_children f),
                                 fr_budget = budget, fr_nodes = nodes\<rparr>))))
              | RegularFile \<Rightarrow>
                  bind_result (add_physical base allocated) (\<lambda>base.
                  bind_result (stat_number_u64 (st_size st) NegativeSize) (\<lambda>sz.
                  bind_result (add_logical base sz) (\<lambda>base.
                    Inr (f\<lparr>fr_base := base, fr_budget := budget\<rparr>))))
              | OtherFile \<Rightarrow>
                  bind_result (add_physical base allocated)
                    (\<lambda>base. Inr (f\<lparr>fr_base := base, fr_budget := budget\<rparr>))))))"

end
