(* ===== verification/Planner.thy ===== *)
theory Planner
  imports DiskScan
begin

text \<open>
  The scan planner of the soft disk limiter (\<open>server/disk/soft/planner.rs\<close>): per target the
  dirty generation the watcher reported and the generation a scan acknowledged, the deadlines of
  the next periodic, dirty and full scan, and the lease of the scan in flight.

  Ticks and durations are natural numbers of nanoseconds up to \<open>duration_max\<close>; generations,
  revisions and tokens are \<open>u64\<close>.  The daemon calls the planner from one task, so the operations
  are functions from planner to planner.
\<close>

section \<open>Ticks\<close>

definition duration_max :: nat where
  "duration_max = u64_max * 1000000000 + 999999999"

definition add_tick :: "nat \<Rightarrow> nat \<Rightarrow> nat" where
  "add_tick left right = (if left + right \<le> duration_max then left + right else duration_max)"

section \<open>Configuration and targets\<close>

record planner_config =
  scan_interval :: nat
  full_scan_interval :: nat
  debounce :: nat
  watcher_enabled :: bool

definition normalized :: "planner_config \<Rightarrow> planner_config" where
  "normalized c =
     (let c1 = (if scan_interval c = 0 then c\<lparr>scan_interval := 1\<rparr> else c)
      in c1\<lparr>full_scan_interval := max (full_scan_interval c1) (scan_interval c1)\<rparr>)"

record target_spec =
  ts_id :: string
  ts_fingerprint :: string
  ts_root_identity :: "root_identity option"
  ts_enabled :: bool
  ts_watcher_trusted :: bool
  ts_force_periodic_full :: bool

datatype scan_kind = Full | Partial

datatype scan_reason = Initial | TargetChanged | Dirty | Overflow | WatcherFallback
  | PeriodicFull | FullDeadline | PartialFallback | RetryAfterFailure

record scan_candidate =
  sc_target_id :: string
  sc_kind :: scan_kind
  sc_reason :: scan_reason
  sc_fingerprint :: string
  sc_root_identity :: "root_identity option"
  sc_captured_generation :: nat
  sc_revision :: nat
  sc_token :: nat
  sc_due_at :: nat

datatype scan_completion = Succeeded scan_kind | Failed

datatype completion_disposition = Applied | Stale | Missing

datatype upsert_disposition = Inserted | Reset | Unchanged

record full_requirement =
  fr_due_at :: nat
  fr_generation :: nat
  fr_reason :: scan_reason

record in_flight_lease =
  if_token :: nat
  if_revision :: nat

record target_state =
  spec :: target_spec
  revision :: nat
  dirty_generation :: nat
  acknowledged_generation :: nat
  dirty_due :: "nat option"
  baseline_available :: bool
  full_req :: "full_requirement option"
  last_dispatch_at :: "nat option"
  last_scan_at :: "nat option"
  last_full_at :: "nat option"
  next_periodic_due :: nat
  full_deadline :: nat
  in_flight :: "in_flight_lease option"
  last_dispatch_order :: nat

definition then_some :: "bool \<Rightarrow> 'a \<Rightarrow> 'a option" where
  "then_some b x = (if b then Some x else None)"

definition target_new :: "target_spec \<Rightarrow> nat \<Rightarrow> target_state" where
  "target_new s now = \<lparr>spec = s, revision = 1, dirty_generation = 0,
     acknowledged_generation = 0, dirty_due = None, baseline_available = False,
     full_req = then_some (ts_enabled s)
       \<lparr>fr_due_at = now, fr_generation = 0, fr_reason = Initial\<rparr>,
     last_dispatch_at = None, last_scan_at = None, last_full_at = None,
     next_periodic_due = now, full_deadline = now, in_flight = None,
     last_dispatch_order = 0\<rparr>"

text \<open>A reset keeps the lease of the scan in flight, and with it the time it was dispatched.\<close>

definition target_reset :: "target_state \<Rightarrow> nat \<Rightarrow> scan_reason \<Rightarrow> target_state" where
  "target_reset t now reason = t\<lparr>revision := sat_add (revision t) 1, dirty_generation := 0,
     acknowledged_generation := 0, dirty_due := None, baseline_available := False,
     full_req := then_some (ts_enabled (spec t))
       \<lparr>fr_due_at = now, fr_generation = 0, fr_reason = reason\<rparr>,
     last_dispatch_at := (if in_flight t = None then None else last_dispatch_at t),
     last_scan_at := None, last_full_at := None, next_periodic_due := now,
     full_deadline := now\<rparr>"

record planner =
  pl_config :: planner_config
  pl_targets :: "(string, target_state) omap"
  pl_next_token :: nat
  pl_dispatch_order :: nat
  pl_shutdown :: bool

definition planner_new :: "planner_config \<Rightarrow> planner" where
  "planner_new config = \<lparr>pl_config = normalized config, pl_targets = [], pl_next_token = 0,
     pl_dispatch_order = 0, pl_shutdown = False\<rparr>"

section \<open>Deadlines\<close>

text \<open>The maximum of two optional ticks; an absent one is the smallest.\<close>

fun max_opt :: "nat option \<Rightarrow> nat option \<Rightarrow> nat option" where
  "max_opt None b = b"
| "max_opt a None = a"
| "max_opt (Some a) (Some b) = Some (max a b)"

definition next_dirty_due :: "target_state \<Rightarrow> nat \<Rightarrow> planner_config \<Rightarrow> nat" where
  "next_dirty_due t now config =
     (let debounce_due = add_tick now (debounce config);
          cadence_due = (case max_opt (last_scan_at t) (last_dispatch_at t) of
              None \<Rightarrow> 0 | Some activity \<Rightarrow> add_tick activity (scan_interval config))
      in max debounce_due cadence_due)"

definition debounced_cadence_due :: "nat \<Rightarrow> nat \<Rightarrow> nat \<Rightarrow> nat" where
  "debounced_cadence_due now debounce' interval =
     max (add_tick now debounce') (add_tick now interval)"

definition due_work ::
    "planner_config \<Rightarrow> target_state \<Rightarrow> (nat \<times> scan_kind \<times> scan_reason) option" where
  "due_work config t =
     (if \<not> ts_enabled (spec t) \<or> in_flight t \<noteq> None then None
      else case full_req t of
        Some required \<Rightarrow> Some (fr_due_at required, Full, fr_reason required)
      | None \<Rightarrow>
          if \<not> baseline_available t then Some (next_periodic_due t, Full, Initial)
          else if \<not> watcher_enabled config \<or> \<not> ts_watcher_trusted (spec t)
          then Some (next_periodic_due t, Full, WatcherFallback)
          else if ts_force_periodic_full (spec t)
          then Some (next_periodic_due t, Full, PeriodicFull)
          else case dirty_due t of
            None \<Rightarrow> Some (full_deadline t, Full, FullDeadline)
          | Some due \<Rightarrow> if due < full_deadline t then Some (due, Partial, Dirty)
                        else Some (full_deadline t, Full, FullDeadline))"

section \<open>Targets and events\<close>

definition put_target :: "planner \<Rightarrow> string \<Rightarrow> target_state \<Rightarrow> planner" where
  "put_target p i t = p\<lparr>pl_targets := om_put (pl_targets p) i t\<rparr>"

definition upsert_target :: "nat \<Rightarrow> target_spec \<Rightarrow> planner \<Rightarrow> upsert_disposition \<times> planner" where
  "upsert_target now s p =
     (case om_get (pl_targets p) (ts_id s) of
        None \<Rightarrow> (Inserted, put_target p (ts_id s) (target_new s now))
      | Some t \<Rightarrow>
          if spec t = s then (Unchanged, p)
          else (Reset, put_target p (ts_id s) (target_reset (t\<lparr>spec := s\<rparr>) now TargetChanged)))"

definition remove_target :: "string \<Rightarrow> planner \<Rightarrow> bool \<times> planner" where
  "remove_target i p =
     (om_get (pl_targets p) i \<noteq> None, p\<lparr>pl_targets := om_del (pl_targets p) i\<rparr>)"

definition set_watcher_trusted :: "string \<Rightarrow> bool \<Rightarrow> nat \<Rightarrow> planner \<Rightarrow> bool \<times> planner" where
  "set_watcher_trusted i trusted now p =
     (case om_get (pl_targets p) i of
        None \<Rightarrow> (False, p)
      | Some t \<Rightarrow>
          if ts_watcher_trusted (spec t) = trusted then (False, p)
          else (True, put_target p i (target_reset
                  (t\<lparr>spec := (spec t)\<lparr>ts_watcher_trusted := trusted\<rparr>\<rparr>) now TargetChanged)))"

definition get_or_insert :: "'a option \<Rightarrow> 'a \<Rightarrow> 'a option" where
  "get_or_insert x d = (case x of None \<Rightarrow> Some d | Some y \<Rightarrow> Some y)"

definition advance_dirty :: "planner_config \<Rightarrow> nat \<Rightarrow> nat \<Rightarrow> target_state \<Rightarrow> target_state" where
  "advance_dirty config now generation t =
     t\<lparr>dirty_generation := generation,
       dirty_due := get_or_insert (dirty_due t) (next_dirty_due t now config)\<rparr>"

definition mark_dirty :: "string \<Rightarrow> nat \<Rightarrow> nat \<Rightarrow> planner \<Rightarrow> bool \<times> planner" where
  "mark_dirty i now watcher_generation p =
     (case om_get (pl_targets p) i of
        None \<Rightarrow> (False, p)
      | Some t \<Rightarrow>
          if \<not> ts_enabled (spec t) \<or> watcher_generation = 0
             \<or> watcher_generation \<le> dirty_generation t
          then (False, p)
          else (True, put_target p i (advance_dirty (pl_config p) now watcher_generation t)))"

definition mark_overflow :: "string \<Rightarrow> nat \<Rightarrow> nat \<Rightarrow> planner \<Rightarrow> bool \<times> planner" where
  "mark_overflow i now watcher_generation p =
     (case om_get (pl_targets p) i of
        None \<Rightarrow> (False, p)
      | Some t \<Rightarrow>
          if \<not> ts_enabled (spec t) then (False, p)
          else
            let advanced = watcher_generation > dirty_generation t;
                t1 = (if advanced then advance_dirty (pl_config p) now watcher_generation t
                      else t)
            in case full_req t1 of
                 Some required \<Rightarrow>
                   let merged = required\<lparr>fr_generation :=
                         max (fr_generation required) (dirty_generation t1)\<rparr>
                   in if fr_reason required = RetryAfterFailure
                      then (advanced, put_target p i (t1\<lparr>full_req := Some merged\<rparr>))
                      else if \<not> advanced then (False, put_target p i t1)
                      else let merged' = (if fr_due_at required \<le> now
                                          then merged\<lparr>fr_reason := Overflow\<rparr> else merged)
                           in (True, put_target p i (t1\<lparr>full_req := Some merged'\<rparr>))
               | None \<Rightarrow>
                   (True, put_target p i (t1\<lparr>full_req := Some \<lparr>fr_due_at = now,
                      fr_generation = dirty_generation t1, fr_reason = Overflow\<rparr>\<rparr>)))"

section \<open>Dispatching scans\<close>

type_synonym due_entry = "nat \<times> nat \<times> string \<times> scan_kind \<times> scan_reason"

text \<open>The due work of the targets, in key order, and the first least of it by due time, last
  dispatch and identifier.\<close>

definition due_entries :: "planner \<Rightarrow> nat \<Rightarrow> due_entry list" where
  "due_entries p now = List.map_filter (\<lambda>(i, t).
     case due_work (pl_config p) t of
       None \<Rightarrow> None
     | Some (due, kind, reason) \<Rightarrow>
         then_some (due \<le> now) (due, last_dispatch_order t, i, kind, reason))
     (pl_targets p)"

fun entry_le :: "due_entry \<Rightarrow> due_entry \<Rightarrow> bool" where
  "entry_le (d, q, i, _) (d', q', i', _) =
     (d < d' \<or> d = d' \<and> (q < q' \<or> q = q' \<and> i \<le> i'))"

fun min_entry :: "due_entry list \<Rightarrow> due_entry option" where
  "min_entry [] = None"
| "min_entry (e # es) = Some (foldl (\<lambda>x y. if entry_le x y then x else y) e es)"

definition next_candidate :: "nat \<Rightarrow> planner \<Rightarrow> scan_candidate option \<times> planner" where
  "next_candidate now p =
     (if pl_shutdown p then (None, p)
      else case min_entry (due_entries p now) of
        None \<Rightarrow> (None, p)
      | Some (due_at, _, i, kind, reason) \<Rightarrow>
          let token = max (sat_add (pl_next_token p) 1) 1;
              order = max (sat_add (pl_dispatch_order p) 1) 1;
              p1 = p\<lparr>pl_next_token := token, pl_dispatch_order := order\<rparr>
          in case om_get (pl_targets p1) i of
               None \<Rightarrow> (None, p1)
             | Some t \<Rightarrow>
                 (Some \<lparr>sc_target_id = i, sc_kind = kind, sc_reason = reason,
                    sc_fingerprint = ts_fingerprint (spec t),
                    sc_root_identity = ts_root_identity (spec t),
                    sc_captured_generation = dirty_generation t, sc_revision = revision t,
                    sc_token = token, sc_due_at = due_at\<rparr>,
                  put_target p1 i (t\<lparr>last_dispatch_order := order, last_dispatch_at := Some now,
                    in_flight := Some \<lparr>if_token = token, if_revision = revision t\<rparr>\<rparr>)))"

fun min_list_opt :: "nat list \<Rightarrow> nat option" where
  "min_list_opt [] = None"
| "min_list_opt (x # xs) = Some (foldl min x xs)"

definition next_wakeup :: "nat \<Rightarrow> planner \<Rightarrow> nat option" where
  "next_wakeup now p =
     (if pl_shutdown p then None
      else map_option (\<lambda>due. due - now)
        (min_list_opt (List.map_filter (\<lambda>(i, t). map_option fst (due_work (pl_config p) t))
           (pl_targets p))))"

section \<open>Completing scans\<close>

definition record_full_scan ::
    "target_state \<Rightarrow> nat \<Rightarrow> scan_candidate \<Rightarrow> planner_config \<Rightarrow> target_state" where
  "record_full_scan t now candidate config =
     (let t1 = t\<lparr>baseline_available := True, last_full_at := Some now,
                 full_deadline := add_tick now (full_scan_interval config)\<rparr>
      in case full_req t1 of
           None \<Rightarrow> t1
         | Some required \<Rightarrow>
             if fr_generation required \<le> sc_captured_generation candidate
             then t1\<lparr>full_req := None\<rparr>
             else let reason = (if fr_reason required = RetryAfterFailure then Overflow
                                else fr_reason required);
                      cadence_due = add_tick now (scan_interval config)
                  in t1\<lparr>full_req := Some (required\<lparr>fr_reason := reason,
                       fr_due_at := min (max (fr_due_at required) cadence_due)
                         (full_deadline t1)\<rparr>)\<rparr>)"

definition require_full_after :: "target_state \<Rightarrow> nat \<Rightarrow> scan_candidate \<Rightarrow> scan_reason \<Rightarrow>
    nat \<Rightarrow> nat \<Rightarrow> target_state" where
  "require_full_after t now candidate reason debounce' interval =
     t\<lparr>full_req := Some \<lparr>fr_due_at = debounced_cadence_due now debounce' interval,
        fr_generation = max (dirty_generation t) (sc_captured_generation candidate),
        fr_reason = reason\<rparr>\<rparr>"

definition acknowledge_generation ::
    "target_state \<Rightarrow> nat \<Rightarrow> nat \<Rightarrow> nat \<Rightarrow> nat \<Rightarrow> target_state" where
  "acknowledge_generation t captured now debounce' interval =
     t\<lparr>acknowledged_generation := max (acknowledged_generation t) captured,
       dirty_due := (if dirty_generation t \<le> captured then None
                     else Some (debounced_cadence_due now debounce' interval))\<rparr>"

definition complete :: "scan_candidate \<Rightarrow> nat \<Rightarrow> scan_completion \<Rightarrow> planner \<Rightarrow>
    completion_disposition \<times> planner" where
  "complete candidate now completion p =
     (case om_get (pl_targets p) (sc_target_id candidate) of
        None \<Rightarrow> (Missing, p)
      | Some t \<Rightarrow>
          case in_flight t of
            None \<Rightarrow> (Stale, p)
          | Some lease \<Rightarrow>
              if if_token lease \<noteq> sc_token candidate \<or> if_revision lease \<noteq> sc_revision candidate
              then (Stale, p)
              else if revision t \<noteq> sc_revision candidate
                      \<or> ts_fingerprint (spec t) \<noteq> sc_fingerprint candidate
                      \<or> ts_root_identity (spec t) \<noteq> sc_root_identity candidate
              then (Stale, put_target p (sc_target_id candidate) (t\<lparr>in_flight := None\<rparr>))
              else
                let config = pl_config p;
                    t1 = t\<lparr>in_flight := None, last_scan_at := Some now,
                           next_periodic_due := add_tick now (scan_interval config)\<rparr>;
                    t2 = (case completion of
                        Succeeded performed \<Rightarrow>
                          if sc_kind candidate = Full \<and> performed \<noteq> Full
                          then require_full_after t1 now candidate PartialFallback
                                 (debounce config) (scan_interval config)
                          else let acked = acknowledge_generation t1
                                     (sc_captured_generation candidate) now (debounce config)
                                     (scan_interval config)
                               in if performed = Full
                                  then record_full_scan acked now candidate config else acked
                      | Failed \<Rightarrow>
                          t1\<lparr>full_req := Some
                            \<lparr>fr_due_at = add_tick now (scan_interval config),
                             fr_generation =
                               max (dirty_generation t1) (sc_captured_generation candidate),
                             fr_reason = RetryAfterFailure\<rparr>\<rparr>)
                in (Applied, put_target p (sc_target_id candidate) t2))"

definition shutdown :: "planner \<Rightarrow> planner" where
  "shutdown p = p\<lparr>pl_shutdown := True\<rparr>"

end
