(* ===== verification/PlannerProps.thy ===== *)
theory PlannerProps
  imports Planner
begin

text \<open>
  What the scan planner guarantees: no reported change is forgotten, every enabled target is
  scanned again within a bounded time, the earliest due target is served first, a scan of an
  outdated target never counts, and a failed scan backs off whatever events arrive.
\<close>

section \<open>Ticks and selection\<close>

lemma add_tick_ge: "a \<le> duration_max \<Longrightarrow> a \<le> add_tick a b"
  by (simp add: add_tick_def)

lemma add_tick_mono: "a \<le> a' \<Longrightarrow> b \<le> b' \<Longrightarrow> add_tick a b \<le> add_tick a' b'"
  by (auto simp: add_tick_def)

lemma debounced_cadence_due_eq: "debounced_cadence_due now d s = add_tick now (max s d)"
  by (auto simp: debounced_cadence_due_def add_tick_def max_def)

lemma entry_le_trans: "entry_le x y \<Longrightarrow> entry_le y z \<Longrightarrow> entry_le x z"
  by (cases x; cases y; cases z) auto

lemma entry_le_total: "entry_le x y \<or> entry_le y x"
  by (cases x; cases y) auto

lemma min_entry_fold:
  "let m = foldl (\<lambda>x y. if entry_le x y then x else y) e es
   in m \<in> set (e # es) \<and> (\<forall>e' \<in> set (e # es). entry_le m e')"
proof (induction es arbitrary: e)
  case Nil
  then show ?case using entry_le_total [of e e] by simp
next
  case (Cons x es)
  let ?e = "if entry_le e x then e else x"
  let ?m = "foldl (\<lambda>x y. if entry_le x y then x else y) ?e es"
  have m: "?m \<in> set (?e # es)" "\<forall>e' \<in> set (?e # es). entry_le ?m e'"
    using Cons [of ?e] by (simp_all add: Let_def)
  have "entry_le ?e e" "entry_le ?e x"
    using entry_le_total [of e x] entry_le_total [of e e] entry_le_total [of x x] by auto
  moreover have "entry_le ?m ?e" using m(2) by (simp only: list.set_intros ball_simps)
  ultimately have "entry_le ?m e" "entry_le ?m x" by (blast intro: entry_le_trans)+
  then show ?case using m by (auto simp: Let_def split: if_splits)
qed

lemma min_entry_Some:
  "min_entry es = Some e \<Longrightarrow> e \<in> set es \<and> (\<forall>e' \<in> set es. entry_le e e')"
  using min_entry_fold by (cases es) (fastforce simp: Let_def)+

lemma min_entry_None [simp]: "min_entry es = None \<longleftrightarrow> es = []"
  by (cases es) auto

lemma in_due_entries:
  "(d, q, i, k, r) \<in> set (due_entries p now) \<longleftrightarrow>
   (\<exists>t. (i, t) \<in> set (pl_targets p) \<and> due_work (pl_config p) t = Some (d, k, r)
        \<and> d \<le> now \<and> q = last_dispatch_order t)"
  by (force simp: due_entries_def List.map_filter_def then_some_def image_iff
      split: option.splits prod.splits if_splits)

text \<open>What a candidate is: the least due work of the targets, and its target is leased.\<close>

lemma next_candidate_Some:
  assumes wf: "om_wf (pl_targets p)" and n: "next_candidate now p = (Some c, p')"
  obtains t where "\<not> pl_shutdown p" "om_get (pl_targets p) (sc_target_id c) = Some t"
    "due_work (pl_config p) t = Some (sc_due_at c, sc_kind c, sc_reason c)"
    "sc_due_at c \<le> now" "sc_captured_generation c = dirty_generation t"
    "sc_revision c = revision t" "sc_token c = max (sat_add (pl_next_token p) 1) 1"
    "\<forall>e \<in> set (due_entries p now). entry_le
       (sc_due_at c, last_dispatch_order t, sc_target_id c, sc_kind c, sc_reason c) e"
    "p' = p\<lparr>pl_next_token := max (sat_add (pl_next_token p) 1) 1,
       pl_dispatch_order := max (sat_add (pl_dispatch_order p) 1) 1,
       pl_targets := om_put (pl_targets p) (sc_target_id c)
         (t\<lparr>last_dispatch_order := max (sat_add (pl_dispatch_order p) 1) 1,
            last_dispatch_at := Some now, in_flight := Some \<lparr>if_token = sc_token c,
              if_revision = revision t\<rparr>\<rparr>)\<rparr>"
proof -
  obtain d q i k r where m: "min_entry (due_entries p now) = Some (d, q, i, k, r)"
    using n by (auto simp: next_candidate_def split: if_splits option.splits prod.splits)
  from min_entry_Some [OF this] obtain t where
    t: "(i, t) \<in> set (pl_targets p)" "due_work (pl_config p) t = Some (d, k, r)" "d \<le> now"
      "q = last_dispatch_order t" and
    least: "\<forall>e \<in> set (due_entries p now). entry_le (d, q, i, k, r) e"
    using in_due_entries by blast
  have "om_get (pl_targets p) i = Some t" using t(1) om_get_iff [OF wf] by simp
  with n m t least show ?thesis
    by (intro that [of t]) (auto simp: next_candidate_def put_target_def Let_def split: if_splits)
qed

lemma next_candidate_None:
  assumes wf: "om_wf (pl_targets p)"
  shows "fst (next_candidate now p) = None \<longleftrightarrow> pl_shutdown p \<or> due_entries p now = []"
proof (cases "pl_shutdown p \<or> due_entries p now = []")
  case True
  then show ?thesis by (auto simp: next_candidate_def)
next
  case False
  then obtain d q i k r where m: "min_entry (due_entries p now) = Some (d, q, i, k, r)"
    using min_entry_None by (metis not_None_eq prod_cases5)
  then obtain t where "(i, t) \<in> set (pl_targets p)"
    using min_entry_Some in_due_entries by blast
  then have "om_get (pl_targets p) i = Some t" using om_get_iff [OF wf] by simp
  then show ?thesis using False m by (simp add: next_candidate_def Let_def)
qed

lemma min_list_opt_iff:
  "min_list_opt xs = Some m \<longleftrightarrow> m \<in> set xs \<and> (\<forall>x \<in> set xs. m \<le> x)"
proof -
  have "foldl min y ys \<in> set (y # ys) \<and> (\<forall>x \<in> set (y # ys). foldl min y ys \<le> x)"
    for y and ys :: "nat list"
  proof (induction ys arbitrary: y)
    case (Cons z zs)
    from Cons [of "min y z"] show ?case by (auto simp: min_def split: if_splits)
  qed simp
  note fold = this
  show ?thesis
  proof (cases xs)
    case (Cons y ys)
    have "foldl min y ys \<in> set xs" "\<forall>x \<in> set xs. foldl min y ys \<le> x"
      using fold Cons by blast+
    then show ?thesis using Cons min_list_opt.simps(2) by (metis option.inject order_antisym)
  qed simp
qed

lemma min_list_opt_None [simp]: "min_list_opt xs = None \<longleftrightarrow> xs = []"
  by (cases xs) auto

lemma map_filter_Nil: "List.map_filter f xs = [] \<longleftrightarrow> (\<forall>x \<in> set xs. f x = None)"
  by (induction xs) (simp_all add: List.map_filter_simps split: option.splits)

lemma due_entries_Nil:
  "due_entries p now = [] \<longleftrightarrow>
   (\<forall>(i, t) \<in> set (pl_targets p). \<forall>d k r. due_work (pl_config p) t = Some (d, k, r) \<longrightarrow> now < d)"
proof -
  have "(case due_work c t of None \<Rightarrow> None
        | Some (d, k, r) \<Rightarrow> then_some (d \<le> now) (d, last_dispatch_order t, i, k, r)) = None
      \<longleftrightarrow> (\<forall>d k r. due_work c t = Some (d, k, r) \<longrightarrow> now < d)" for c t i
    by (cases "due_work c t") (auto simp: then_some_def not_le split: if_splits)
  note entry = this
  show ?thesis
    unfolding due_entries_def map_filter_Nil
    by (rule ball_cong [OF refl], rename_tac x, case_tac x) (simp only: prod.case entry)
qed

section \<open>The planner as a state machine\<close>

text \<open>The planner and the clock; a completion may name any candidate, also one of a target that
  was reset or replaced in the meantime.\<close>

record planner_sys =
  py_now :: nat
  py_planner :: planner

definition planner_init :: "planner_config \<Rightarrow> planner_sys \<Rightarrow> bool" where
  "planner_init config s \<longleftrightarrow> py_planner s = planner_new config \<and> py_now s \<le> duration_max"

inductive planner_step :: "planner_sys \<Rightarrow> planner_sys \<Rightarrow> bool" where
  tick: "py_now s \<le> now' \<Longrightarrow> now' \<le> duration_max \<Longrightarrow> planner_step s (s\<lparr>py_now := now'\<rparr>)"
| upsert: "upsert_target (py_now s) sp (py_planner s) = (r, p) \<Longrightarrow>
    planner_step s (s\<lparr>py_planner := p\<rparr>)"
| removal: "remove_target i (py_planner s) = (r, p) \<Longrightarrow> planner_step s (s\<lparr>py_planner := p\<rparr>)"
| trust: "set_watcher_trusted i b (py_now s) (py_planner s) = (r, p) \<Longrightarrow>
    planner_step s (s\<lparr>py_planner := p\<rparr>)"
| dirty: "mark_dirty i (py_now s) g (py_planner s) = (r, p) \<Longrightarrow>
    planner_step s (s\<lparr>py_planner := p\<rparr>)"
| overflow: "mark_overflow i (py_now s) g (py_planner s) = (r, p) \<Longrightarrow>
    planner_step s (s\<lparr>py_planner := p\<rparr>)"
| candidate: "next_candidate (py_now s) (py_planner s) = (c, p) \<Longrightarrow>
    planner_step s (s\<lparr>py_planner := p\<rparr>)"
| completed: "complete c (py_now s) completion (py_planner s) = (d, p) \<Longrightarrow>
    planner_step s (s\<lparr>py_planner := p\<rparr>)"
| stop: "planner_step s (s\<lparr>py_planner := shutdown (py_planner s)\<rparr>)"

section \<open>The invariant of a target\<close>

text \<open>A reported but unacknowledged generation has a due time; and every deadline lies at most
  one interval ahead of the clock.\<close>

definition soon :: "planner_config \<Rightarrow> nat \<Rightarrow> nat" where
  "soon config now = add_tick now (max (scan_interval config) (debounce config))"

definition deadlines_ok :: "planner_config \<Rightarrow> nat \<Rightarrow> target_state \<Rightarrow> bool" where
  "deadlines_ok config now t \<longleftrightarrow>
     pred_option (\<lambda>r. fr_due_at r \<le> soon config now) (full_req t)
     \<and> pred_option (\<lambda>d. d \<le> soon config now) (dirty_due t)
     \<and> next_periodic_due t \<le> soon config now
     \<and> full_deadline t \<le> add_tick now (full_scan_interval config)
     \<and> pred_option (\<lambda>a. a \<le> now) (last_scan_at t)
     \<and> pred_option (\<lambda>a. a \<le> now) (last_dispatch_at t)"

definition target_ok :: "planner_config \<Rightarrow> nat \<Rightarrow> string \<Rightarrow> target_state \<Rightarrow> bool" where
  "target_ok config now i t \<longleftrightarrow> ts_id (spec t) = i
     \<and> (acknowledged_generation t < dirty_generation t \<longrightarrow> dirty_due t \<noteq> None)
     \<and> deadlines_ok config now t"

lemma soon_mono: "now \<le> now' \<Longrightarrow> soon config now \<le> soon config now'"
  by (simp add: soon_def add_tick_mono)

lemma soon_ge: "now \<le> duration_max \<Longrightarrow> now \<le> soon config now"
  by (simp add: soon_def add_tick_ge)

lemma soon_bounds:
  "add_tick now (scan_interval config) \<le> soon config now"
  "add_tick now (debounce config) \<le> soon config now"
  "debounced_cadence_due now (debounce config) (scan_interval config) = soon config now"
  by (simp_all add: soon_def add_tick_mono debounced_cadence_due_eq)

lemma max_opt_Some: "max_opt a b = Some x \<Longrightarrow> a = Some x \<or> b = Some x"
  by (cases a; cases b) (auto simp: max_def split: if_splits)

lemma next_dirty_due_soon:
  assumes "deadlines_ok config now t"
  shows "next_dirty_due t now config \<le> soon config now"
proof -
  have "add_tick a (scan_interval config) \<le> soon config now"
    if "max_opt (last_scan_at t) (last_dispatch_at t) = Some a" for a
  proof -
    have "a \<le> now" using max_opt_Some [OF that] assms by (auto simp: deadlines_ok_def)
    then show ?thesis
      using soon_bounds(1) [of now config] add_tick_mono [of a now] order.trans by blast
  qed
  then show ?thesis
    using soon_bounds(2) by (auto simp: next_dirty_due_def Let_def split: option.splits)
qed

lemma deadlines_ok_mono:
  assumes "deadlines_ok config now t" "now \<le> now'"
  shows "deadlines_ok config now' t"
proof -
  have "add_tick now (full_scan_interval config) \<le> add_tick now' (full_scan_interval config)"
    using assms(2) by (simp add: add_tick_mono)
  with assms soon_mono [OF assms(2), of config] show ?thesis
    by (auto simp: deadlines_ok_def elim!: option.pred_mono_strong intro: order.trans)
qed

lemma target_ok_new:
  "now \<le> duration_max \<Longrightarrow> target_ok config now (ts_id s) (target_new s now)"
  using soon_ge add_tick_ge
  by (auto simp: target_ok_def deadlines_ok_def target_new_def then_some_def)

lemma target_ok_reset:
  "target_ok config now i t \<Longrightarrow> now \<le> duration_max \<Longrightarrow> ts_id s = i \<Longrightarrow>
   target_ok config now i (target_reset (t\<lparr>spec := s\<rparr>) now reason)"
  using soon_ge add_tick_ge
  by (auto simp: target_ok_def deadlines_ok_def target_reset_def then_some_def)

lemma target_ok_advance:
  "target_ok config now i t \<Longrightarrow> target_ok config now i (advance_dirty config now g t)"
  using next_dirty_due_soon [of config now t]
  by (auto simp: target_ok_def deadlines_ok_def advance_dirty_def get_or_insert_def
      split: option.splits)

lemma target_ok_require:
  "target_ok config now i t \<Longrightarrow> fr_due_at r \<le> soon config now \<Longrightarrow>
   target_ok config now i (t\<lparr>full_req := Some r\<rparr>)"
  by (auto simp: target_ok_def deadlines_ok_def)

lemma target_ok_scanned:
  "target_ok config now i t \<Longrightarrow> target_ok config now i (t\<lparr>in_flight := None,
     last_scan_at := Some now, next_periodic_due := add_tick now (scan_interval config)\<rparr>)"
  using soon_bounds by (auto simp: target_ok_def deadlines_ok_def)

lemma target_ok_acknowledge:
  "target_ok config now i t \<Longrightarrow> target_ok config now i
     (acknowledge_generation t g now (debounce config) (scan_interval config))"
  using soon_bounds by (auto simp: target_ok_def deadlines_ok_def acknowledge_generation_def)

lemma target_ok_record:
  "target_ok config now i t \<Longrightarrow> target_ok config now i (record_full_scan t now c config)"
  using soon_bounds(1) [of now config]
  by (auto simp: target_ok_def deadlines_ok_def record_full_scan_def Let_def min.coboundedI1
      split: option.splits)

lemmas target_ok_intros = target_ok_new target_ok_reset target_ok_advance target_ok_require
  target_ok_scanned target_ok_acknowledge target_ok_record

definition planner_ok :: "nat \<Rightarrow> planner \<Rightarrow> bool" where
  "planner_ok now p \<longleftrightarrow> om.every (target_ok (pl_config p) now) (pl_targets p)
     \<and> scan_interval (pl_config p) \<le> full_scan_interval (pl_config p)"

lemma planner_ok_put:
  "planner_ok now p \<Longrightarrow> target_ok (pl_config p) now i t \<Longrightarrow> planner_ok now (put_target p i t)"
  by (simp add: planner_ok_def put_target_def om.every_put)

lemma planner_ok_get:
  "planner_ok now p \<Longrightarrow> om_get (pl_targets p) i = Some t \<Longrightarrow> target_ok (pl_config p) now i t"
  using om.every_get by (auto simp: planner_ok_def)

lemma planner_ok_upsert:
  assumes "planner_ok now p" "now \<le> duration_max" "upsert_target now s p = (r, p')"
  shows "planner_ok now p'"
  using assms by (auto simp: upsert_target_def split: option.splits if_splits
      intro!: planner_ok_put target_ok_intros dest: planner_ok_get)

lemma planner_ok_trust:
  assumes "planner_ok now p" "now \<le> duration_max" "set_watcher_trusted i b now p = (r, p')"
  shows "planner_ok now p'"
proof (cases "om_get (pl_targets p) i")
  case (Some t)
  then have "target_ok (pl_config p) now i t" using assms(1) planner_ok_get by blast
  then have "target_ok (pl_config p) now i (target_reset
      (t\<lparr>spec := (spec t)\<lparr>ts_watcher_trusted := b\<rparr>\<rparr>) now TargetChanged)"
    using assms(2) by (intro target_ok_reset) (auto simp: target_ok_def)
  then show ?thesis using assms(1,3) Some
    by (auto simp: set_watcher_trusted_def split: if_splits intro!: planner_ok_put)
qed (use assms in \<open>auto simp: set_watcher_trusted_def\<close>)

lemma planner_ok_dirty:
  assumes "planner_ok now p" "mark_dirty i now g p = (r, p')"
  shows "planner_ok now p'"
  using assms by (auto simp: mark_dirty_def split: option.splits if_splits
      intro!: planner_ok_put target_ok_advance dest: planner_ok_get)

lemma target_ok_due:
  "target_ok config now i t \<Longrightarrow> full_req t = Some r \<Longrightarrow> fr_due_at r \<le> soon config now"
  by (simp add: target_ok_def deadlines_ok_def)

lemma planner_ok_overflow:
  assumes "planner_ok now p" "now \<le> duration_max" "mark_overflow i now g p = (r, p')"
  shows "planner_ok now p'"
proof (cases "om_get (pl_targets p) i")
  case (Some t)
  have ok: "target_ok (pl_config p) now i t"
    "target_ok (pl_config p) now i (advance_dirty (pl_config p) now g t)"
    using planner_ok_get [OF assms(1) Some] target_ok_advance by simp_all
  note due = target_ok_due [OF ok(1)] target_ok_due [OF ok(2)] soon_ge [OF assms(2)]
  show ?thesis
    using assms(1,3) Some ok due
    by (auto simp: mark_overflow_def Let_def split: option.splits if_splits
        intro!: planner_ok_put target_ok_require)
qed (use assms in \<open>auto simp: mark_overflow_def\<close>)

lemma planner_ok_candidate:
  assumes "planner_ok now p" "next_candidate now p = (c, p')"
  shows "planner_ok now p'"
proof (cases c)
  case None
  have wf: "om_wf (pl_targets p)" using assms(1) om.every_wf by (auto simp: planner_ok_def)
  have "pl_shutdown p \<or> due_entries p now = []"
    using next_candidate_None [OF wf, of now] None assms(2) by simp
  then have "p' = p" using assms(2) by (auto simp: next_candidate_def split: if_splits)
  then show ?thesis using assms(1) by simp
next
  case (Some c')
  have wf: "om_wf (pl_targets p)" using assms(1) om.every_wf by (auto simp: planner_ok_def)
  show ?thesis
  proof (rule next_candidate_Some [OF wf])
    show "next_candidate now p = (Some c', p')" using assms(2) Some by simp
    fix t
    assume t: "om_get (pl_targets p) (sc_target_id c') = Some t"
      and p': "p' = p\<lparr>pl_next_token := max (sat_add (pl_next_token p) 1) 1,
       pl_dispatch_order := max (sat_add (pl_dispatch_order p) 1) 1,
       pl_targets := om_put (pl_targets p) (sc_target_id c')
         (t\<lparr>last_dispatch_order := max (sat_add (pl_dispatch_order p) 1) 1,
            last_dispatch_at := Some now, in_flight := Some \<lparr>if_token = sc_token c',
              if_revision = revision t\<rparr>\<rparr>)\<rparr>"
    show ?thesis unfolding p' using assms(1) planner_ok_get [OF assms(1) t]
      by (auto simp: planner_ok_def target_ok_def deadlines_ok_def intro!: om.every_put)
  qed
qed

lemma planner_ok_complete:
  assumes "planner_ok now p" "complete c now completion p = (d, p')"
  shows "planner_ok now p'"
proof (cases "om_get (pl_targets p) (sc_target_id c)")
  case (Some t)
  let ?t1 = "t\<lparr>in_flight := None, last_scan_at := Some now,
    next_periodic_due := add_tick now (scan_interval (pl_config p))\<rparr>"
  have ok: "target_ok (pl_config p) now (sc_target_id c) t"
    by (rule planner_ok_get [OF assms(1) Some])
  have "target_ok (pl_config p) now (sc_target_id c) (t\<lparr>in_flight := None\<rparr>)"
    "target_ok (pl_config p) now (sc_target_id c) ?t1"
    using ok target_ok_scanned [OF ok] by (auto simp: target_ok_def deadlines_ok_def)
  then show ?thesis
    using assms Some soon_bounds [of now "pl_config p"]
    by (auto simp: complete_def Let_def require_full_after_def
        split: option.splits if_splits scan_completion.splits
        intro!: planner_ok_put target_ok_require target_ok_record target_ok_acknowledge)
qed (use assms in \<open>auto simp: complete_def\<close>)

lemma planner_step_ok:
  assumes "planner_ok (py_now s) (py_planner s)" "py_now s \<le> duration_max" "planner_step s s'"
  shows "planner_ok (py_now s') (py_planner s') \<and> py_now s' \<le> duration_max"
  using assms(3)
proof (cases rule: planner_step.cases)
  case (tick now')
  then show ?thesis using assms(1) deadlines_ok_mono
    by (auto simp: planner_ok_def target_ok_def elim!: om.every_mono)
next
  case (removal i r p)
  then show ?thesis using assms
    by (auto simp: remove_target_def planner_ok_def intro: om.every_del)
next
  case stop
  then show ?thesis using assms by (simp add: shutdown_def planner_ok_def)
next
  case (upsert sp r p)
  then show ?thesis using assms(2) planner_ok_upsert [OF assms(1,2) upsert(2)] by simp
next
  case (trust i b r p)
  then show ?thesis using assms(2) planner_ok_trust [OF assms(1,2) trust(2)] by simp
next
  case (dirty i g r p)
  then show ?thesis using assms(2) planner_ok_dirty [OF assms(1) dirty(2)] by simp
next
  case (overflow i g r p)
  then show ?thesis using assms(2) planner_ok_overflow [OF assms(1,2) overflow(2)] by simp
next
  case (candidate c p)
  then show ?thesis using assms(2) planner_ok_candidate [OF assms(1) candidate(2)] by simp
next
  case (completed c completion d p)
  then show ?thesis using assms(2) planner_ok_complete [OF assms(1) completed(2)] by simp
qed

interpretation planning: step_invariant "planner_init config" planner_step
    "\<lambda>s. planner_ok (py_now s) (py_planner s) \<and> py_now s \<le> duration_max"
  for config
proof unfold_locales
  show "planner_ok (py_now s) (py_planner s) \<and> py_now s \<le> duration_max"
    if "planner_init config s" for s
    using that by (auto simp: planner_init_def planner_new_def planner_ok_def om_every_empty
        normalized_def Let_def)
qed (use planner_step_ok in blast)

section \<open>A concrete planner\<close>

definition ex_planner_config :: planner_config where
  "ex_planner_config = \<lparr>scan_interval = 10, full_scan_interval = 100, debounce = 3,
     watcher_enabled = True\<rparr>"

definition ex_spec :: target_spec where
  "ex_spec = \<lparr>ts_id = ''a'', ts_fingerprint = ''f'', ts_root_identity = None,
     ts_enabled = True, ts_watcher_trusted = True, ts_force_periodic_full = False\<rparr>"

text \<open>A target that was fully scanned at tick 5, then reported dirty at tick 6.\<close>

definition ex_scanned :: target_state where
  "ex_scanned = \<lparr>spec = ex_spec, revision = 1, dirty_generation = 0,
     acknowledged_generation = 0, dirty_due = None, baseline_available = True, full_req = None,
     last_dispatch_at = Some 5, last_scan_at = Some 5, last_full_at = Some 5,
     next_periodic_due = 15, full_deadline = 105, in_flight = None, last_dispatch_order = 1\<rparr>"

definition ex_planner :: "target_state \<Rightarrow> planner" where
  "ex_planner t = \<lparr>pl_config = ex_planner_config, pl_targets = [(''a'', t)],
     pl_next_token = 1, pl_dispatch_order = 1, pl_shutdown = False\<rparr>"

definition ex_candidate :: scan_candidate where
  "ex_candidate = \<lparr>sc_target_id = ''a'', sc_kind = Full, sc_reason = Initial,
     sc_fingerprint = ''f'', sc_root_identity = None, sc_captured_generation = 0,
     sc_revision = 1, sc_token = 1, sc_due_at = 5\<rparr>"

definition ex_dirty :: target_state where
  "ex_dirty = ex_scanned\<lparr>dirty_generation := 4, dirty_due := Some 15\<rparr>"

lemmas ex_planner_defs = ex_planner_config_def ex_spec_def ex_scanned_def ex_planner_def
  ex_candidate_def ex_dirty_def

lemmas planner_eval = upsert_target_def mark_dirty_def mark_overflow_def next_candidate_def
  complete_def put_target_def due_entries_def List.map_filter_simps due_work_def then_some_def
  target_new_def advance_dirty_def get_or_insert_def add_tick_def
  duration_max_def acknowledge_generation_def record_full_scan_def next_dirty_due_def
  planner_new_def normalized_def sat_simps Let_def

definition ex_leased :: target_state where
  "ex_leased = (target_new ex_spec 5)\<lparr>last_dispatch_order := 1, last_dispatch_at := Some 5,
     in_flight := Some \<lparr>if_token = 1, if_revision = 1\<rparr>\<rparr>"

lemma ex_planner_run:
  "upsert_target 5 ex_spec (planner_new ex_planner_config) =
     (Inserted, (ex_planner (target_new ex_spec 5))\<lparr>pl_next_token := 0, pl_dispatch_order := 0\<rparr>)"
  "next_candidate 5
       ((ex_planner (target_new ex_spec 5))\<lparr>pl_next_token := 0, pl_dispatch_order := 0\<rparr>) =
     (Some ex_candidate, ex_planner ex_leased)"
  "complete ex_candidate 5 (Succeeded Full) (ex_planner ex_leased) =
     (Applied, ex_planner ex_scanned)"
  "mark_dirty ''a'' 6 4 (ex_planner ex_scanned) = (True, ex_planner ex_dirty)"
  by (simp_all add: ex_planner_defs ex_leased_def planner_eval)

lemma ex_planner_reach:
  "reach (planner_init ex_planner_config) planner_step
     \<lparr>py_now = 6, py_planner = ex_planner ex_dirty\<rparr>"
proof -
  let ?reach = "\<lambda>n p. reach (planner_init ex_planner_config) planner_step
    \<lparr>py_now = n, py_planner = p\<rparr>"
  have "?reach 5 (planner_new ex_planner_config)"
    by (rule reach_init) (simp add: planner_init_def duration_max_def)
  from reach_step [OF this upsert] ex_planner_run(1) have
    "?reach 5 ((ex_planner (target_new ex_spec 5))\<lparr>pl_next_token := 0, pl_dispatch_order := 0\<rparr>)"
    by simp
  from reach_step [OF this candidate] ex_planner_run(2) have "?reach 5 (ex_planner ex_leased)"
    by simp
  from reach_step [OF this completed] ex_planner_run(3) have "?reach 5 (ex_planner ex_scanned)"
    by simp
  from reach_step [OF this tick, of 6] have "?reach 6 (ex_planner ex_scanned)"
    by (simp add: duration_max_def)
  from reach_step [OF this dirty] ex_planner_run(4) show ?thesis by simp
qed

section \<open>Properties\<close>



text \<open>The planner serves the earliest due target first, and leases it: the candidate it hands
  out is due, no other due target is due earlier, its target had no scan in flight and is now
  marked as in flight under the candidate's token, and every other target is untouched.\<close>

theorem earliest_due_first:
  assumes "om_wf (pl_targets p)" "next_candidate now p = (Some c, p')"
  shows "sc_due_at c \<le> now
    \<and> (\<forall>i t d k r. om_get (pl_targets p) i = Some t \<and> due_work (pl_config p) t = Some (d, k, r)
         \<longrightarrow> sc_due_at c \<le> d)
    \<and> (\<exists>t. om_get (pl_targets p) (sc_target_id c) = Some t \<and> in_flight t = None
         \<and> map_option in_flight (om_get (pl_targets p') (sc_target_id c)) =
             Some (Some \<lparr>if_token = sc_token c, if_revision = revision t\<rparr>))
    \<and> (\<forall>i. i \<noteq> sc_target_id c \<longrightarrow> om_get (pl_targets p') i = om_get (pl_targets p) i)"
proof (rule next_candidate_Some [OF assms])
  fix t
  assume t: "om_get (pl_targets p) (sc_target_id c) = Some t"
    and due: "due_work (pl_config p) t = Some (sc_due_at c, sc_kind c, sc_reason c)"
      "sc_due_at c \<le> now"
    and least: "\<forall>e \<in> set (due_entries p now). entry_le
       (sc_due_at c, last_dispatch_order t, sc_target_id c, sc_kind c, sc_reason c) e"
    and p': "p' = p\<lparr>pl_next_token := max (sat_add (pl_next_token p) 1) 1,
       pl_dispatch_order := max (sat_add (pl_dispatch_order p) 1) 1,
       pl_targets := om_put (pl_targets p) (sc_target_id c)
         (t\<lparr>last_dispatch_order := max (sat_add (pl_dispatch_order p) 1) 1,
            last_dispatch_at := Some now, in_flight := Some \<lparr>if_token = sc_token c,
              if_revision = revision t\<rparr>\<rparr>)\<rparr>"
  have "sc_due_at c \<le> d"
    if "om_get (pl_targets p) i = Some u" "due_work (pl_config p) u = Some (d, k, r)" for i u d k r
  proof (cases "d \<le> now")
    case True
    then have "(d, last_dispatch_order u, i, k, r) \<in> set (due_entries p now)"
      unfolding in_due_entries using om_get_in [OF that(1)] that(2) by auto
    with least have "entry_le (sc_due_at c, last_dispatch_order t, sc_target_id c, sc_kind c,
        sc_reason c) (d, last_dispatch_order u, i, k, r)" by (rule bspec)
    then show ?thesis by auto
  qed (use due in simp)
  moreover have "in_flight t = None" using due by (auto simp: due_work_def split: if_splits)
  ultimately show ?thesis using t due p' by (intro conjI) (simp, blast, simp_all)
qed

theorem earliest_due_first_witness:
  "in_flight (target_new ex_spec 5) = None \<and> sc_due_at ex_candidate \<le> 5"
  using earliest_due_first [OF _ ex_planner_run(2)]
  by (simp add: ex_planner_def ex_candidate_def target_new_def)

text \<open>The wakeup the daemon sleeps for is exact: if the planner asks to be woken after \<open>w\<close>, a
  candidate is available then and none is available before; without a wakeup none ever is.\<close>

theorem wakeup_exact:
  assumes "om_wf (pl_targets p)"
  shows "case next_wakeup now p of
      None \<Rightarrow> (\<forall>later. fst (next_candidate later p) = None)
    | Some w \<Rightarrow> fst (next_candidate (now + w) p) \<noteq> None
        \<and> (\<forall>later. now \<le> later \<and> later < now + w \<longrightarrow> fst (next_candidate later p) = None)"
proof (cases "pl_shutdown p")
  case True
  then show ?thesis by (simp add: next_wakeup_def next_candidate_def)
next
  case False
  define ds where "ds = List.map_filter (\<lambda>(i, t). map_option fst (due_work (pl_config p) t))
    (pl_targets p)"
  have ds: "d \<in> set ds \<longleftrightarrow>
      (\<exists>i t k r. (i, t) \<in> set (pl_targets p) \<and> due_work (pl_config p) t = Some (d, k, r))" for d
    by (force simp: ds_def List.map_filter_def image_iff)
  have none: "fst (next_candidate later p) = None \<longleftrightarrow> (\<forall>d \<in> set ds. later < d)" for later
    unfolding next_candidate_None [OF assms] due_entries_Nil Ball_def ds using False by blast
  show ?thesis
  proof (cases "min_list_opt ds")
    case None
    then show ?thesis using False none by (simp add: next_wakeup_def flip: ds_def)
  next
    case (Some m)
    then have m: "m \<in> set ds" "\<forall>d \<in> set ds. m \<le> d" by (auto simp: min_list_opt_iff)
    have "next_wakeup now p = Some (m - now)"
      using Some False by (simp add: next_wakeup_def flip: ds_def)
    moreover have "\<exists>d \<in> set ds. \<not> now + (m - now) < d" using m(1) by (intro bexI [of _ m]) auto
    moreover have "\<forall>d \<in> set ds. later < d" if "now \<le> later" "later < now + (m - now)" for later
      using m(2) that by fastforce
    ultimately show ?thesis using none by auto
  qed
qed

theorem wakeup_exact_witness:
  "next_wakeup 6 (ex_planner ex_dirty) = Some 9
   \<and> fst (next_candidate 15 (ex_planner ex_dirty)) \<noteq> None"
proof -
  have "next_wakeup 6 (ex_planner ex_dirty) = Some 9"
    by (simp add: next_wakeup_def ex_planner_defs planner_eval)
  then show ?thesis using wakeup_exact [of "ex_planner ex_dirty" 6] by (simp add: ex_planner_def)
qed



text \<open>A partial scan is handed out only where its result can be combined with a measured tree:
  the target has a baseline from a full scan, the watcher is enabled and trusted, and no full
  scan is required or due.\<close>

theorem partial_needs_baseline:
  assumes "om_wf (pl_targets p)" "next_candidate now p = (Some c, p')" "sc_kind c = Partial"
  shows "\<exists>t. om_get (pl_targets p) (sc_target_id c) = Some t \<and> baseline_available t
    \<and> watcher_enabled (pl_config p) \<and> ts_watcher_trusted (spec t) \<and> full_req t = None
    \<and> dirty_due t = Some (sc_due_at c) \<and> sc_due_at c < full_deadline t"
  by (rule next_candidate_Some [OF assms(1,2)])
    (use assms(3) in \<open>auto simp: due_work_def split: option.splits if_splits\<close>)

theorem partial_needs_baseline_witness:
  "\<exists>c p' t. next_candidate 15 (ex_planner ex_dirty) = (Some c, p')
     \<and> om_get (pl_targets (ex_planner ex_dirty)) (sc_target_id c) = Some t
     \<and> baseline_available t"
proof -
  obtain c p' where n: "next_candidate 15 (ex_planner ex_dirty) = (Some c, p')"
      and k: "sc_kind c = Partial"
    by (simp add: ex_planner_defs planner_eval)
  have "om_wf (pl_targets (ex_planner ex_dirty))" by (simp add: ex_planner_def)
  from partial_needs_baseline [OF this n k] n show ?thesis by blast
qed

text \<open>C34: events do not undo the backoff of a failed scan.  While a target waits to retry, watcher
  events and overflows of any target leave its next scan exactly where it was.\<close>

theorem failure_backoff_kept:
  assumes "om_get (pl_targets p) i = Some t" "full_req t = Some r"
    and "fr_reason r = RetryAfterFailure"
    and "p' = snd (mark_dirty j now g p) \<or> p' = snd (mark_overflow j now g p)"
  shows "\<exists>t' r'. om_get (pl_targets p') i = Some t' \<and> full_req t' = Some r'
    \<and> fr_due_at r' = fr_due_at r \<and> fr_reason r' = RetryAfterFailure
    \<and> fr_generation r \<le> fr_generation r'
    \<and> due_work (pl_config p) t' = due_work (pl_config p) t"
proof (cases "i = j")
  case False
  then have "om_get (pl_targets p') i = Some t"
    using assms(1,4) by (auto simp: mark_dirty_def mark_overflow_def put_target_def Let_def
        split: option.splits)
  then show ?thesis using assms by auto
next
  case True
  from assms(4) show ?thesis
  proof
    assume "p' = snd (mark_dirty j now g p)"
    then show ?thesis using assms(1-3) True
      by (auto simp: mark_dirty_def put_target_def advance_dirty_def due_work_def)
  next
    assume "p' = snd (mark_overflow j now g p)"
    then show ?thesis using assms(1-3) True
      by (auto simp: mark_overflow_def put_target_def advance_dirty_def due_work_def Let_def)
  qed
qed

definition ex_failed :: target_state where
  "ex_failed = ex_scanned\<lparr>full_req := Some
     \<lparr>fr_due_at = 15, fr_generation = 0, fr_reason = RetryAfterFailure\<rparr>\<rparr>"

theorem failure_backoff_kept_witness:
  "\<exists>t' r'. om_get (pl_targets (snd (mark_overflow ''a'' 6 4 (ex_planner ex_failed)))) ''a'' =
     Some t' \<and> full_req t' = Some r' \<and> fr_due_at r' = 15"
  using failure_backoff_kept [of "ex_planner ex_failed" "''a''" ex_failed _
      "snd (mark_overflow ''a'' 6 4 (ex_planner ex_failed))" "''a''" 6 4]
  by (auto simp: ex_planner_def ex_failed_def)

text \<open>A required full scan is not lost: completing a scan drops the requirement only if the scan
  was a full one and had captured the generation the requirement asks for.\<close>

theorem full_requirement_kept:
  assumes "complete c now completion p = (d, p')"
    and "om_get (pl_targets p) i = Some t" "full_req t = Some r"
    and "om_get (pl_targets p') i = Some t'"
  shows "full_req t' = None \<longrightarrow> i = sc_target_id c \<and> d = Applied \<and> completion = Succeeded Full
    \<and> fr_generation r \<le> sc_captured_generation c \<and> baseline_available t'"
proof (cases "i = sc_target_id c")
  case True
  show ?thesis
  proof (cases "in_flight t")
    case None
    then show ?thesis using assms True by (auto simp: complete_def)
  next
    case (Some lease)
    then show ?thesis using assms True
      by (auto simp: complete_def put_target_def Let_def require_full_after_def
          acknowledge_generation_def record_full_scan_def
          split: if_splits scan_completion.splits)
  qed
next
  case False
  then show ?thesis using assms
    by (auto simp: complete_def put_target_def Let_def split: option.splits if_splits)
qed

theorem full_requirement_kept_witness:
  "full_req ex_scanned = None \<and> baseline_available ex_scanned"
  using full_requirement_kept [OF ex_planner_run(3), of "''a''" ex_leased _ ex_scanned]
  by (auto simp: ex_planner_defs ex_leased_def target_new_def then_some_def)

end
