(* ===== verification/Bytes.thy ===== *)
theory Bytes
  imports Prelude "HOL-Library.Word"
begin

text \<open>
  Byte strings as the wire protocols use them: bytes are 8-bit words, byte slices and vectors
  are lists, a \<open>str\<close> or \<open>String\<close> is its list of UTF-8 bytes.  The operations are those of the
  standard library the gateway calls: slicing, searching, ASCII case folding, UTF-8 validation,
  decimal printing, and the big- and little-endian integer encodings.
\<close>

section \<open>Slices\<close>

type_synonym byte = "8 word"

definition slice :: "'a list \<Rightarrow> nat \<Rightarrow> nat \<Rightarrow> 'a list" where
  "slice xs a b = take (b - a) (drop a xs)"

text \<open>The bytes of an ASCII literal.\<close>

definition ascii :: "string \<Rightarrow> byte list" where
  "ascii s = map of_char s"

lemma slice_append [simp]: "slice (pre @ xs @ post) (length pre) (length pre + length xs) = xs"
  by (simp add: slice_def)

lemma slice_append' [simp]: "slice (pre @ xs) (length pre) (length pre + length xs) = xs"
  using slice_append [of pre xs "[]"] by simp

lemma slice_take: "b \<le> n \<Longrightarrow> slice (take n xs) a b = slice xs a b"
  by (auto simp: slice_def drop_take take_take)

lemma length_slice: "b \<le> length xs \<Longrightarrow> length (slice xs a b) = b - a"
  by (simp add: slice_def)

lemma slice_cong: "take n xs = take n ys \<Longrightarrow> b \<le> n \<Longrightarrow> slice xs a b = slice ys a b"
  by (metis slice_take)

lemma nth_cong_take: "take n xs = take n ys \<Longrightarrow> i < n \<Longrightarrow> xs ! i = ys ! i"
  by (metis nth_take)

section \<open>ASCII case folding\<close>

definition to_ascii_lowercase :: "byte \<Rightarrow> byte" where
  "to_ascii_lowercase b = (if 65 \<le> b \<and> b \<le> 90 then b + 32 else b)"

definition eq_ignore_ascii_case :: "byte list \<Rightarrow> byte list \<Rightarrow> bool" where
  "eq_ignore_ascii_case xs ys = (map to_ascii_lowercase xs = map to_ascii_lowercase ys)"

lemma eq_ignore_ascii_case_refl [simp]: "eq_ignore_ascii_case xs xs"
  by (simp add: eq_ignore_ascii_case_def)

lemma eq_ignore_ascii_case_sym: "eq_ignore_ascii_case xs ys = eq_ignore_ascii_case ys xs"
  by (auto simp: eq_ignore_ascii_case_def)

lemma eq_ignore_ascii_case_trans:
  "eq_ignore_ascii_case xs ys \<Longrightarrow> eq_ignore_ascii_case ys zs \<Longrightarrow> eq_ignore_ascii_case xs zs"
  by (simp add: eq_ignore_ascii_case_def)

section \<open>UTF-8\<close>

text \<open>\<open>str::from_utf8\<close> accepts the well-formed sequences of the Unicode standard: no overlong
  forms, no surrogates, nothing above U+10FFFF.\<close>

definition utf8_tail :: "byte \<Rightarrow> bool" where
  "utf8_tail b = (128 \<le> b \<and> b \<le> 191)"

fun valid_utf8 :: "byte list \<Rightarrow> bool" where
  "valid_utf8 [] = True"
| "valid_utf8 (a # bs) =
     (if a < 128 then valid_utf8 bs
      else case bs of
        [] \<Rightarrow> False
      | b # cs \<Rightarrow>
          if 194 \<le> a \<and> a \<le> 223 then utf8_tail b \<and> valid_utf8 cs
          else case cs of
            [] \<Rightarrow> False
          | c # ds \<Rightarrow>
              if 224 \<le> a \<and> a \<le> 239 then
                (if a = 224 then 160 \<le> b \<and> b \<le> 191
                 else if a = 237 then 128 \<le> b \<and> b \<le> 159 else utf8_tail b)
                \<and> utf8_tail c \<and> valid_utf8 ds
              else case ds of
                [] \<Rightarrow> False
              | d # es \<Rightarrow>
                  240 \<le> a \<and> a \<le> 244
                  \<and> (if a = 240 then 144 \<le> b \<and> b \<le> 191
                     else if a = 244 then 128 \<le> b \<and> b \<le> 143 else utf8_tail b)
                  \<and> utf8_tail c \<and> utf8_tail d \<and> valid_utf8 es)"

definition from_utf8 :: "byte list \<Rightarrow> byte list option" where
  "from_utf8 bs = (if valid_utf8 bs then Some bs else None)"

lemma valid_utf8_ascii: "\<forall>b \<in> set bs. b < 128 \<Longrightarrow> valid_utf8 bs"
  by (induction bs) auto

section \<open>Decimal numbers\<close>

fun decimal :: "nat \<Rightarrow> byte list" where
  "decimal n = (if n < 10 then [of_nat (48 + n)]
                else decimal (n div 10) @ [of_nat (48 + n mod 10)])"

declare decimal.simps [simp del]

definition is_digit :: "byte \<Rightarrow> bool" where
  "is_digit b = (48 \<le> b \<and> b \<le> 57)"

lemma unat_of_nat_byte: "unat (of_nat n :: byte) = n mod 256"
  by (simp add: unat_of_nat)

lemma digit_byte:
  assumes "n < 10"
  shows "is_digit (of_nat (48 + n))" "unat (of_nat (48 + n) :: byte) = 48 + n"
proof -
  show u: "unat (of_nat (48 + n) :: byte) = 48 + n"
    using assms unat_of_nat_byte [of "48 + n"] by (simp del: of_nat_add)
  show "is_digit (of_nat (48 + n))"
    using assms unfolding is_digit_def word_le_nat_alt u by simp
qed

lemma decimal_digits: "b \<in> set (decimal n) \<Longrightarrow> is_digit b"
proof (induction n rule: decimal.induct)
  case (1 n)
  show ?case
  proof (cases "n < 10")
    case True
    then show ?thesis using 1(2) digit_byte(1) by (simp add: decimal.simps [of n])
  next
    case False
    moreover have "n mod 10 < 10" by simp
    ultimately show ?thesis
      using 1 digit_byte(1) [of "n mod 10"] by (auto simp: decimal.simps [of n])
  qed
qed

lemma decimal_nonempty [simp]: "decimal n \<noteq> []"
  by (subst decimal.simps) simp

lemma digit_not_control: "is_digit b \<Longrightarrow> b \<noteq> 13 \<and> b \<noteq> 10 \<and> b \<noteq> 45 \<and> b \<noteq> 0"
  by (auto simp: is_digit_def)

section \<open>Integer encodings\<close>

primrec be_bytes :: "nat \<Rightarrow> nat \<Rightarrow> byte list" where
  "be_bytes 0 n = []"
| "be_bytes (Suc k) n = be_bytes k (n div 256) @ [of_nat n]"

definition be_nat :: "byte list \<Rightarrow> nat" where
  "be_nat bs = foldl (\<lambda>a b. a * 256 + unat b) 0 bs"

primrec le_bytes :: "nat \<Rightarrow> nat \<Rightarrow> byte list" where
  "le_bytes 0 n = []"
| "le_bytes (Suc k) n = of_nat n # le_bytes k (n div 256)"

primrec le_nat :: "byte list \<Rightarrow> nat" where
  "le_nat [] = 0"
| "le_nat (b # bs) = unat b + 256 * le_nat bs"

text \<open>The signed reading of a 32-bit value.\<close>

definition signed32 :: "nat \<Rightarrow> int" where
  "signed32 n = (if n < 2147483648 then int n else int n - 4294967296)"

lemma length_be_bytes [simp]: "length (be_bytes k n) = k"
  by (induction k arbitrary: n) auto

lemma be_bytes_4:
  "be_bytes 4 n =
     [of_nat (n div 256 div 256 div 256), of_nat (n div 256 div 256), of_nat (n div 256), of_nat n]"
proof -
  have "be_bytes (Suc (Suc (Suc (Suc 0)))) n =
     [of_nat (n div 256 div 256 div 256), of_nat (n div 256 div 256), of_nat (n div 256), of_nat n]"
    by simp
  then show ?thesis by (simp only: eval_nat_numeral BitM.simps)
qed

lemma le_bytes_4:
  "le_bytes 4 n =
     [of_nat n, of_nat (n div 256), of_nat (n div 256 div 256), of_nat (n div 256 div 256 div 256)]"
proof -
  have "le_bytes (Suc (Suc (Suc (Suc 0)))) n =
     [of_nat n, of_nat (n div 256), of_nat (n div 256 div 256), of_nat (n div 256 div 256 div 256)]"
    by simp
  then show ?thesis by (simp only: eval_nat_numeral BitM.simps)
qed

lemma length_le_bytes [simp]: "length (le_bytes k n) = k"
  by (induction k arbitrary: n) auto

lemma be_nat_snoc: "be_nat (bs @ [b]) = be_nat bs * 256 + unat b"
  by (simp add: be_nat_def)

lemma be_nat_bytes: "n < 256 ^ k \<Longrightarrow> be_nat (be_bytes k n) = n"
proof (induction k arbitrary: n)
  case 0
  then show ?case by (simp add: be_nat_def)
next
  case (Suc k)
  have "n div 256 < 256 ^ k" using Suc.prems by (simp add: less_mult_imp_div_less mult.commute)
  then show ?case using Suc.IH by (simp add: be_nat_snoc unat_of_nat_byte)
qed

lemma le_nat_bytes: "n < 256 ^ k \<Longrightarrow> le_nat (le_bytes k n) = n"
proof (induction k arbitrary: n)
  case (Suc k)
  have "n div 256 < 256 ^ k" using Suc.prems by (simp add: less_mult_imp_div_less mult.commute)
  then show ?case using Suc.IH by (simp add: unat_of_nat_byte)
qed simp

lemma unat_byte_lt [simp]: "unat (b :: byte) < 256"
  using unsigned_less [of b] by simp

lemma le_nat_lt: "le_nat bs < 256 ^ length bs"
proof (induction bs)
  case (Cons b bs)
  have "unat b + 256 * le_nat bs < 256 + 256 * le_nat bs" using unat_byte_lt [of b] by linarith
  also have "\<dots> \<le> 256 * 256 ^ length bs" using Cons by simp
  finally show ?case by simp
qed simp

lemma le_bytes_nat: "le_bytes (length bs) (le_nat bs) = bs"
proof (induction bs)
  case (Cons b bs)
  have "(unat b + 256 * le_nat bs) div 256 = le_nat bs" by simp
  moreover have "(of_nat (unat b + 256 * le_nat bs) :: byte) = b"
    by (simp add: word_unat_eq_iff unat_of_nat_byte unat_word_ariths)
  ultimately show ?case using Cons by simp
qed simp

lemma be_nat_lt: "be_nat bs < 256 ^ length bs"
proof (induction bs rule: rev_induct)
  case (snoc b bs)
  have "be_nat bs * 256 + unat b < (be_nat bs + 1) * 256" using unat_byte_lt [of b] by simp
  also have "\<dots> \<le> 256 ^ length bs * 256" using snoc by (intro mult_le_mono1) simp
  finally show ?case by (simp add: be_nat_snoc mult.commute)
qed (simp add: be_nat_def)

lemma be_nat_inject: "length xs = length ys \<Longrightarrow> be_nat xs = be_nat ys \<Longrightarrow> xs = ys"
proof (induction xs arbitrary: ys rule: rev_induct)
  case (snoc x xs)
  then obtain zs z where ys: "ys = zs @ [z]" by (cases ys rule: rev_cases) auto
  have eq: "be_nat xs * 256 + unat x = be_nat zs * 256 + unat z"
    using snoc.prems(2) by (simp add: ys be_nat_snoc)
  have arith: "a = b \<and> c = d" if "a * 256 + c = b * 256 + d" "c < 256" "d < 256"
    for a b c d :: nat
    using arg_cong [OF that(1), of "\<lambda>n. n div 256"] arg_cong [OF that(1), of "\<lambda>n. n mod 256"]
      that(2,3) by simp
  have "be_nat xs = be_nat zs \<and> unat x = unat z"
    by (rule arith [OF eq unat_byte_lt unat_byte_lt])
  then show ?case using snoc.IH [of zs] snoc.prems(1) ys by (simp add: word_unat_eq_iff)
qed simp

lemma signed32_inject:
  "m < 4294967296 \<Longrightarrow> n < 4294967296 \<Longrightarrow> signed32 m = signed32 n \<Longrightarrow> m = n"
  by (auto simp: signed32_def split: if_splits)

end
