(* ===== verification/RedisWire.thy ===== *)
theory RedisWire
  imports Bytes
begin

text \<open>
  The first command of a Redis or Valkey connection (\<open>gateway/protocols/redis.rs\<close>): parsing a
  RESP array at the front of the received bytes, extracting the route from an \<open>AUTH\<close> or
  \<open>HELLO\<close> command, and rewriting the command with the user name the route was resolved to.

  The parser walks an offset through the buffer as the source does; a string is its UTF-8 bytes.
\<close>

section \<open>RESP arrays\<close>

datatype redis_parse_error = Empty | Incomplete | Unsupported | MissingUsername | InvalidUtf8

definition MAX_INITIAL_ARGS :: nat where
  "MAX_INITIAL_ARGS = 16"

definition MAX_BULK_LENGTH :: nat where
  "MAX_BULK_LENGTH = 16 * 1024"

fun parse_decimal_from :: "nat \<Rightarrow> byte list \<Rightarrow> redis_parse_error + nat" where
  "parse_decimal_from v [] = Inr v"
| "parse_decimal_from v (b # bs) =
     (if 48 \<le> b \<and> b \<le> 57 then
        let w = v * 10 + unat (b - 48) in
        if v * 10 \<le> u64_max \<and> w \<le> u64_max then parse_decimal_from w bs else Inl Unsupported
      else Inl Unsupported)"

definition parse_decimal :: "byte list \<Rightarrow> redis_parse_error + nat" where
  "parse_decimal bs = parse_decimal_from 0 bs"

text \<open>The scan of \<open>read_decimal_line\<close> for the line end.\<close>

function find_crlf :: "byte list \<Rightarrow> nat \<Rightarrow> nat option" where
  "find_crlf bytes offset =
     (if offset + 1 < length bytes then
        if bytes ! offset = 13 \<and> bytes ! (offset + 1) = 10 then Some offset
        else find_crlf bytes (offset + 1)
      else None)"
  by pat_completeness auto
termination
  by (relation "measure (\<lambda>(bytes, offset). length bytes - offset)") auto

declare find_crlf.simps [simp del]

definition read_decimal_line :: "byte list \<Rightarrow> nat \<Rightarrow> redis_parse_error + (nat \<times> nat)" where
  "read_decimal_line bytes start =
     (case find_crlf bytes start of
        None \<Rightarrow> Inl Incomplete
      | Some e \<Rightarrow>
          if e = start then Inl Unsupported
          else bind_result (parse_decimal (slice bytes start e)) (\<lambda>v. Inr (v, e + 2)))"

text \<open>One argument: its bytes and the offset after it.\<close>

definition parse_bulk :: "byte list \<Rightarrow> nat \<Rightarrow> redis_parse_error + (byte list \<times> nat)" where
  "parse_bulk bytes offset =
     (if offset \<ge> length bytes then Inl Incomplete
      else if bytes ! offset \<noteq> 36 then Inl Unsupported
      else bind_result (read_decimal_line bytes (offset + 1)) (\<lambda>(len, o1).
        if len > MAX_BULK_LENGTH then Inl Unsupported
        else bind_result (ok_or (checked_add o1 len) Unsupported) (\<lambda>value_end.
          bind_result (ok_or (checked_add value_end 2) Unsupported) (\<lambda>frame_end.
            if frame_end > length bytes then Inl Incomplete
            else if slice bytes value_end frame_end \<noteq> [13, 10] then Inl Unsupported
            else Inr (slice bytes o1 value_end, frame_end)))))"

primrec parse_bulks ::
    "byte list \<Rightarrow> nat \<Rightarrow> nat \<Rightarrow> redis_parse_error + (byte list list \<times> nat)" where
  "parse_bulks bytes 0 = (\<lambda>offset. Inr ([], offset))"
| "parse_bulks bytes (Suc n) = (\<lambda>offset.
     bind_result (parse_bulk bytes offset) (\<lambda>(arg, o1).
       bind_result (parse_bulks bytes n o1) (\<lambda>(args, o2). Inr (arg # args, o2))))"

definition parse_resp_array :: "byte list \<Rightarrow> redis_parse_error + (byte list list \<times> nat)" where
  "parse_resp_array bytes =
     (if bytes = [] then Inl Empty
      else if bytes ! 0 \<noteq> 42 then Inl Unsupported
      else bind_result (read_decimal_line bytes 1) (\<lambda>(count, offset).
        if count > MAX_INITIAL_ARGS then Inl Unsupported
        else parse_bulks bytes count offset))"

definition resp_length_line :: "byte \<Rightarrow> nat \<Rightarrow> byte list" where
  "resp_length_line marker len = marker # decimal len @ [13, 10]"

definition serialize_bulk :: "byte list \<Rightarrow> byte list" where
  "serialize_bulk argument = resp_length_line 36 (length argument) @ argument @ [13, 10]"

definition serialize_resp_array :: "byte list list \<Rightarrow> byte list" where
  "serialize_resp_array args =
     resp_length_line 42 (length args) @ concat (map serialize_bulk args)"

section \<open>Routes\<close>

record redis_route =
  rr_username :: "byte list option"
  rr_password :: "byte list"

definition redis_string :: "byte list \<Rightarrow> redis_parse_error + byte list" where
  "redis_string bytes = ok_or (from_utf8 bytes) InvalidUtf8"

definition parse_auth :: "byte list list \<Rightarrow> redis_parse_error + redis_route" where
  "parse_auth args =
     (if length args = 2 then Inr \<lparr>rr_username = None, rr_password = args ! 1\<rparr>
      else if length args = 3 then
        bind_result (redis_string (args ! 1)) (\<lambda>u.
          Inr \<lparr>rr_username = Some u, rr_password = args ! 2\<rparr>)
      else Inl Unsupported)"

text \<open>The option loop of \<open>hello_auth_index\<close>: the index of the last \<open>AUTH\<close> option so far.\<close>

function hello_options ::
    "byte list list \<Rightarrow> nat \<Rightarrow> nat option \<Rightarrow> redis_parse_error + nat option" where
  "hello_options args index auth =
     (if index < length args then
        if eq_ignore_ascii_case (args ! index) (ascii ''AUTH'') then
          if index + 2 \<ge> length args then Inl MissingUsername
          else hello_options args (index + 3) (Some index)
        else if eq_ignore_ascii_case (args ! index) (ascii ''SETNAME'')
                \<and> index + 1 < length args
        then hello_options args (index + 2) auth
        else Inl Unsupported
      else Inr auth)"
  by pat_completeness auto
termination
  by (relation "measure (\<lambda>(args, index, auth). length args - index)") auto

declare hello_options.simps [simp del]

definition hello_auth_index :: "byte list list \<Rightarrow> redis_parse_error + nat" where
  "hello_auth_index args =
     (if length args \<le> 1 then Inl MissingUsername
      else if args ! 1 \<noteq> ascii ''2'' \<and> args ! 1 \<noteq> ascii ''3'' then Inl Unsupported
      else bind_result (hello_options args 2 None) (\<lambda>auth. ok_or auth MissingUsername))"

definition parse_hello :: "byte list list \<Rightarrow> redis_parse_error + redis_route" where
  "parse_hello args =
     bind_result (hello_auth_index args) (\<lambda>auth.
       bind_result (redis_string (args ! (auth + 1))) (\<lambda>u.
         Inr \<lparr>rr_username = Some u, rr_password = args ! (auth + 2)\<rparr>))"

definition route_from_args :: "byte list list \<Rightarrow> redis_parse_error + redis_route" where
  "route_from_args args =
     (if args = [] then Inl Empty
      else if eq_ignore_ascii_case (args ! 0) (ascii ''AUTH'') then parse_auth args
      else if eq_ignore_ascii_case (args ! 0) (ascii ''HELLO'') then parse_hello args
      else Inl Unsupported)"

definition parse_initial_route :: "byte list \<Rightarrow> redis_parse_error + redis_route" where
  "parse_initial_route bytes =
     bind_result (parse_resp_array bytes) (\<lambda>(args, consumed).
       if consumed \<noteq> length bytes then Inl Unsupported else route_from_args args)"

definition parse_initial_frame_route ::
    "byte list \<Rightarrow> redis_parse_error + (redis_route \<times> nat) option" where
  "parse_initial_frame_route bytes =
     (case parse_resp_array bytes of
        Inr (args, consumed) \<Rightarrow>
          bind_result (route_from_args args) (\<lambda>route. Inr (Some (route, consumed)))
      | Inl error \<Rightarrow> if error = Incomplete then Inr None else Inl error)"

definition rewrite_with_resolved_username :: "redis_route \<Rightarrow> byte list \<Rightarrow> nat \<Rightarrow> byte list \<Rightarrow>
    redis_parse_error + byte list" where
  "rewrite_with_resolved_username route original consumed resolved =
     (let has_explicit_username =
            (case rr_username route of None \<Rightarrow> False
             | Some u \<Rightarrow> \<not> eq_ignore_ascii_case u (ascii ''default''));
          resolved_invalid = (resolved = [] \<or> 13 \<in> set resolved \<or> 10 \<in> set resolved)
      in if has_explicit_username \<or> resolved_invalid \<or> consumed > length original
         then Inl Unsupported
         else bind_result (parse_resp_array (take consumed original)) (\<lambda>(args, parsed).
           if parsed \<noteq> consumed \<or> args = [] then Inl Unsupported
           else bind_result
             (if eq_ignore_ascii_case (args ! 0) (ascii ''AUTH'') then
                if length args = 2 then Inr (take 1 args @ resolved # drop 1 args)
                else if length args = 3 then Inr (args[1 := resolved])
                else Inl Unsupported
              else if eq_ignore_ascii_case (args ! 0) (ascii ''HELLO'') then
                bind_result (hello_auth_index args) (\<lambda>auth. Inr (args[auth + 1 := resolved]))
              else Inl Unsupported)
             (\<lambda>args'. Inr (serialize_resp_array args' @ drop consumed original))))"

section \<open>Printing and parsing lengths\<close>

lemma parse_decimal_from_append:
  "parse_decimal_from v (xs @ ys) = bind_result (parse_decimal_from v xs)
     (\<lambda>w. parse_decimal_from w ys)"
  by (induction v xs rule: parse_decimal_from.induct) (auto simp: Let_def)

lemma parse_digit:
  assumes "n < 10" "v * 10 + n \<le> u64_max"
  shows "parse_decimal_from v [of_nat (48 + n)] = Inr (v * 10 + n)"
proof -
  let ?b = "of_nat (48 + n) :: byte"
  have b: "48 \<le> ?b \<and> ?b \<le> 57" using digit_byte(1) [OF assms(1)] by (simp add: is_digit_def)
  then have "unat (?b - 48) = n"
    using digit_byte(2) [OF assms(1)] by (simp add: unat_sub del: of_nat_add)
  then show ?thesis using b assms(2) by (simp add: Let_def del: of_nat_add)
qed

lemma parse_decimal_decimal: "n \<le> u64_max \<Longrightarrow> parse_decimal (decimal n) = Inr n"
  unfolding parse_decimal_def
proof (induction n rule: decimal.induct)
  case (1 n)
  show ?case
  proof (cases "n < 10")
    case True
    then show ?thesis using parse_digit [of n 0] 1(2)
      by (simp add: decimal.simps [of n] del: of_nat_add parse_decimal_from.simps)
  next
    case False
    have "n div 10 * 10 + n mod 10 \<le> u64_max" using 1(2) by simp
    from parse_digit [OF _ this] False 1 show ?thesis
      by (simp add: decimal.simps [of n] parse_decimal_from_append
          del: of_nat_add parse_decimal_from.simps)
  qed
qed

lemma find_crlf_append:
  "13 \<notin> set ds \<Longrightarrow> find_crlf (pre @ ds @ 13 # 10 # rest) (length pre) = Some (length pre + length ds)"
proof (induction ds arbitrary: pre)
  case Nil
  then show ?case by (subst find_crlf.simps) (simp add: nth_append)
next
  case (Cons d ds)
  have "find_crlf ((pre @ [d]) @ ds @ 13 # 10 # rest) (length (pre @ [d])) =
      Some (length (pre @ [d]) + length ds)"
    using Cons.prems by (intro Cons.IH) simp
  then show ?case using Cons.prems
    by (subst find_crlf.simps) (simp add: nth_append)
qed

lemma read_length_line:
  assumes "n \<le> u64_max"
  shows "read_decimal_line (pre @ decimal n @ 13 # 10 # rest) (length pre) =
    Inr (n, length pre + length (decimal n) + 2)"
proof -
  have "13 \<notin> set (decimal n)" using decimal_digits digit_not_control by blast
  from find_crlf_append [OF this] show ?thesis
    using parse_decimal_decimal [OF assms]
    by (simp add: read_decimal_line_def)
qed

lemma parse_bulk_serialize:
  assumes len: "length arg \<le> MAX_BULK_LENGTH"
    and fit: "length (pre @ serialize_bulk arg) \<le> u64_max"
  shows "parse_bulk (pre @ serialize_bulk arg @ rest) (length pre) =
    Inr (arg, length (pre @ serialize_bulk arg))"
proof -
  let ?d = "decimal (length arg)"
  let ?bytes = "pre @ serialize_bulk arg @ rest"
  let ?start = "length pre + 1 + length ?d + 2"
  have bytes: "?bytes = (pre @ [36]) @ ?d @ 13 # 10 # (arg @ [13, 10] @ rest)"
    "?bytes = (pre @ 36 # ?d @ [13, 10]) @ arg @ [13, 10] @ rest"
    "?bytes = (pre @ 36 # ?d @ [13, 10] @ arg) @ [13, 10] @ rest"
    by (simp_all add: serialize_bulk_def resp_length_line_def)
  have line: "read_decimal_line ?bytes (length pre + 1) = Inr (length arg, ?start)"
    using read_length_line [of "length arg" "pre @ [36]"] len unfolding bytes(1)
    by (simp add: MAX_BULK_LENGTH_def)
  have val: "slice ?bytes ?start (?start + length arg) = arg"
    using slice_append [of "pre @ 36 # ?d @ [13, 10]" arg "[13, 10] @ rest"] unfolding bytes(2)
    by simp
  have crlf: "slice ?bytes (?start + length arg) (?start + length arg + 2) = [13, 10]"
    using slice_append [of "pre @ 36 # ?d @ [13, 10] @ arg" "[13, 10]" rest] unfolding bytes(3)
    by (simp add: add.assoc)
  have "?bytes ! length pre = 36" "length pre < length ?bytes"
    unfolding bytes(1) by (simp_all add: nth_append)
  moreover have "?start + length arg + 2 = length (pre @ serialize_bulk arg)"
    by (simp add: serialize_bulk_def resp_length_line_def)
  ultimately show ?thesis
    using line val crlf len fit by (simp add: parse_bulk_def checked_add_def)
qed

lemma parse_bulks_serialize:
  assumes "\<forall>a \<in> set args. length a \<le> MAX_BULK_LENGTH"
    and "length (pre @ concat (map serialize_bulk args)) \<le> u64_max"
  shows "parse_bulks (pre @ concat (map serialize_bulk args) @ rest) (length args) (length pre) =
    Inr (args, length (pre @ concat (map serialize_bulk args)))"
  using assms
proof (induction args arbitrary: pre)
  case (Cons a args)
  let ?pre = "pre @ serialize_bulk a"
  have "parse_bulks (?pre @ concat (map serialize_bulk args) @ rest) (length args) (length ?pre) =
      Inr (args, length (?pre @ concat (map serialize_bulk args)))"
    using Cons.prems by (intro Cons.IH) simp_all
  moreover have "parse_bulk (pre @ serialize_bulk a @ concat (map serialize_bulk args) @ rest)
      (length pre) = Inr (a, length ?pre)"
    using Cons.prems by (intro parse_bulk_serialize) simp_all
  ultimately show ?case by simp
qed simp

lemma decimal_length_le: "length (decimal n) \<le> n + 1"
proof (induction n rule: decimal.induct)
  case (1 n)
  then show ?case by (cases "n < 10") (auto simp: decimal.simps [of n])
qed

definition resp_args_ok :: "byte list list \<Rightarrow> bool" where
  "resp_args_ok args \<longleftrightarrow> length args \<le> MAX_INITIAL_ARGS
     \<and> (\<forall>a \<in> set args. length a \<le> MAX_BULK_LENGTH)"

lemma serialize_fits:
  assumes "resp_args_ok args"
  shows "length (serialize_resp_array args) \<le> u64_max"
proof -
  have "length (serialize_bulk a) \<le> 32776" if "a \<in> set args" for a
    using assms that decimal_length_le [of "length a"]
    by (auto simp: resp_args_ok_def serialize_bulk_def resp_length_line_def MAX_BULK_LENGTH_def
        dest!: bspec)
  then have "length (concat (map serialize_bulk args)) \<le> length args * 32776"
    unfolding length_concat map_map comp_def by (rule sum_list_bound)
  moreover have "length args \<le> 16" using assms by (simp add: resp_args_ok_def MAX_INITIAL_ARGS_def)
  ultimately show ?thesis
    using decimal_length_le [of "length args"]
    by (simp add: serialize_resp_array_def resp_length_line_def)
qed

lemma parse_serialize:
  assumes "resp_args_ok args"
  shows "parse_resp_array (serialize_resp_array args @ rest) =
    Inr (args, length (serialize_resp_array args))"
proof -
  let ?n = "length args"
  let ?pre = "42 # decimal ?n @ [13, 10]"
  let ?body = "concat (map serialize_bulk args)"
  have n: "?n \<le> u64_max" "\<not> ?n > MAX_INITIAL_ARGS"
    using assms by (auto simp: resp_args_ok_def MAX_INITIAL_ARGS_def)
  have eq: "serialize_resp_array args = ?pre @ ?body"
    by (simp add: serialize_resp_array_def resp_length_line_def)
  have "read_decimal_line ((42 # decimal ?n @ 13 # 10 # ?body @ rest)) 1 =
      Inr (?n, length ?pre)"
    using read_length_line [OF n(1), of "[42]" "?body @ rest"] by simp
  moreover have "parse_bulks (?pre @ ?body @ rest) ?n (length ?pre) =
      Inr (args, length (?pre @ ?body))"
    using assms serialize_fits [OF assms] unfolding eq
    by (intro parse_bulks_serialize) (simp_all add: resp_args_ok_def)
  ultimately show ?thesis using n by (simp add: eq parse_resp_array_def)
qed

section \<open>Parsing a growing buffer\<close>

text \<open>The three facts every stage of the parser satisfies, stated once: a stage that succeeds and
  stops at offset \<open>n\<close> looks at no byte from \<open>n\<close> on, and on a shorter buffer it asks for more.\<close>

definition stage_ok :: "(byte list \<Rightarrow> nat \<Rightarrow> redis_parse_error + ('a \<times> nat)) \<Rightarrow> bool" where
  "stage_ok f \<longleftrightarrow> (\<forall>bytes start v n. f bytes start = Inr (v, n) \<and> start \<le> length bytes \<longrightarrow>
     start \<le> n \<and> n \<le> length bytes
     \<and> (\<forall>bytes'. take n bytes' = take n bytes \<and> n \<le> length bytes' \<longrightarrow>
          f bytes' start = Inr (v, n))
     \<and> (\<forall>k. start \<le> k \<and> k < n \<longrightarrow> f (take k bytes) start = Inl Incomplete))"

lemma find_crlf_Some:
  "find_crlf bytes start = Some e \<Longrightarrow> start \<le> e \<and> e + 2 \<le> length bytes
   \<and> (\<forall>bytes'. take (e + 2) bytes' = take (e + 2) bytes \<and> e + 2 \<le> length bytes' \<longrightarrow>
        find_crlf bytes' start = Some e)
   \<and> (\<forall>k < e + 2. find_crlf (take k bytes) start = None)"
proof (induction bytes start rule: find_crlf.induct)
  case (1 bytes start)
  show ?case
  proof (cases "bytes ! start = 13 \<and> bytes ! (start + 1) = 10")
    case True
    then have e: "e = start" "start + 1 < length bytes"
      using 1(2) by (auto simp: find_crlf.simps [of bytes start] split: if_splits)
    have "find_crlf bytes' start = Some start"
      if "take (start + 2) bytes' = take (start + 2) bytes" "start + 2 \<le> length bytes'" for bytes'
      using True that nth_cong_take [OF that(1), of start] nth_cong_take [OF that(1), of "start + 1"]
      by (subst find_crlf.simps) simp
    moreover have "find_crlf (take k bytes) start = None" if "k < start + 2" for k
      using that by (subst find_crlf.simps) simp
    ultimately show ?thesis using e by simp
  next
    case False
    then have rec: "find_crlf bytes (start + 1) = Some e" and len: "start + 1 < length bytes"
      using 1(2) by (auto simp: find_crlf.simps [of bytes start] split: if_splits)
    note IH = 1(1) [OF len False rec]
    have "find_crlf bytes' start = Some e"
      if t: "take (e + 2) bytes' = take (e + 2) bytes" "e + 2 \<le> length bytes'" for bytes'
    proof -
      have "bytes' ! start = bytes ! start" "bytes' ! (start + 1) = bytes ! (start + 1)"
        using nth_cong_take [OF t(1)] IH by simp_all
      then show ?thesis using False IH t by (subst find_crlf.simps) auto
    qed
    moreover have "find_crlf (take k bytes) start = None" if "k < e + 2" for k
      using False IH that by (subst find_crlf.simps) auto
    ultimately show ?thesis using IH by auto
  qed
qed

lemma read_decimal_line_stage: "stage_ok read_decimal_line"
  unfolding stage_ok_def
proof (intro allI impI)
  fix bytes start v n
  assume r: "read_decimal_line bytes start = Inr (v, n) \<and> start \<le> length bytes"
  then obtain e where e: "find_crlf bytes start = Some e" "e \<noteq> start" "n = e + 2"
      and v: "parse_decimal (slice bytes start e) = Inr v"
    by (auto simp: read_decimal_line_def bind_result_Inr split: option.splits if_splits)
  note f = find_crlf_Some [OF e(1)]
  have "read_decimal_line bytes' start = Inr (v, n)"
    if t: "take n bytes' = take n bytes" "n \<le> length bytes'" for bytes'
  proof -
    have "slice bytes' start e = slice bytes start e" using slice_cong [OF t(1)] e(3) by simp
    moreover have "find_crlf bytes' start = Some e" using f t e(3) by blast
    ultimately show ?thesis using v e by (simp add: read_decimal_line_def)
  qed
  moreover have "read_decimal_line (take k bytes) start = Inl Incomplete" if "k < n" for k
    using f that e(3) by (simp add: read_decimal_line_def)
  ultimately show "start \<le> n \<and> n \<le> length bytes
     \<and> (\<forall>bytes'. take n bytes' = take n bytes \<and> n \<le> length bytes' \<longrightarrow>
          read_decimal_line bytes' start = Inr (v, n))
     \<and> (\<forall>k. start \<le> k \<and> k < n \<longrightarrow> read_decimal_line (take k bytes) start = Inl Incomplete)"
    using f e(3) by simp
qed

lemma stage_okD:
  assumes "stage_ok f" "f bytes start = Inr (v, n)" "start \<le> length bytes"
  shows "start \<le> n" "n \<le> length bytes"
    "take n bytes' = take n bytes \<Longrightarrow> n \<le> length bytes' \<Longrightarrow> f bytes' start = Inr (v, n)"
    "start \<le> k \<Longrightarrow> k < n \<Longrightarrow> f (take k bytes) start = Inl Incomplete"
  using assms unfolding stage_ok_def by blast+

lemma take_le_cong: "take n xs = take n ys \<Longrightarrow> m \<le> n \<Longrightarrow> take m xs = take m ys"
  by (metis min.absorb1 take_take)

lemma parse_bulk_Inr:
  "parse_bulk bytes start = Inr (arg, n) \<longleftrightarrow>
   (\<exists>len o1. start < length bytes \<and> bytes ! start = 36
      \<and> read_decimal_line bytes (start + 1) = Inr (len, o1) \<and> len \<le> MAX_BULK_LENGTH
      \<and> n = o1 + len + 2 \<and> n \<le> u64_max \<and> n \<le> length bytes
      \<and> slice bytes (o1 + len) n = [13, 10] \<and> arg = slice bytes o1 (o1 + len))"
  by (cases "read_decimal_line bytes (start + 1)")
    (auto simp: parse_bulk_def checked_add_def split: if_splits)

lemma parse_bulk_stage: "stage_ok parse_bulk"
  unfolding stage_ok_def
proof (intro allI impI)
  fix bytes start arg n
  assume r: "parse_bulk bytes start = Inr (arg, n) \<and> start \<le> length bytes"
  then obtain len o1 where
    p: "start < length bytes" "bytes ! start = 36"
      "read_decimal_line bytes (start + 1) = Inr (len, o1)" "len \<le> MAX_BULK_LENGTH"
      "n = o1 + len + 2" "n \<le> u64_max" "n \<le> length bytes"
      "slice bytes (o1 + len) n = [13, 10]" "arg = slice bytes o1 (o1 + len)"
    unfolding parse_bulk_Inr by blast
  have "start + 1 \<le> length bytes" using p(1) by simp
  note line = stage_okD [OF read_decimal_line_stage p(3) this]
  have "parse_bulk bytes' start = Inr (arg, n)"
    if t: "take n bytes' = take n bytes" "n \<le> length bytes'" for bytes'
  proof -
    have "read_decimal_line bytes' (start + 1) = Inr (len, o1)"
      using t p(5) by (intro line(3) take_le_cong [OF t(1)]) simp_all
    moreover have "bytes' ! start = 36" using nth_cong_take [OF t(1), of start] line(1) p by simp
    moreover have "slice bytes' a b = slice bytes a b" if "b \<le> n" for a b
      by (rule slice_cong [OF t(1) that])
    ultimately show ?thesis unfolding parse_bulk_Inr using p t line(1) by auto
  qed
  moreover have "parse_bulk (take k bytes) start = Inl Incomplete" if k: "start \<le> k" "k < n" for k
  proof (cases "k = start")
    case False
    show ?thesis
    proof (cases "k < o1")
      case True
      then show ?thesis using k False p(1,2) line(4) [of k]
        by (simp add: parse_bulk_def)
    next
      case o1: False
      have "read_decimal_line (take k bytes) (start + 1) = Inr (len, o1)"
        using o1 p(5,7) k by (intro line(3)) (simp_all add: min_def)
      then show ?thesis using k False p by (simp add: parse_bulk_def checked_add_def)
    qed
  qed (simp add: parse_bulk_def)
  ultimately show "start \<le> n \<and> n \<le> length bytes
     \<and> (\<forall>bytes'. take n bytes' = take n bytes \<and> n \<le> length bytes' \<longrightarrow>
          parse_bulk bytes' start = Inr (arg, n))
     \<and> (\<forall>k. start \<le> k \<and> k < n \<longrightarrow> parse_bulk (take k bytes) start = Inl Incomplete)"
    using p line(1) by simp
qed

lemma parse_bulks_stage: "stage_ok (\<lambda>bytes. parse_bulks bytes count)"
proof (induction count)
  case 0
  then show ?case by (auto simp: stage_ok_def)
next
  case (Suc count)
  show ?case
    unfolding stage_ok_def
  proof (intro allI impI)
    fix bytes start args n
    assume r: "parse_bulks bytes (Suc count) start = Inr (args, n) \<and> start \<le> length bytes"
    then obtain arg o1 args' where args: "args = arg # args'"
      and one: "parse_bulk bytes start = Inr (arg, o1)"
      and more: "parse_bulks bytes count o1 = Inr (args', n)"
      by (auto simp: bind_result_Inr)
    note d1 = stage_okD [OF parse_bulk_stage one conjunct2 [OF r]]
    note d2 = stage_okD [OF Suc more d1(2)]
    have "parse_bulks bytes' (Suc count) start = Inr (args, n)"
      if t: "take n bytes' = take n bytes" "n \<le> length bytes'" for bytes'
    proof -
      have "parse_bulk bytes' start = Inr (arg, o1)"
        using t d2(1) by (intro d1(3) take_le_cong [OF t(1)]) simp_all
      then show ?thesis using d2(3) [OF t] args by simp
    qed
    moreover have "parse_bulks (take k bytes) (Suc count) start = Inl Incomplete"
      if k: "start \<le> k" "k < n" for k
    proof (cases "k < o1")
      case True
      then show ?thesis using d1(4) [of k] k by simp
    next
      case False
      then have "parse_bulk (take k bytes) start = Inr (arg, o1)"
        using k d2(2) by (intro d1(3)) (simp_all add: min_def)
      then show ?thesis using d2(4) [of k] False k by simp
    qed
    ultimately show "start \<le> n \<and> n \<le> length bytes
       \<and> (\<forall>bytes'. take n bytes' = take n bytes \<and> n \<le> length bytes' \<longrightarrow>
            parse_bulks bytes' (Suc count) start = Inr (args, n))
       \<and> (\<forall>k. start \<le> k \<and> k < n \<longrightarrow>
            parse_bulks (take k bytes) (Suc count) start = Inl Incomplete)"
      using d1(1) d2(1,2) by simp
  qed
qed

lemma parse_resp_array_stage:
  assumes "parse_resp_array bytes = Inr (args, n)"
  shows "0 < n" "n \<le> length bytes"
    "take n bytes' = take n bytes \<Longrightarrow> n \<le> length bytes' \<Longrightarrow> parse_resp_array bytes' = Inr (args, n)"
    "0 < k \<Longrightarrow> k < n \<Longrightarrow> parse_resp_array (take k bytes) = Inl Incomplete"
proof -
  from assms obtain count o1 where p: "bytes \<noteq> []" "bytes ! 0 = 42"
      "read_decimal_line bytes 1 = Inr (count, o1)" "count \<le> MAX_INITIAL_ARGS"
      "parse_bulks bytes count o1 = Inr (args, n)"
    by (cases "read_decimal_line bytes 1") (auto simp: parse_resp_array_def split: if_splits)
  have "1 \<le> length bytes" using p(1) by (cases bytes) simp_all
  note d1 = stage_okD [OF read_decimal_line_stage p(3) this]
  note d2 = stage_okD [OF parse_bulks_stage p(5) d1(2)]
  show "0 < n" "n \<le> length bytes" using d1(1) d2(1,2) by simp_all
  show "parse_resp_array bytes' = Inr (args, n)"
    if t: "take n bytes' = take n bytes" "n \<le> length bytes'"
  proof -
    have "bytes' ! 0 = 42" "bytes' \<noteq> []"
      using nth_cong_take [OF t(1), of 0] d1(1) d2(1) t(2) p(2) by auto
    moreover have "read_decimal_line bytes' 1 = Inr (count, o1)"
      using t d2(1) by (intro d1(3) take_le_cong [OF t(1)]) simp_all
    ultimately show ?thesis using d2(3) [OF t] p(4) by (simp add: parse_resp_array_def)
  qed
  show "parse_resp_array (take k bytes) = Inl Incomplete" if k: "0 < k" "k < n"
  proof (cases "k < o1")
    case True
    then show ?thesis using d1(4) [of k] k p(1,2) by (simp add: parse_resp_array_def)
  next
    case False
    then have "read_decimal_line (take k bytes) 1 = Inr (count, o1)"
      using k d2(2) by (intro d1(3)) (simp_all add: min_def)
    then show ?thesis using d2(4) [of k] False k p(1,2,4) by (simp add: parse_resp_array_def)
  qed
qed

lemma parse_bulks_args:
  "parse_bulks bytes count start = Inr (args, n) \<Longrightarrow>
   length args = count \<and> (\<forall>a \<in> set args. length a \<le> MAX_BULK_LENGTH)"
proof (induction count arbitrary: start args n)
  case (Suc count)
  then obtain arg o1 args' where "args = arg # args'" "parse_bulk bytes start = Inr (arg, o1)"
      "parse_bulks bytes count o1 = Inr (args', n)"
    by (auto simp: bind_result_Inr)
  moreover from this(2) have "length arg \<le> MAX_BULK_LENGTH"
    unfolding parse_bulk_Inr by (auto simp: slice_def)
  ultimately show ?case using Suc.IH by auto
qed simp

lemma parse_resp_array_ok:
  assumes "parse_resp_array bytes = Inr (args, n)"
  shows "resp_args_ok args"
  using assms parse_bulks_args
  by (cases "read_decimal_line bytes 1")
    (fastforce simp: parse_resp_array_def resp_args_ok_def split: if_splits)+

section \<open>The options of HELLO\<close>

text \<open>Replacing the user name of the last \<open>AUTH\<close> option keeps the option list.\<close>

lemma hello_options_bounds:
  "hello_options args index auth = Inr (Some i) \<Longrightarrow>
   auth = Some i \<or> index \<le> i \<and> i + 2 < length args"
proof (induction args index auth rule: hello_options.induct)
  case (1 args index auth)
  then show ?case
    by (subst (asm) (3) hello_options.simps) (auto split: if_splits)
qed

lemma hello_options_update:
  "hello_options args index auth = Inr (Some i) \<Longrightarrow> (auth = Some i \<Longrightarrow> i + 2 < index) \<Longrightarrow>
   hello_options (args[i + 1 := u]) index auth = Inr (Some i)"
proof (induction args index auth rule: hello_options.induct)
  case (1 args index auth)
  let ?args = "args[i + 1 := u]"
  show ?case
  proof (cases "index < length args")
    case False
    then show ?thesis using 1(3) by (simp add: hello_options.simps [of _ index])
  next
    case len: True
    have same: "?args ! index = args ! index"
      using hello_options_bounds [OF 1(3)] 1(4) by (auto simp: nth_list_update)
    show ?thesis
    proof (cases "eq_ignore_ascii_case (args ! index) (ascii ''AUTH'')")
      case True
      then have more: "\<not> index + 2 \<ge> length args"
          "hello_options args (index + 3) (Some index) = Inr (Some i)"
        using 1(3) len by (auto simp: hello_options.simps [of args index] split: if_splits)
      have "hello_options ?args (index + 3) (Some index) = Inr (Some i)"
        by (rule 1(1) [OF len True more]) simp
      then show ?thesis using len True more(1) same by (simp add: hello_options.simps [of _ index])
    next
      case False
      then have setname: "eq_ignore_ascii_case (args ! index) (ascii ''SETNAME'')
            \<and> index + 1 < length args" and
          more: "hello_options args (index + 2) auth = Inr (Some i)"
        using 1(3) len by (auto simp: hello_options.simps [of args index] split: if_splits)
      have "hello_options ?args (index + 2) auth = Inr (Some i)"
        using 1(4) by (intro 1(2) [OF len False setname more]) auto
      then show ?thesis using len False setname same by (simp add: hello_options.simps [of _ index])
    qed
  qed
qed

lemma hello_auth_index_Inr:
  "hello_auth_index args = Inr i \<longleftrightarrow> 1 < length args
     \<and> (args ! 1 = ascii ''2'' \<or> args ! 1 = ascii ''3'')
     \<and> hello_options args 2 None = Inr (Some i)"
  by (auto simp: hello_auth_index_def bind_result_Inr)

lemma hello_auth_index_bounds:
  "hello_auth_index args = Inr i \<Longrightarrow> 2 \<le> i \<and> i + 2 < length args"
  using hello_options_bounds [of args 2 None i] by (simp add: hello_auth_index_Inr)

lemma hello_auth_index_update:
  assumes "hello_auth_index args = Inr i"
  shows "hello_auth_index (args[i + 1 := u]) = Inr i"
  using assms hello_options_update [of args 2 None i u] hello_auth_index_bounds [OF assms]
  by (simp add: hello_auth_index_Inr nth_list_update)

lemma AUTH_not_HELLO:
  "eq_ignore_ascii_case x (ascii ''HELLO'') \<Longrightarrow> \<not> eq_ignore_ascii_case x (ascii ''AUTH'')"
  by (auto simp: eq_ignore_ascii_case_def ascii_def dest!: arg_cong [where f = length])

lemma route_from_args_auth:
  "eq_ignore_ascii_case a (ascii ''AUTH'') \<Longrightarrow> valid_utf8 u \<Longrightarrow>
   route_from_args [a, u, p] = Inr \<lparr>rr_username = Some u, rr_password = p\<rparr>"
  by (simp add: route_from_args_def parse_auth_def redis_string_def from_utf8_def)

lemma route_from_args_hello:
  assumes "eq_ignore_ascii_case (args ! 0) (ascii ''HELLO'')" "hello_auth_index args = Inr i"
    and "valid_utf8 u"
  shows "route_from_args (args[i + 1 := u]) =
    Inr \<lparr>rr_username = Some u, rr_password = args ! (i + 2)\<rparr>"
proof -
  have i: "2 \<le> i" "i + 2 < length args" using hello_auth_index_bounds [OF assms(2)] by simp_all
  have "\<not> eq_ignore_ascii_case (args ! 0) (ascii ''AUTH'')" using assms(1) by (rule AUTH_not_HELLO)
  moreover have "args \<noteq> []" using i(2) by auto
  ultimately show ?thesis
    using assms i hello_auth_index_update [OF assms(2), of u]
    by (simp add: route_from_args_def parse_hello_def redis_string_def from_utf8_def)
qed

lemma resp_args_ok_update:
  "resp_args_ok args \<Longrightarrow> length u \<le> MAX_BULK_LENGTH \<Longrightarrow> resp_args_ok (args[i := u])"
  using set_update_subset_insert [of args i u] by (auto simp: resp_args_ok_def)

text \<open>What a successful rewrite produces.\<close>

lemma rewrite_args:
  assumes parse: "parse_resp_array original = Inr (args, consumed)"
    and route: "route_from_args args = Inr route"
    and rewrite: "rewrite_with_resolved_username route original consumed u = Inr out"
    and u: "valid_utf8 u" "length u \<le> MAX_BULK_LENGTH"
  obtains args' where "out = serialize_resp_array args' @ drop consumed original"
    "resp_args_ok args'"
    "route_from_args args' = Inr \<lparr>rr_username = Some u, rr_password = rr_password route\<rparr>"
proof -
  have ok: "resp_args_ok args" by (rule parse_resp_array_ok [OF parse])
  have c: "consumed \<le> length original" by (rule parse_resp_array_stage(2) [OF parse])
  have "parse_resp_array (take consumed original) = Inr (args, consumed)"
    using parse_resp_array_stage(3) [OF parse, of "take consumed original"] c by simp
  note rw = rewrite [unfolded rewrite_with_resolved_username_def Let_def this bind_result.simps]
  show ?thesis
  proof (cases "eq_ignore_ascii_case (args ! 0) (ascii ''AUTH'')")
    case True
    have args: "args \<noteq> []" using rw by (auto split: if_splits)
    have pa: "parse_auth args = Inr route" using route True args by (simp add: route_from_args_def)
    then consider p where "args = [args ! 0, p]" "rr_password route = p"
      | v p where "args = [args ! 0, v, p]" "rr_password route = p"
      by (cases args; cases "tl args"; cases "tl (tl args)")
        (auto simp: parse_auth_def bind_result_Inr split: if_splits)
    then show ?thesis
    proof cases
      case 1
      then obtain a where a: "args = [a, p]" by blast
      have "out = serialize_resp_array [a, u, p] @ drop consumed original"
        using rw True a by (auto split: if_splits)
      moreover have "resp_args_ok [a, u, p]"
        using ok u(2) a by (simp add: resp_args_ok_def MAX_INITIAL_ARGS_def)
      ultimately show ?thesis
        using that route_from_args_auth [of a u p] True u(1) a 1(2) by simp
    next
      case 2
      then obtain a where a: "args = [a, v, p]" by blast
      have "out = serialize_resp_array [a, u, p] @ drop consumed original"
        using rw True a by (auto split: if_splits)
      moreover have "resp_args_ok [a, u, p]"
        using resp_args_ok_update [OF ok u(2), of 1] a by simp
      ultimately show ?thesis
        using that route_from_args_auth [of a u p] True u(1) a 2(2) by simp
    qed
  next
    case False
    have args: "args \<noteq> []" and hello: "eq_ignore_ascii_case (args ! 0) (ascii ''HELLO'')"
      using rw False by (auto split: if_splits)
    obtain i where i: "hello_auth_index args = Inr i"
        and out: "out = serialize_resp_array (args[i + 1 := u]) @ drop consumed original"
      using rw False hello by (auto simp: bind_result_Inr split: if_splits)
    have "rr_password route = args ! (i + 2)"
      using route False hello args i
      by (auto simp: route_from_args_def parse_hello_def bind_result_Inr)
    then show ?thesis
      using that [OF out resp_args_ok_update [OF ok u(2)]] route_from_args_hello [OF hello i u(1)]
      by simp
  qed
qed

section \<open>Properties\<close>

text \<open>RESP encoding and parsing agree: within the limits of the gateway, parsing what
  \<open>serialize_resp_array\<close> wrote gives the same arguments and consumes exactly those bytes,
  whatever follows them.\<close>

theorem resp_roundtrip:
  assumes "length args \<le> MAX_INITIAL_ARGS" "\<forall>a \<in> set args. length a \<le> MAX_BULK_LENGTH"
  shows "parse_resp_array (serialize_resp_array args @ rest) =
    Inr (args, length (serialize_resp_array args))"
  using parse_serialize assms by (simp add: resp_args_ok_def)

theorem resp_roundtrip_witness:
  "parse_resp_array (serialize_resp_array [ascii ''AUTH'', [13, 10, 255]] @ [42]) =
     Inr ([ascii ''AUTH'', [13, 10, 255]],
       length (serialize_resp_array [ascii ''AUTH'', [13, 10, 255]]))"
  by (rule resp_roundtrip) (simp_all add: MAX_INITIAL_ARGS_def MAX_BULK_LENGTH_def ascii_def)

text \<open>The first command can be read incrementally.  If the buffered bytes contain a command that
  routes, then the route depends on the consumed bytes only, however the client continues, and
  every shorter non-empty prefix makes the gateway read on rather than fail.\<close>

theorem initial_frame_streaming:
  assumes "parse_initial_frame_route bytes = Inr (Some (route, n))"
  shows "parse_initial_frame_route (take n bytes @ rest) = Inr (Some (route, n))
    \<and> (0 < k \<and> k < n \<longrightarrow> parse_initial_frame_route (take k bytes) = Inr None)"
proof -
  obtain args where p: "parse_resp_array bytes = Inr (args, n)"
      and r: "route_from_args args = Inr route"
    using assms by (auto simp: parse_initial_frame_route_def bind_result_Inr
        split: sum.splits if_splits)
  note s = parse_resp_array_stage [OF p]
  have "parse_resp_array (take n bytes @ rest) = Inr (args, n)"
    using s(2) by (intro s(3)) simp_all
  then show ?thesis using r s(4) [of k] by (auto simp: parse_initial_frame_route_def)
qed

definition ex_auth :: "byte list" where
  "ex_auth = serialize_resp_array [ascii ''AUTH'', ascii ''pw'']"

definition ex_route :: redis_route where
  "ex_route = \<lparr>rr_username = None, rr_password = ascii ''pw''\<rparr>"

lemma ex_auth_parse:
  "parse_initial_frame_route (ex_auth @ rest) = Inr (Some (ex_route, length ex_auth))"
proof -
  have "resp_args_ok [ascii ''AUTH'', ascii ''pw'']"
    by (simp add: resp_args_ok_def MAX_INITIAL_ARGS_def MAX_BULK_LENGTH_def ascii_def)
  from parse_serialize [OF this] show ?thesis
    by (simp add: parse_initial_frame_route_def ex_auth_def route_from_args_def parse_auth_def
        ex_route_def)
qed

theorem initial_frame_streaming_witness:
  "parse_initial_frame_route (take 3 (ex_auth @ [])) = Inr None
   \<and> parse_initial_frame_route (take (length ex_auth) (ex_auth @ []) @ [1, 2]) =
       Inr (Some (ex_route, length ex_auth))"
proof -
  have "3 < length ex_auth" by (simp add: ex_auth_def serialize_resp_array_def
        resp_length_line_def serialize_bulk_def)
  then show ?thesis using initial_frame_streaming [OF ex_auth_parse [of "[]"]] by simp
qed

text \<open>C31: rewriting the first command with the resolved user name changes nothing but that name:
  the rewritten bytes parse to the resolved user name with the client's password, and the bytes
  behind the command are forwarded unchanged.\<close>

theorem rewrite_sets_username:
  assumes "parse_initial_frame_route original = Inr (Some (route, consumed))"
    and "rewrite_with_resolved_username route original consumed resolved = Inr out"
    and "valid_utf8 resolved" "length resolved \<le> MAX_BULK_LENGTH"
  shows "\<exists>n. parse_initial_frame_route out =
      Inr (Some (\<lparr>rr_username = Some resolved, rr_password = rr_password route\<rparr>, n))
    \<and> drop n out = drop consumed original"
proof -
  obtain args where p: "parse_resp_array original = Inr (args, consumed)"
      and r: "route_from_args args = Inr route"
    using assms(1) by (auto simp: parse_initial_frame_route_def bind_result_Inr
        split: sum.splits if_splits)
  show ?thesis
    by (rule rewrite_args [OF p r assms(2-4)])
      (simp add: parse_initial_frame_route_def parse_serialize)
qed

theorem rewrite_sets_username_witness:
  "\<exists>out n. rewrite_with_resolved_username ex_route (ex_auth @ [7]) (length ex_auth)
       (ascii ''tenant'') = Inr out
     \<and> parse_initial_frame_route out =
         Inr (Some (\<lparr>rr_username = Some (ascii ''tenant''), rr_password = ascii ''pw''\<rparr>, n))
     \<and> drop n out = [7]"
proof -
  have "resp_args_ok [ascii ''AUTH'', ascii ''pw'']"
    by (simp add: resp_args_ok_def MAX_INITIAL_ARGS_def MAX_BULK_LENGTH_def ascii_def)
  from parse_serialize [OF this, of "[]"] obtain out where
    "rewrite_with_resolved_username ex_route (ex_auth @ [7]) (length ex_auth)
       (ascii ''tenant'') = Inr out"
    by (simp add: rewrite_with_resolved_username_def ex_route_def ex_auth_def ascii_def
        eq_ignore_ascii_case_def)
  moreover have "valid_utf8 (ascii ''tenant'')" "length (ascii ''tenant'') \<le> MAX_BULK_LENGTH"
    by (simp_all add: ascii_def MAX_BULK_LENGTH_def)
  ultimately show ?thesis
    using rewrite_sets_username [OF ex_auth_parse] by (fastforce simp: ex_route_def)
qed

end
