(* ===== verification/PostgresWire.thy ===== *)
theory PostgresWire
  imports Bytes
begin

text \<open>
  The startup phase of a PostgreSQL connection (\<open>gateway/protocols/postgres.rs\<close>): the control
  requests, the cancel key, the route in the startup parameters, and the rewriting of the
  \<open>database\<close> parameter.
\<close>

section \<open>Control requests\<close>

definition SSL_REQUEST_CODE :: int where
  "SSL_REQUEST_CODE = 80877103"

definition GSSENC_REQUEST_CODE :: int where
  "GSSENC_REQUEST_CODE = 80877104"

definition CANCEL_REQUEST_CODE :: int where
  "CANCEL_REQUEST_CODE = 80877102"

abbreviation STARTUP_HEADER_LEN :: nat where
  "STARTUP_HEADER_LEN \<equiv> 8"

datatype postgres_parse_error = TooShort | InvalidLength | MissingField string | InvalidUtf8

definition auth_error_packet :: "byte list" where
  "auth_error_packet =
     (let params = ascii ''SFATAL'' @ 0 # ascii ''VFATAL'' @ 0 # ascii ''C28000'' @ 0 #
            ascii ''MAccess denied for requested database'' @ [0, 0]
      in 69 # be_bytes 4 (length params + 4) @ params)"

record cancel_key =
  ck_process_id :: int
  ck_secret :: "byte list"

definition from_backend_data :: "byte list \<Rightarrow> cancel_key option" where
  "from_backend_data bytes =
     (if length bytes < 4 + 4 \<or> length bytes > 4 + 256 then None
      else Some \<lparr>ck_process_id = signed32 (be_nat (take 4 bytes)), ck_secret = drop 4 bytes\<rparr>)"

definition is_ssl_request :: "byte list \<Rightarrow> bool" where
  "is_ssl_request bytes =
     (if length bytes \<noteq> STARTUP_HEADER_LEN then False
      else signed32 (be_nat (drop 4 bytes)) = SSL_REQUEST_CODE)"

definition startup_request_code :: "byte list \<Rightarrow> int option" where
  "startup_request_code bytes =
     (if length bytes < STARTUP_HEADER_LEN then None
      else if be_nat (take 4 bytes) \<noteq> length bytes then None
      else Some (signed32 (be_nat (slice bytes 4 STARTUP_HEADER_LEN))))"

definition is_gssenc_request :: "byte list \<Rightarrow> bool" where
  "is_gssenc_request bytes = (startup_request_code bytes = Some GSSENC_REQUEST_CODE)"

definition cancel_request_key :: "byte list \<Rightarrow> cancel_key option" where
  "cancel_request_key bytes =
     (if startup_request_code bytes \<noteq> Some CANCEL_REQUEST_CODE then None
      else from_backend_data (drop STARTUP_HEADER_LEN bytes))"

section \<open>Startup parameters\<close>

record startup_route =
  sr_user :: "byte list"
  sr_database :: "byte list option"

text \<open>The iterator of \<open>split\<close> at a byte: one part more than there are separators.\<close>

fun split_on :: "byte \<Rightarrow> byte list \<Rightarrow> byte list list" where
  "split_on sep [] = [[]]"
| "split_on sep (b # bs) =
     (if b = sep then [] # split_on sep bs
      else case split_on sep bs of [] \<Rightarrow> [[b]] | part # parts \<Rightarrow> (b # part) # parts)"

fun startup_fields :: "byte list list \<Rightarrow> (byte list \<rightharpoonup> byte list) \<Rightarrow>
    postgres_parse_error + (byte list \<rightharpoonup> byte list)" where
  "startup_fields (key # value # parts) params =
     (if key = [] then Inr params
      else if \<not> valid_utf8 key then Inl InvalidUtf8
      else if \<not> valid_utf8 value then Inl InvalidUtf8
      else startup_fields parts (params(key \<mapsto> value)))"
| "startup_fields _ params = Inr params"

definition parse_startup_route :: "byte list \<Rightarrow> postgres_parse_error + startup_route" where
  "parse_startup_route bytes =
     (if length bytes < STARTUP_HEADER_LEN then Inl TooShort
      else let declared_len = be_nat (take 4 bytes) in
        if declared_len \<noteq> length bytes \<or> declared_len < STARTUP_HEADER_LEN
        then Inl InvalidLength
        else bind_result
          (startup_fields (split_on 0 (drop STARTUP_HEADER_LEN bytes)) Map.empty) (\<lambda>params.
            bind_result (ok_or (params (ascii ''user'')) (MissingField ''user'')) (\<lambda>user.
              Inr \<lparr>sr_user = user,
                   sr_database = (case params (ascii ''database'') of
                       None \<Rightarrow> None | Some d \<Rightarrow> if d = [] then None else Some d)\<rparr>)))"

section \<open>Rewriting the database\<close>

fun index_of :: "byte \<Rightarrow> byte list \<Rightarrow> nat option" where
  "index_of x [] = None"
| "index_of x (b # bs) = (if b = x then Some 0 else map_option Suc (index_of x bs))"

definition find_nul :: "byte list \<Rightarrow> nat \<Rightarrow> postgres_parse_error + nat" where
  "find_nul bytes offset =
     (if offset > length bytes then Inl InvalidLength
      else case index_of 0 (drop offset bytes) of
             None \<Rightarrow> Inl InvalidLength
           | Some relative \<Rightarrow> ok_or (checked_add offset relative) InvalidLength)"

definition set_packet_length :: "byte list \<Rightarrow> postgres_parse_error + byte list" where
  "set_packet_length packet =
     (if length packet > 4294967295 then Inl InvalidLength
      else Inr (be_bytes 4 (length packet) @ drop 4 packet))"

lemma index_of_bound: "index_of x bs = Some i \<Longrightarrow> i < length bs"
  by (induction bs arbitrary: i) (auto split: if_splits)

lemma find_nul_bound: "find_nul bytes offset = Inr i \<Longrightarrow> offset \<le> i \<and> i < length bytes"
  by (auto simp: find_nul_def checked_add_Some dest!: index_of_bound
      split: if_splits option.splits)

text \<open>The search for the first \<open>database\<close> key: the end of the key and of its value.\<close>

function find_database :: "byte list \<Rightarrow> nat \<Rightarrow> postgres_parse_error + (nat \<times> nat) option" where
  "find_database bytes offset =
     (if offset < length bytes - 1 then
        case find_nul bytes offset of
          Inl e \<Rightarrow> Inl e
        | Inr key_end \<Rightarrow>
            if key_end = offset then Inr None
            else case find_nul bytes (key_end + 1) of
              Inl e \<Rightarrow> Inl e
            | Inr value_end \<Rightarrow>
                if slice bytes offset key_end = ascii ''database''
                then Inr (Some (key_end, value_end))
                else find_database bytes (value_end + 1)
      else Inr None)"
  by pat_completeness auto
termination
  by (relation "measure (\<lambda>(bytes, offset). length bytes - offset)")
    (auto dest!: find_nul_bound)

declare find_database.simps [simp del]

definition startup_packet_with_database ::
    "byte list \<Rightarrow> byte list \<Rightarrow> postgres_parse_error + byte list" where
  "startup_packet_with_database bytes database =
     bind_result (parse_startup_route bytes) (\<lambda>_.
       if database = [] \<or> 0 \<in> set database \<or> last bytes \<noteq> 0 then Inl InvalidLength
       else bind_result (find_database bytes STARTUP_HEADER_LEN) (\<lambda>found.
         case found of
           Some (key_end, value_end) \<Rightarrow>
             set_packet_length (take (key_end + 1) bytes @ database @ drop value_end bytes)
         | None \<Rightarrow>
             set_packet_length (take (length bytes - 1) bytes @ ascii ''database'' @ 0 #
               database @ [0, 0])))"

section \<open>The shape of a startup packet\<close>

text \<open>A startup packet as the protocol documents it: the length, the protocol version, the
  parameters as NUL-terminated keys and values, and a terminator.\<close>

definition field_bytes :: "byte list \<times> byte list \<Rightarrow> byte list" where
  "field_bytes kv = fst kv @ 0 # snd kv @ [0]"

definition startup_body :: "(byte list \<times> byte list) list \<Rightarrow> byte list" where
  "startup_body params = concat (map field_bytes params) @ [0]"

definition startup_packet :: "byte list \<Rightarrow> (byte list \<times> byte list) list \<Rightarrow> byte list" where
  "startup_packet version params =
     be_bytes 4 (8 + length (startup_body params)) @ version @ startup_body params"

definition field_ok :: "byte list \<times> byte list \<Rightarrow> bool" where
  "field_ok kv \<longleftrightarrow> fst kv \<noteq> [] \<and> 0 \<notin> set (fst kv) \<and> 0 \<notin> set (snd kv)
     \<and> valid_utf8 (fst kv) \<and> valid_utf8 (snd kv)"

definition startup_ok :: "byte list \<Rightarrow> (byte list \<times> byte list) list \<Rightarrow> bool" where
  "startup_ok version params \<longleftrightarrow> length version = 4 \<and> (\<forall>kv \<in> set params. field_ok kv)
     \<and> 8 + length (startup_body params) \<le> 4294967295"

text \<open>The parameters with the first \<open>database\<close> replaced, or one added at the end.\<close>

fun set_database ::
    "(byte list \<times> byte list) list \<Rightarrow> byte list \<Rightarrow> (byte list \<times> byte list) list" where
  "set_database [] d = [(ascii ''database'', d)]"
| "set_database ((k, v) # params) d =
     (if k = ascii ''database'' then (k, d) # params else (k, v) # set_database params d)"

section \<open>Parsing\<close>

lemma split_on_append:
  "0 \<notin> set xs \<Longrightarrow> split_on 0 (xs @ 0 # rest) = xs # split_on 0 rest"
  by (induction xs) auto

lemma split_on_body:
  "\<forall>kv \<in> set params. field_ok kv \<Longrightarrow>
   split_on 0 (startup_body params) =
     concat (map (\<lambda>kv. [fst kv, snd kv]) params) @ [[], []]"
proof (induction params)
  case (Cons kv params)
  have "startup_body (kv # params) = fst kv @ 0 # snd kv @ 0 # startup_body params"
    by (simp add: startup_body_def field_bytes_def)
  then show ?case using Cons by (simp add: split_on_append field_ok_def)
qed (simp add: startup_body_def)

lemma startup_fields_body:
  "\<forall>kv \<in> set params. field_ok kv \<Longrightarrow>
   startup_fields (concat (map (\<lambda>kv. [fst kv, snd kv]) params) @ [[], []]) m =
     Inr (m ++ map_of (rev params))"
proof (induction params arbitrary: m)
  case (Cons kv params)
  then show ?case by (cases kv) (simp add: field_ok_def)
qed simp

lemma length_startup_packet [simp]:
  "length version = 4 \<Longrightarrow> length (startup_packet version params) = 8 + length (startup_body params)"
  by (simp add: startup_packet_def)

lemma drop_startup_packet:
  "length version = 4 \<Longrightarrow> drop 8 (startup_packet version params) = startup_body params"
  by (simp add: startup_packet_def)

lemma parse_startup_packet:
  assumes "startup_ok version params"
  shows "parse_startup_route (startup_packet version params) =
    (case map_of (rev params) (ascii ''user'') of
       None \<Rightarrow> Inl (MissingField ''user'')
     | Some user \<Rightarrow> Inr \<lparr>sr_user = user,
         sr_database = (case map_of (rev params) (ascii ''database'') of
             None \<Rightarrow> None | Some d \<Rightarrow> if d = [] then None else Some d)\<rparr>)"
proof -
  have v: "length version = 4" and ok: "\<forall>kv \<in> set params. field_ok kv"
    using assms by (simp_all add: startup_ok_def)
  have "be_nat (take 4 (startup_packet version params)) = 8 + length (startup_body params)"
    using assms by (simp add: startup_packet_def startup_ok_def be_nat_bytes)
  then show ?thesis
    using startup_fields_body [OF ok, of Map.empty]
    by (simp add: parse_startup_route_def Let_def v drop_startup_packet split_on_body [OF ok]
        split: option.splits)
qed

section \<open>Finding and replacing the database\<close>

fun database_position ::
    "nat \<Rightarrow> (byte list \<times> byte list) list \<Rightarrow> (nat \<times> nat) option" where
  "database_position offset [] = None"
| "database_position offset ((k, v) # params) =
     (if k = ascii ''database'' then Some (offset + length k, offset + length k + 1 + length v)
      else database_position (offset + length k + length v + 2) params)"

lemma index_of_append: "x \<notin> set xs \<Longrightarrow> index_of x (xs @ x # rest) = Some (length xs)"
  by (induction xs) auto

lemma find_nul_append:
  "0 \<notin> set xs \<Longrightarrow> length pre + length xs \<le> u64_max \<Longrightarrow>
   find_nul (pre @ xs @ 0 # rest) (length pre) = Inr (length pre + length xs)"
  by (simp add: find_nul_def index_of_append checked_add_def)

lemma startup_body_Cons:
  "startup_body ((k, v) # params) = k @ 0 # v @ 0 # startup_body params"
  by (simp add: startup_body_def field_bytes_def)

lemma startup_body_nonempty [simp]: "startup_body params \<noteq> []"
  by (simp add: startup_body_def)

lemma find_database_body:
  assumes "\<forall>kv \<in> set params. field_ok kv" "length (pre @ startup_body params) \<le> u64_max"
  shows "find_database (pre @ startup_body params) (length pre) =
    Inr (database_position (length pre) params)"
  using assms
proof (induction params arbitrary: pre)
  case Nil
  then show ?case by (subst find_database.simps) (simp add: startup_body_def)
next
  case (Cons kv params)
  obtain k v where kv: "kv = (k, v)" by (cases kv)
  let ?bytes = "pre @ startup_body (kv # params)"
  have ok: "k \<noteq> []" "0 \<notin> set k" "0 \<notin> set v"
    using Cons.prems(1) kv by (simp_all add: field_ok_def)
  have b: "?bytes = pre @ k @ 0 # (v @ 0 # startup_body params)"
    "?bytes = (pre @ k @ [0]) @ v @ 0 # startup_body params"
    "?bytes = (pre @ k @ [0] @ v @ [0]) @ startup_body params"
    by (simp_all add: kv startup_body_Cons)
  have n1: "find_nul ?bytes (length pre) = Inr (length pre + length k)"
    unfolding b(1) using ok(2) Cons.prems(2) b(1) by (intro find_nul_append) simp_all
  have n2: "find_nul ?bytes (length pre + length k + 1) =
      Inr (length pre + length k + 1 + length v)"
    using find_nul_append [OF ok(3), of "pre @ k @ [0]"] Cons.prems(2) unfolding b(2) by simp
  have key: "slice ?bytes (length pre) (length pre + length k) = k"
    unfolding b(1) by (rule slice_append)
  have "length pre < length ?bytes - 1" unfolding b(1) using ok(1) by (cases k) simp_all
  moreover have "find_database ?bytes (length (pre @ k @ [0] @ v @ [0])) =
      Inr (database_position (length (pre @ k @ [0] @ v @ [0])) params)"
    unfolding b(3) using Cons.prems b(3) by (intro Cons.IH) simp_all
  ultimately show ?case
    using n1 n2 key ok(1) by (subst find_database.simps) (simp add: kv add.assoc)
qed

lemma set_database_none:
  "database_position offset params = None \<Longrightarrow>
   set_database params d = params @ [(ascii ''database'', d)]"
  by (induction offset params rule: database_position.induct) (auto split: if_splits)

lemma set_database_some:
  "database_position (length pre) params = Some (key_end, value_end) \<Longrightarrow>
   length pre < value_end \<and>
   take (key_end + 1) (pre @ startup_body params) @ d @ drop value_end (pre @ startup_body params)
     = pre @ startup_body (set_database params d)"
proof (induction params arbitrary: pre)
  case (Cons kv params)
  obtain k v where kv: "kv = (k, v)" by (cases kv)
  show ?case
  proof (cases "k = ascii ''database''")
    case True
    with Cons.prems have "key_end = length pre + length k"
      "value_end = length pre + length k + 1 + length v" by (auto simp: kv)
    then show ?thesis using True by (simp add: kv startup_body_Cons)
  next
    case False
    let ?pre = "pre @ k @ [0] @ v @ [0]"
    have "database_position (length ?pre) params = Some (key_end, value_end)"
      using Cons.prems False by (simp add: kv add.assoc)
    note IH = Cons.IH [OF this]
    have eq: "pre @ startup_body (kv # params) = ?pre @ startup_body params"
      "pre @ startup_body (set_database (kv # params) d) =
        ?pre @ startup_body (set_database params d)"
      using False by (simp_all add: kv startup_body_Cons)
    show ?thesis
      unfolding eq using IH by (intro conjI; elim conjE) (simp, assumption)
  qed
qed simp

lemma startup_body_append:
  "startup_body (params @ [(k, v)]) = butlast (startup_body params) @ k @ 0 # v @ [0, 0]"
  by (simp add: startup_body_def field_bytes_def)

lemma rewrite_startup_packet:
  assumes ok: "startup_ok version params" and user: "ascii ''user'' \<in> fst ` set params"
    and d: "d \<noteq> []" "0 \<notin> set d"
    and fits: "8 + length (startup_body (set_database params d)) \<le> 4294967295"
  shows "startup_packet_with_database (startup_packet version params) d =
    Inr (startup_packet version (set_database params d))"
proof -
  let ?bytes = "startup_packet version params"
  let ?pre = "be_bytes 4 (8 + length (startup_body params)) @ version"
  let ?body = "startup_body (set_database params d)"
  have v: "length version = 4" and f: "\<forall>kv \<in> set params. field_ok kv"
    using ok by (simp_all add: startup_ok_def)
  have bytes: "?bytes = ?pre @ startup_body params" by (simp add: startup_packet_def)
  have "map_of (rev params) (ascii ''user'') \<noteq> None"
    using user by (simp add: map_of_eq_None_iff)
  then have "\<exists>route. parse_startup_route ?bytes = Inr route"
    using parse_startup_packet [OF ok] by (auto split: option.splits)
  moreover have "last ?bytes = 0" by (simp add: bytes startup_body_def)
  moreover have "find_database ?bytes 8 = Inr (database_position 8 params)"
    using find_database_body [OF f, of ?pre] ok v by (simp add: bytes startup_ok_def)
  moreover have len: "set_packet_length (?pre @ ?body) =
      Inr (startup_packet version (set_database params d))"
    using fits v by (simp add: set_packet_length_def startup_packet_def)
  moreover have "take (length ?bytes - 1) ?bytes @ ascii ''database'' @ 0 # d @ [0, 0] =
      ?pre @ ?body" if "database_position 8 params = None"
  proof -
    have "take (length ?bytes - 1) ?bytes = ?pre @ butlast (startup_body params)"
      unfolding butlast_conv_take [symmetric] bytes by (simp add: butlast_append)
    then show ?thesis using set_database_none [OF that, of d] startup_body_append by simp
  qed
  moreover have "take (k + 1) ?bytes @ d @ drop e ?bytes = ?pre @ ?body"
    if "database_position 8 params = Some (k, e)" for k e
  proof -
    have "database_position (length ?pre) params = Some (k, e)" using that v by simp
    from set_database_some [OF this, of d] show ?thesis unfolding bytes by (rule conjunct2)
  qed
  ultimately show ?thesis
    using d by (auto simp: startup_packet_with_database_def split: option.splits)
qed

lemma map_of_set_database:
  assumes "k \<noteq> ascii ''database''"
  shows "map_of (rev (set_database params d)) k = map_of (rev params) k"
  using assms by (induction params d rule: set_database.induct) (auto simp: map_add_def split: option.splits)

lemma map_of_set_database_same:
  assumes "length (filter (\<lambda>kv. fst kv = ascii ''database'') params) \<le> 1"
  shows "map_of (rev (set_database params d)) (ascii ''database'') = Some d"
  using assms
proof (induction params d rule: set_database.induct)
  case (2 k v params d)
  show ?case
  proof (cases "k = ascii ''database''")
    case True
    then have "ascii ''database'' \<notin> fst ` set params"
      using 2(2) by (auto simp: filter_empty_conv)
    then have "map_of (rev params) (ascii ''database'') = None"
      by (simp add: map_of_eq_None_iff)
    then show ?thesis using True by (simp add: map_add_def)
  next
    case False
    then show ?thesis using 2 by (simp add: map_add_def)
  qed
qed simp

section \<open>Properties\<close>

text \<open>C30: rewriting the database of a well-formed startup packet does what the gateway relies on.
  With at most one \<open>database\<close> parameter, the rewritten packet is well formed, names the same
  user and the resolved database, and carries every other parameter unchanged and in order.\<close>

theorem startup_rewrite_correct:
  assumes "startup_ok version params" "map_of (rev params) (ascii ''user'') = Some user"
    and "length (filter (\<lambda>kv. fst kv = ascii ''database'') params) \<le> 1"
    and "database \<noteq> []" "0 \<notin> set database" "valid_utf8 database"
    and "startup_ok version (set_database params database)"
  shows "startup_packet_with_database (startup_packet version params) database =
      Inr (startup_packet version (set_database params database))
    \<and> parse_startup_route (startup_packet version (set_database params database)) =
      Inr \<lparr>sr_user = user, sr_database = Some database\<rparr>
    \<and> filter (\<lambda>kv. fst kv \<noteq> ascii ''database'') (set_database params database) =
      filter (\<lambda>kv. fst kv \<noteq> ascii ''database'') params"
proof (intro conjI)
  have "ascii ''user'' \<in> fst ` set params"
    using assms(2) by (metis image_set map_of_eq_None_iff option.distinct(1) set_rev)
  then show "startup_packet_with_database (startup_packet version params) database =
      Inr (startup_packet version (set_database params database))"
    using assms(1,4,5,7) by (intro rewrite_startup_packet) (simp_all add: startup_ok_def)
  have "ascii ''user'' \<noteq> ascii ''database''" by (simp add: ascii_def)
  then show "parse_startup_route (startup_packet version (set_database params database)) =
      Inr \<lparr>sr_user = user, sr_database = Some database\<rparr>"
    using assms(2,4) parse_startup_packet [OF assms(7)] map_of_set_database
      map_of_set_database_same [OF assms(3)] by simp
  show "filter (\<lambda>kv. fst kv \<noteq> ascii ''database'') (set_database params database) =
      filter (\<lambda>kv. fst kv \<noteq> ascii ''database'') params"
    by (induction params database rule: set_database.induct) auto
qed

definition ex_params :: "(byte list \<times> byte list) list" where
  "ex_params = [(ascii ''user'', ascii ''app''), (ascii ''database'', ascii ''x''),
     (ascii ''opt'', [])]"

lemma valid_utf8_ascii_string: "(\<forall>c \<in> set s. of_char c < (128 :: byte)) \<Longrightarrow> valid_utf8 (ascii s)"
  unfolding ascii_def by (rule valid_utf8_ascii) simp

theorem startup_rewrite_correct_witness:
  "startup_packet_with_database (startup_packet [0, 3, 0, 0] ex_params) (ascii ''t1'') =
     Inr (startup_packet [0, 3, 0, 0] [(ascii ''user'', ascii ''app''),
       (ascii ''database'', ascii ''t1''), (ascii ''opt'', [])])"
proof -
  have "startup_ok [0, 3, 0, 0] ex_params"
    "startup_ok [0, 3, 0, 0] (set_database ex_params (ascii ''t1''))"
    by (simp_all add: startup_ok_def ex_params_def field_ok_def startup_body_def field_bytes_def
        ascii_def)
  moreover have "map_of (rev ex_params) (ascii ''user'') = Some (ascii ''app'')"
    "length (filter (\<lambda>kv. fst kv = ascii ''database'') ex_params) \<le> 1"
    by (simp_all add: ex_params_def ascii_def)
  ultimately show ?thesis
    using startup_rewrite_correct [of "[0, 3, 0, 0]" ex_params "ascii ''app''" "ascii ''t1''"]
    by (simp add: ex_params_def ascii_def)
qed


text \<open>C37: the gateway accepts a startup packet whose last parameter is not followed by the
  terminator; adding a database to it turns the last value's terminator into part of the value,
  and the rewritten packet names another user.\<close>

theorem startup_rewrite_unterminated:
  "\<exists>packet rewritten. parse_startup_route packet =
       Inr \<lparr>sr_user = ascii ''app'', sr_database = None\<rparr>
     \<and> startup_packet_with_database packet (ascii ''t1'') = Inr rewritten
     \<and> parse_startup_route rewritten =
       Inr \<lparr>sr_user = ascii ''appdatabase'', sr_database = None\<rparr>"
proof (intro exI conjI)
  let ?packet = "[0, 0, 0, 17, 0, 3, 0, 0, 117, 115, 101, 114, 0, 97, 112, 112, 0] :: byte list"
  let ?out = "[0, 0, 0, 29, 0, 3, 0, 0, 117, 115, 101, 114, 0, 97, 112, 112,
    100, 97, 116, 97, 98, 97, 115, 101, 0, 116, 49, 0, 0] :: byte list"
  show p: "parse_startup_route ?packet = Inr \<lparr>sr_user = ascii ''app'', sr_database = None\<rparr>"
    by (simp add: parse_startup_route_def be_nat_def ascii_def)
  have "find_database ?packet 8 = Inr None"
    by (simp add: find_database.simps find_nul_def checked_add_def slice_def ascii_def)
  then show "startup_packet_with_database ?packet (ascii ''t1'') = Inr ?out"
    using p by (simp add: startup_packet_with_database_def ascii_def set_packet_length_def be_bytes_4)
  show "parse_startup_route ?out = Inr \<lparr>sr_user = ascii ''appdatabase'', sr_database = None\<rparr>"
    by (simp add: parse_startup_route_def be_nat_def ascii_def)
qed

text \<open>Cancel keys are compared by all their bytes: two key messages that give the same cancel
  key are the same bytes, so a cancel request reaches only the session that was given exactly
  that key.\<close>

theorem cancel_key_injective:
  assumes "from_backend_data bytes = Some key" "from_backend_data bytes' = Some key"
  shows "bytes = bytes'"
proof -
  let ?n = "\<lambda>bs. be_nat (take 4 bs)"
  have len: "length (take 4 bytes) = 4" "length (take 4 bytes') = 4"
    and eq: "signed32 (?n bytes) = signed32 (?n bytes')" "drop 4 bytes = drop 4 bytes'"
    using assms by (auto simp: from_backend_data_def split: if_splits)
  then have "?n bytes = ?n bytes'"
    using be_nat_lt [of "take 4 bytes"] be_nat_lt [of "take 4 bytes'"]
    by (intro signed32_inject) simp_all
  then have "take 4 bytes = take 4 bytes'" using len by (intro be_nat_inject) simp_all
  then show ?thesis using eq(2) by (metis append_take_drop_id)
qed

theorem cancel_key_injective_witness:
  "from_backend_data [0, 0, 0, 1, 9, 9, 9, 9] \<noteq> from_backend_data [0, 0, 0, 1, 9, 9, 9, 8]"
proof
  let ?b = "[0, 0, 0, 1, 9, 9, 9, 9] :: byte list"
  let ?c = "[0, 0, 0, 1, 9, 9, 9, 8] :: byte list"
  assume eq: "from_backend_data ?b = from_backend_data ?c"
  obtain key where key: "from_backend_data ?b = Some key" by (simp add: from_backend_data_def)
  have "?b = ?c" by (rule cancel_key_injective [OF key eq [symmetric, unfolded key]])
  then show False by simp
qed

end
