(* ===== verification/MysqlWire.thy ===== *)
theory MysqlWire
  imports Bytes
begin

unbundle bit_operations_syntax

text \<open>
  The handshake of a MySQL or MariaDB connection (\<open>gateway/protocols/mariadb.rs\<close>): packet
  framing, the greeting and the client's response in both directions, and the native-password
  token the gateway derives for the backend without knowing the password.

  A stream to read is the list of bytes it will deliver, and a write is the list of bytes
  written.  The digests, the hexadecimal decoder and the constant-time comparison are third-party
  code; they are the functions of a record \<open>crypto\<close>.
\<close>

section \<open>Constants and packets\<close>

definition CLIENT_LONG_PASSWORD :: "32 word" where "CLIENT_LONG_PASSWORD = 0x00000001"
definition CLIENT_LONG_FLAG :: "32 word" where "CLIENT_LONG_FLAG = 0x00000004"
definition CLIENT_CONNECT_WITH_DB :: "32 word" where "CLIENT_CONNECT_WITH_DB = 0x00000008"
definition CLIENT_PROTOCOL_41 :: "32 word" where "CLIENT_PROTOCOL_41 = 0x00000200"
definition CLIENT_SSL :: "32 word" where "CLIENT_SSL = 0x00000800"
definition CLIENT_SECURE_CONNECTION :: "32 word" where "CLIENT_SECURE_CONNECTION = 0x00008000"
definition CLIENT_PLUGIN_AUTH :: "32 word" where "CLIENT_PLUGIN_AUTH = 0x00080000"
definition CLIENT_CONNECT_ATTRS :: "32 word" where "CLIENT_CONNECT_ATTRS = 0x00100000"
definition CLIENT_PLUGIN_AUTH_LENENC_CLIENT_DATA :: "32 word" where
  "CLIENT_PLUGIN_AUTH_LENENC_CLIENT_DATA = 0x00200000"

lemmas client_flags = CLIENT_LONG_PASSWORD_def CLIENT_LONG_FLAG_def CLIENT_CONNECT_WITH_DB_def
  CLIENT_PROTOCOL_41_def CLIENT_SSL_def CLIENT_SECURE_CONNECTION_def CLIENT_PLUGIN_AUTH_def
  CLIENT_CONNECT_ATTRS_def CLIENT_PLUGIN_AUTH_LENENC_CLIENT_DATA_def

definition NATIVE_PASSWORD_PLUGIN :: "byte list" where
  "NATIVE_PASSWORD_PLUGIN = ascii ''mysql_native_password''"

definition CACHING_SHA2_PASSWORD_PLUGIN :: "byte list" where
  "CACHING_SHA2_PASSWORD_PLUGIN = ascii ''caching_sha2_password''"

definition AUTH_SEED_ALPHABET :: "byte list" where
  "AUTH_SEED_ALPHABET = ascii ''0123456789ABCDEFGHIJKLMNOPQRSTUVWXYZabcdefghijklmnopqrstuvwxyz''"

abbreviation MAX_PACKET_PAYLOAD_LEN :: nat where
  "MAX_PACKET_PAYLOAD_LEN \<equiv> 16777216"

abbreviation MAX_WIRE_PAYLOAD_LEN :: nat where
  "MAX_WIRE_PAYLOAD_LEN \<equiv> 16777215"

abbreviation HANDSHAKE_RESPONSE_PREFIX_LEN :: nat where
  "HANDSHAKE_RESPONSE_PREFIX_LEN \<equiv> 32"

abbreviation GATEWAY_AUTH_SEED_LEN :: nat where
  "GATEWAY_AUTH_SEED_LEN \<equiv> 20"

abbreviation AUTH_SEED_PART_1_LEN :: nat where
  "AUTH_SEED_PART_1_LEN \<equiv> 8"

datatype gateway_flavor = FlavorMysql | FlavorMariadb

fun server_version :: "gateway_flavor \<Rightarrow> byte list" where
  "server_version FlavorMysql = ascii ''8.0.11''"
| "server_version FlavorMariadb = ascii ''5.5.5-10.11.0-MariaDB''"

record mariadb_route =
  mr_username :: "byte list"
  mr_database :: "byte list"
  mr_auth_response :: "byte list"
  mr_character_set :: byte

record backend_handshake =
  bh_auth_seed :: "byte list"
  bh_auth_plugin :: "byte list"

datatype mariadb_error = MalformedPacket | PacketTooLarge | Io | MissingPassword
  | NativePasswordPluginRequired | InvalidNativePasswordVerifier | MissingBackendPassword
  | InvalidBackendPassword | AuthenticationFailed | UnsupportedBackendAuth "byte list"

record mysql_packet =
  mp_sequence :: byte
  mp_payload :: "byte list"

datatype sha2_continuation = FastAuthenticationComplete | FullAuthenticationRequired

section \<open>Reading fields\<close>

text \<open>\<open>payload.get(a..b)\<close>.\<close>

definition get_range :: "'a list \<Rightarrow> nat \<Rightarrow> nat \<Rightarrow> 'a list option" where
  "get_range xs a b = (if a \<le> b \<and> b \<le> length xs then Some (slice xs a b) else None)"

definition read_u16_le :: "byte list \<Rightarrow> nat \<Rightarrow> mariadb_error + nat" where
  "read_u16_le payload offset =
     bind_result (ok_or (get_range payload offset (offset + 2)) MalformedPacket)
       (\<lambda>bytes. Inr (le_nat bytes))"

definition read_u32_le :: "byte list \<Rightarrow> nat \<Rightarrow> mariadb_error + 32 word" where
  "read_u32_le payload offset =
     bind_result (ok_or (get_range payload offset (offset + 4)) MalformedPacket)
       (\<lambda>bytes. Inr (of_nat (le_nat bytes)))"

definition take_bytes :: "byte list \<Rightarrow> nat \<Rightarrow> nat \<Rightarrow> mariadb_error + (byte list \<times> nat)" where
  "take_bytes payload offset len =
     bind_result (ok_or (checked_add offset len) MalformedPacket) (\<lambda>e.
       bind_result (ok_or (get_range payload offset e) MalformedPacket) (\<lambda>bytes.
         Inr (bytes, e)))"

fun first_nul :: "byte list \<Rightarrow> nat option" where
  "first_nul [] = None"
| "first_nul (b # bs) = (if b = 0 then Some 0 else map_option Suc (first_nul bs))"

definition read_null_string :: "byte list \<Rightarrow> nat \<Rightarrow> mariadb_error + (byte list \<times> nat)" where
  "read_null_string payload offset =
     (if offset > length payload then Inl MalformedPacket
      else let rest = drop offset payload in
        bind_result (ok_or (first_nul rest) MalformedPacket) (\<lambda>len.
          bind_result (ok_or (from_utf8 (take len rest)) MalformedPacket) (\<lambda>v.
            Inr (v, offset + (len + 1)))))"

definition get_byte :: "byte list \<Rightarrow> nat \<Rightarrow> mariadb_error + byte" where
  "get_byte payload offset =
     (if offset < length payload then Inr (payload ! offset) else Inl MalformedPacket)"

definition read_lenenc_int :: "byte list \<Rightarrow> nat \<Rightarrow> mariadb_error + (nat \<times> nat)" where
  "read_lenenc_int payload offset =
     bind_result (get_byte payload offset) (\<lambda>first.
       if first = 0xfc then
         bind_result (read_u16_le payload (offset + 1)) (\<lambda>v. Inr (v, offset + 1 + 2))
       else if first = 0xfd then
         bind_result (take_bytes payload (offset + 1) 3) (\<lambda>(bytes, o1). Inr (le_nat bytes, o1))
       else if first = 0xfe then
         bind_result (take_bytes payload (offset + 1) 8) (\<lambda>(bytes, o1). Inr (le_nat bytes, o1))
       else Inr (unat first, offset + 1))"

definition read_auth_response ::
    "byte list \<Rightarrow> nat \<Rightarrow> 32 word \<Rightarrow> mariadb_error + (byte list \<times> nat)" where
  "read_auth_response payload offset capabilities =
     (if capabilities AND CLIENT_PLUGIN_AUTH_LENENC_CLIENT_DATA \<noteq> 0 then
        bind_result (read_lenenc_int payload offset) (\<lambda>(len, o1). take_bytes payload o1 len)
      else if capabilities AND CLIENT_SECURE_CONNECTION \<noteq> 0 then
        bind_result (get_byte payload offset) (\<lambda>len. take_bytes payload (offset + 1) (unat len))
      else read_null_string payload offset)"

section \<open>Framing\<close>

definition is_ssl_request :: "byte list \<Rightarrow> mariadb_error + bool" where
  "is_ssl_request payload =
     (if length payload \<noteq> 32 then Inr False
      else bind_result (read_u32_le payload 0) (\<lambda>c. Inr (c AND CLIENT_SSL \<noteq> 0)))"

definition read_packet_limited ::
    "byte list \<Rightarrow> nat \<Rightarrow> mariadb_error + (mysql_packet \<times> byte list)" where
  "read_packet_limited stream max_payload_size =
     (if length stream < 4 then Inl Io
      else let len = le_nat (take 3 stream) in
        if len > min max_payload_size MAX_PACKET_PAYLOAD_LEN then Inl PacketTooLarge
        else if length (drop 4 stream) < len then Inl Io
        else Inr (\<lparr>mp_sequence = stream ! 3, mp_payload = take len (drop 4 stream)\<rparr>,
                  drop len (drop 4 stream)))"

definition read_packet :: "byte list \<Rightarrow> mariadb_error + (mysql_packet \<times> byte list)" where
  "read_packet stream = read_packet_limited stream MAX_PACKET_PAYLOAD_LEN"

definition write_packet :: "byte \<Rightarrow> byte list \<Rightarrow> mariadb_error + byte list" where
  "write_packet sequence payload =
     (if length payload > MAX_WIRE_PAYLOAD_LEN then Inl PacketTooLarge
      else let len = length payload in
        Inr ([of_nat len, of_nat (len div 256), of_nat (len div 65536), sequence] @ payload))"

section \<open>Parsing handshakes\<close>

definition parse_client_handshake_response :: "byte list \<Rightarrow> mariadb_error + mariadb_route" where
  "parse_client_handshake_response payload =
     (if length payload < 36 then Inl MalformedPacket
      else bind_result (read_u32_le payload 0) (\<lambda>capabilities.
        bind_result (read_null_string payload HANDSHAKE_RESPONSE_PREFIX_LEN) (\<lambda>(username, o1).
          if username = [] then Inl MalformedPacket
          else bind_result (read_auth_response payload o1 capabilities) (\<lambda>(auth, o2).
            if auth = [] then Inl MissingPassword
            else bind_result
              (if capabilities AND CLIENT_CONNECT_WITH_DB \<noteq> 0 then read_null_string payload o2
               else Inr ([], o2)) (\<lambda>(database, o3).
                 bind_result
                   (if capabilities AND CLIENT_PLUGIN_AUTH \<noteq> 0 \<and> o3 < length payload then
                      bind_result (read_null_string payload o3) (\<lambda>(plugin, o4).
                        if plugin \<noteq> NATIVE_PASSWORD_PLUGIN
                        then Inl NativePasswordPluginRequired else Inr ())
                    else Inr ()) (\<lambda>_.
                      Inr \<lparr>mr_username = username, mr_database = database,
                           mr_auth_response = auth, mr_character_set = payload ! 8\<rparr>))))))"

fun trim_trailing_nuls_rev :: "byte list \<Rightarrow> byte list" where
  "trim_trailing_nuls_rev [] = []"
| "trim_trailing_nuls_rev (b # bs) = (if b = 0 then trim_trailing_nuls_rev bs else b # bs)"

definition trim_trailing_nuls :: "byte list \<Rightarrow> byte list" where
  "trim_trailing_nuls bytes = rev (trim_trailing_nuls_rev (rev bytes))"

definition parse_backend_handshake :: "byte list \<Rightarrow> mariadb_error + backend_handshake" where
  "parse_backend_handshake payload =
     (if length payload < 34 \<or> payload ! 0 \<noteq> 10 then Inl MalformedPacket
      else bind_result (read_null_string payload 1) (\<lambda>(version, o1).
        bind_result (take_bytes payload (o1 + 4) AUTH_SEED_PART_1_LEN) (\<lambda>(part_1, o2).
          bind_result (read_u16_le payload (o2 + 1)) (\<lambda>lower.
            let o3 = o2 + 1 + 2 in
            if length payload \<le> o3
            then Inr \<lparr>bh_auth_seed = part_1, bh_auth_plugin = NATIVE_PASSWORD_PLUGIN\<rparr>
            else let o4 = o3 + (1 + 2) in
              bind_result (read_u16_le payload o4) (\<lambda>upper.
                let o5 = o4 + 2;
                    capabilities = (of_nat lower :: 32 word) OR push_bit 16 (of_nat upper)
                in bind_result (get_byte payload o5) (\<lambda>auth_data_len.
                  let o6 = o5 + (1 + 10);
                      part_2_len = max (unat auth_data_len - AUTH_SEED_PART_1_LEN) 13
                  in bind_result
                    (if o6 < length payload then
                       bind_result
                         (take_bytes payload o6 (min (length payload - o6) part_2_len))
                         (\<lambda>(part_2, o7). Inr (trim_trailing_nuls (part_1 @ part_2), o7))
                     else Inr (part_1, o6)) (\<lambda>(seed, o7).
                       bind_result
                         (if capabilities AND CLIENT_PLUGIN_AUTH \<noteq> 0 \<and> o7 < length payload
                          then read_null_string payload o7
                          else Inr (NATIVE_PASSWORD_PLUGIN, o7)) (\<lambda>(plugin, o8).
                            Inr \<lparr>bh_auth_seed = seed, bh_auth_plugin = plugin\<rparr>))))))))"

definition auth_switch_request :: "byte list \<Rightarrow> backend_handshake option" where
  "auth_switch_request payload =
     (if payload = [] \<or> hd payload \<noteq> 0xfe then None
      else case read_null_string payload 1 of
        Inl e \<Rightarrow> None
      | Inr (plugin, o1) \<Rightarrow>
          if o1 > length payload then None
          else let seed = trim_trailing_nuls (drop o1 payload) in
            if seed = [] then None
            else Some \<lparr>bh_auth_seed = seed, bh_auth_plugin = plugin\<rparr>)"

section \<open>Tokens\<close>

record crypto =
  sha1 :: "byte list \<Rightarrow> byte list"
  sha256 :: "byte list \<Rightarrow> byte list"
  hex_decode_20 :: "byte list \<Rightarrow> byte list option"
  ct_eq :: "byte list \<Rightarrow> byte list \<Rightarrow> bool"

definition xor_bytes :: "byte list \<Rightarrow> byte list \<Rightarrow> byte list" where
  "xor_bytes left right = map2 (\<lambda>a b. a XOR b) left right"

definition native_password_token :: "crypto \<Rightarrow> byte list \<Rightarrow> byte list \<Rightarrow> byte list" where
  "native_password_token cr password seed =
     (if password = [] then []
      else let stage_1 = sha1 cr password; stage_2 = sha1 cr stage_1;
               stage_3 = sha1 cr (seed @ stage_2)
           in xor_bytes stage_1 stage_3)"

definition caching_sha2_password_token :: "crypto \<Rightarrow> byte list \<Rightarrow> byte list \<Rightarrow> byte list" where
  "caching_sha2_password_token cr password seed =
     (if password = [] then []
      else let stage_1 = sha256 cr password; stage_2 = sha256 cr stage_1;
               stage_3 = sha256 cr stage_2
           in xor_bytes stage_1 (sha256 cr (stage_3 @ seed)))"

definition native_password_challenge :: "crypto \<Rightarrow> byte list \<Rightarrow> byte list \<Rightarrow> byte list" where
  "native_password_challenge cr seed stage_2 = sha1 cr (seed @ stage_2)"

definition derive_native_backend_token :: "crypto \<Rightarrow> byte list \<Rightarrow> byte list \<Rightarrow> byte list \<Rightarrow>
    byte list \<Rightarrow> mariadb_error + byte list" where
  "derive_native_backend_token cr client_token gateway_seed backend_seed stage2_hex =
     bind_result (ok_or (hex_decode_20 cr stage2_hex) InvalidNativePasswordVerifier)
       (\<lambda>stage_2.
         if length client_token \<noteq> length stage_2 then Inl AuthenticationFailed
         else let gateway_challenge = native_password_challenge cr gateway_seed stage_2;
                  stage_1 = xor_bytes client_token gateway_challenge;
                  derived_stage_2 = sha1 cr stage_1
              in if \<not> ct_eq cr derived_stage_2 stage_2 then Inl AuthenticationFailed
                 else let backend_challenge = native_password_challenge cr backend_seed stage_2
                      in Inr (xor_bytes stage_1 backend_challenge))"

section \<open>Building handshakes\<close>

definition backend_capabilities :: "32 word" where
  "backend_capabilities = CLIENT_LONG_PASSWORD OR CLIENT_LONG_FLAG OR CLIENT_PROTOCOL_41 OR
     CLIENT_SECURE_CONNECTION OR CLIENT_PLUGIN_AUTH OR CLIENT_CONNECT_WITH_DB OR
     CLIENT_CONNECT_ATTRS"

definition backend_handshake_response :: "crypto \<Rightarrow> backend_handshake \<Rightarrow> mariadb_route \<Rightarrow>
    byte list \<Rightarrow> byte list \<Rightarrow> byte list option \<Rightarrow> mariadb_error + byte list" where
  "backend_handshake_response cr handshake route gateway_seed stage2_hex backend_password =
     bind_result (derive_native_backend_token cr (mr_auth_response route) gateway_seed
         gateway_seed stage2_hex) (\<lambda>_.
       if bh_auth_plugin handshake \<noteq> NATIVE_PASSWORD_PLUGIN
          \<and> bh_auth_plugin handshake \<noteq> CACHING_SHA2_PASSWORD_PLUGIN
       then Inl (UnsupportedBackendAuth (bh_auth_plugin handshake))
       else bind_result
         (if bh_auth_plugin handshake = NATIVE_PASSWORD_PLUGIN
          then derive_native_backend_token cr (mr_auth_response route) gateway_seed
                 (bh_auth_seed handshake) stage2_hex
          else bind_result (ok_or backend_password MissingBackendPassword) (\<lambda>password.
                 Inr (caching_sha2_password_token cr password (bh_auth_seed handshake))))
         (\<lambda>auth_response.
           Inr (le_bytes 4 (unat backend_capabilities) @ le_bytes 4 MAX_PACKET_PAYLOAD_LEN @
                [mr_character_set route] @ replicate 23 0 @ mr_username route @ [0] @
                [of_nat (length auth_response)] @ auth_response @ mr_database route @ [0] @
                bh_auth_plugin handshake @ [0] @ [0])))"

definition backend_auth_switch_response :: "crypto \<Rightarrow> backend_handshake \<Rightarrow> mariadb_route \<Rightarrow>
    byte list \<Rightarrow> byte list \<Rightarrow> byte list option \<Rightarrow> mariadb_error + byte list" where
  "backend_auth_switch_response cr handshake route gateway_seed stage2_hex backend_password =
     (if bh_auth_plugin handshake = NATIVE_PASSWORD_PLUGIN
      then derive_native_backend_token cr (mr_auth_response route) gateway_seed
             (bh_auth_seed handshake) stage2_hex
      else if bh_auth_plugin handshake = CACHING_SHA2_PASSWORD_PLUGIN
      then ok_or (map_option (\<lambda>password.
             caching_sha2_password_token cr password (bh_auth_seed handshake)) backend_password)
             MissingBackendPassword
      else Inl (UnsupportedBackendAuth (bh_auth_plugin handshake)))"

definition caching_sha2_continuation ::
    "byte list \<Rightarrow> mariadb_error + sha2_continuation option" where
  "caching_sha2_continuation payload =
     (if payload = [] \<or> hd payload \<noteq> 1 then Inr None
      else if payload = [1, 3] then Inr (Some FastAuthenticationComplete)
      else if payload = [1, 4] then Inr (Some FullAuthenticationRequired)
      else Inl MalformedPacket)"

definition caching_sha2_plaintext_password :: "byte list \<Rightarrow> mariadb_error + byte list" where
  "caching_sha2_plaintext_password password =
     (if 0 \<in> set password then Inl InvalidBackendPassword else Inr (password @ [0]))"

definition error_packet :: "byte list \<Rightarrow> byte list" where
  "error_packet message = [0xff] @ le_bytes 2 1045 @ ascii ''#28000'' @ message"

definition packet_is_ok :: "byte list \<Rightarrow> bool" where
  "packet_is_ok payload = (payload \<noteq> [] \<and> hd payload = 0)"

definition packet_is_error :: "byte list \<Rightarrow> bool" where
  "packet_is_error payload = (payload \<noteq> [] \<and> hd payload = 0xff)"

text \<open>The seed from a sequence of random blocks: bytes below the largest multiple of the alphabet
  length are mapped, the others are discarded.  Without enough blocks there is no seed.\<close>

fun fill_seed :: "byte list \<Rightarrow> byte list \<Rightarrow> byte list" where
  "fill_seed seed [] = seed"
| "fill_seed seed (b # random) =
     (if unat b < 256 - 256 mod length AUTH_SEED_ALPHABET \<and> length seed < GATEWAY_AUTH_SEED_LEN
      then fill_seed (seed @ [AUTH_SEED_ALPHABET ! (unat b mod length AUTH_SEED_ALPHABET)]) random
      else fill_seed seed random)"

fun new_gateway_auth_seed :: "byte list \<Rightarrow> byte list list \<Rightarrow> byte list option" where
  "new_gateway_auth_seed seed blocks =
     (if length seed < GATEWAY_AUTH_SEED_LEN then
        case blocks of [] \<Rightarrow> None
        | random # blocks' \<Rightarrow> new_gateway_auth_seed (fill_seed seed random) blocks'
      else Some seed)"

declare new_gateway_auth_seed.simps [simp del]

definition gateway_handshake_payload ::
    "byte list \<Rightarrow> gateway_flavor \<Rightarrow> bool \<Rightarrow> mariadb_error + byte list" where
  "gateway_handshake_payload gateway_seed flavor tls_available =
     (if length gateway_seed < GATEWAY_AUTH_SEED_LEN then Inl MalformedPacket
      else let seed_1 = take AUTH_SEED_PART_1_LEN gateway_seed;
               seed_2 = slice gateway_seed AUTH_SEED_PART_1_LEN GATEWAY_AUTH_SEED_LEN;
               base = CLIENT_LONG_PASSWORD OR CLIENT_LONG_FLAG OR CLIENT_PROTOCOL_41 OR
                 CLIENT_SECURE_CONNECTION OR CLIENT_PLUGIN_AUTH OR CLIENT_CONNECT_WITH_DB;
               capabilities = (if tls_available then base OR CLIENT_SSL else base)
           in Inr ([10] @ server_version flavor @ [0] @ le_bytes 4 1 @ seed_1 @ [0] @
                le_bytes 2 (unat (capabilities AND 0xffff)) @ [45] @ [2, 0] @
                le_bytes 2 (unat (drop_bit 16 capabilities)) @
                [of_nat (length seed_1 + length seed_2 + 1)] @ replicate 10 0 @ seed_2 @ [0] @
                NATIVE_PASSWORD_PLUGIN @ [0]))"

definition send_gateway_handshake ::
    "byte list \<Rightarrow> gateway_flavor \<Rightarrow> bool \<Rightarrow> mariadb_error + byte list" where
  "send_gateway_handshake gateway_seed flavor tls_available =
     bind_result (gateway_handshake_payload gateway_seed flavor tls_available) (write_packet 0)"

section \<open>Field lemmas\<close>

lemma first_nul_append: "0 \<notin> set xs \<Longrightarrow> first_nul (xs @ 0 # rest) = Some (length xs)"
  by (induction xs) auto

lemma first_nul_Some: "first_nul xs = Some n \<Longrightarrow> n < length xs \<and> 0 \<notin> set (take n xs)"
  by (induction xs arbitrary: n) (auto split: if_splits)

lemma read_null_string_append:
  "0 \<notin> set xs \<Longrightarrow> valid_utf8 xs \<Longrightarrow>
   read_null_string (pre @ xs @ 0 # rest) (length pre) = Inr (xs, length pre + length xs + 1)"
  by (simp add: read_null_string_def first_nul_append from_utf8_def)

lemma read_null_string_Inr:
  "read_null_string payload offset = Inr (xs, n) \<Longrightarrow> 0 \<notin> set xs \<and> valid_utf8 xs"
  by (auto simp: read_null_string_def Let_def bind_result_Inr from_utf8_def
      dest: first_nul_Some split: if_splits)

lemma read_null_string_length:
  "read_null_string payload offset = Inr (xs, n) \<Longrightarrow> length xs \<le> length payload"
  by (auto simp: read_null_string_def Let_def bind_result_Inr from_utf8_def
      split: if_splits)

lemma get_range_append [simp]:
  "get_range (pre @ xs @ rest) (length pre) (length pre + length xs) = Some xs"
  by (simp add: get_range_def)

lemma take_bytes_append:
  "length pre + length xs \<le> u64_max \<Longrightarrow>
   take_bytes (pre @ xs @ rest) (length pre) (length xs) = Inr (xs, length pre + length xs)"
  by (simp add: take_bytes_def checked_add_def)

section \<open>Tokens\<close>

text \<open>What the gateway relies on of the third-party functions: a SHA-1 digest has 20 bytes, the
  decoder writes 20 bytes, and the constant-time comparison is equality.\<close>

definition crypto_ok :: "crypto \<Rightarrow> bool" where
  "crypto_ok cr \<longleftrightarrow> (\<forall>x. length (sha1 cr x) = 20)
     \<and> (\<forall>h s. hex_decode_20 cr h = Some s \<longrightarrow> length s = 20)
     \<and> (\<forall>a b. ct_eq cr a b \<longleftrightarrow> a = b)"

lemma length_xor_bytes [simp]: "length (xor_bytes a b) = min (length a) (length b)"
  by (simp add: xor_bytes_def)

lemma xor_bytes_cancel: "length a = length b \<Longrightarrow> xor_bytes (xor_bytes a b) b = a"
  by (induction a b rule: list_induct2) (simp_all add: xor_bytes_def xor.assoc)

lemma derive_Inr:
  assumes ok: "crypto_ok cr" and h: "hex_decode_20 cr hx = Some stage_2"
  shows "derive_native_backend_token cr token gs bs hx = Inr out \<longleftrightarrow>
    (\<exists>stage_1. length stage_1 = 20 \<and> sha1 cr stage_1 = stage_2
       \<and> token = xor_bytes stage_1 (native_password_challenge cr gs stage_2)
       \<and> out = xor_bytes stage_1 (native_password_challenge cr bs stage_2))"
proof -
  let ?g = "native_password_challenge cr gs stage_2"
  have len: "length stage_2 = 20" "length ?g = 20"
    using ok h by (auto simp: crypto_ok_def native_password_challenge_def)
  have iff: "derive_native_backend_token cr token gs bs hx = Inr out \<longleftrightarrow>
      length token = 20 \<and> sha1 cr (xor_bytes token ?g) = stage_2
      \<and> out = xor_bytes (xor_bytes token ?g) (native_password_challenge cr bs stage_2)"
    using ok h len by (auto simp: derive_native_backend_token_def crypto_ok_def Let_def)
  show ?thesis
  proof
    assume "derive_native_backend_token cr token gs bs hx = Inr out"
    with iff xor_bytes_cancel [of token ?g] len
    show "\<exists>s. length s = 20 \<and> sha1 cr s = stage_2 \<and> token = xor_bytes s ?g
        \<and> out = xor_bytes s (native_password_challenge cr bs stage_2)"
      by (intro exI [of _ "xor_bytes token ?g"]) simp
  next
    assume "\<exists>s. length s = 20 \<and> sha1 cr s = stage_2 \<and> token = xor_bytes s ?g
        \<and> out = xor_bytes s (native_password_challenge cr bs stage_2)"
    then obtain s where s: "length s = 20" "sha1 cr s = stage_2" "token = xor_bytes s ?g"
        "out = xor_bytes s (native_password_challenge cr bs stage_2)" by blast
    then have "xor_bytes token ?g = s" using xor_bytes_cancel [of s ?g] len by simp
    with s iff len show "derive_native_backend_token cr token gs bs hx = Inr out" by simp
  qed
qed

lemma native_token_derived:
  assumes ok: "crypto_ok cr" and h: "hex_decode_20 cr hx = Some (sha1 cr (sha1 cr password))"
    and p: "password \<noteq> []"
  shows "derive_native_backend_token cr (native_password_token cr password gs) gs bs hx =
    Inr (native_password_token cr password bs)"
  unfolding derive_Inr [OF ok h]
  using ok p by (intro exI [of _ "sha1 cr password"])
    (simp add: crypto_ok_def native_password_token_def native_password_challenge_def Let_def)

lemma derive_length:
  assumes "crypto_ok cr" "derive_native_backend_token cr token gs bs hx = Inr out"
  shows "length out = 20"
proof -
  obtain stage_2 where h: "hex_decode_20 cr hx = Some stage_2"
    using assms(2) by (auto simp: derive_native_backend_token_def bind_result_Inr)
  from assms show ?thesis
    unfolding derive_Inr [OF assms(1) h] by (auto simp: crypto_ok_def native_password_challenge_def)
qed

section \<open>Framing\<close>

lemma le_nat_3:
  "n < 16777216 \<Longrightarrow> le_nat [of_nat n, of_nat (n div 256), of_nat (n div 65536)] = n"
proof -
  assume "n < 16777216"
  then have "le_nat (le_bytes 3 n) = n" by (intro le_nat_bytes) simp
  moreover have "le_bytes 3 n = [of_nat n, of_nat (n div 256), of_nat (n div 65536)]"
    by (simp add: numeral_3_eq_3 div_mult2_eq [symmetric])
  ultimately show ?thesis by simp
qed

lemma frame_roundtrip:
  assumes "write_packet q payload = Inr out"
  shows "read_packet (out @ rest) = Inr (\<lparr>mp_sequence = q, mp_payload = payload\<rparr>, rest)"
proof -
  have len: "length payload < 16777216" and
    out: "out = [of_nat (length payload), of_nat (length payload div 256),
      of_nat (length payload div 65536), q] @ payload"
    using assms by (auto simp: write_packet_def Let_def split: if_splits)
  show ?thesis
    using le_nat_3 [OF len] len
    by (simp add: out read_packet_def read_packet_limited_def Let_def numeral_3_eq_3)
qed

section \<open>The login the gateway sends\<close>

lemma parse_client_route_ok:
  assumes "parse_client_handshake_response payload = Inr route"
  shows "mr_username route \<noteq> []" "0 \<notin> set (mr_username route)" "valid_utf8 (mr_username route)"
    "0 \<notin> set (mr_database route)" "valid_utf8 (mr_database route)"
  using assms
  by (auto simp: parse_client_handshake_response_def elim!: bind_result_InrE
      dest!: read_null_string_Inr split: if_splits)

lemma parse_client_route_length:
  assumes "parse_client_handshake_response payload = Inr route"
  shows "length (mr_username route) \<le> length payload" "length (mr_database route) \<le> length payload"
  using assms
  by (auto simp: parse_client_handshake_response_def elim!: bind_result_InrE
      dest!: read_null_string_length split: if_splits)

lemma backend_capabilities_eq: "backend_capabilities = 1606157"
  by (simp add: backend_capabilities_def client_flags)

lemma NATIVE_PASSWORD_PLUGIN_ok:
  "0 \<notin> set NATIVE_PASSWORD_PLUGIN" "valid_utf8 NATIVE_PASSWORD_PLUGIN"
  by (simp_all add: NATIVE_PASSWORD_PLUGIN_def ascii_def)

lemma parse_login_fields:
  assumes "\<not> length p < 36" "read_u32_le p 0 = Inr backend_capabilities"
    and "read_null_string p 32 = Inr (u, o1)" "u \<noteq> []"
    and "read_auth_response p o1 backend_capabilities = Inr (tok, o2)" "tok \<noteq> []"
    and "read_null_string p o2 = Inr (d, o3)"
    and "read_null_string p o3 = Inr (NATIVE_PASSWORD_PLUGIN, n)" "p ! 8 = cs"
  shows "parse_client_handshake_response p =
    Inr \<lparr>mr_username = u, mr_database = d, mr_auth_response = tok, mr_character_set = cs\<rparr>"
proof -
  have "backend_capabilities AND CLIENT_CONNECT_WITH_DB \<noteq> 0"
    "backend_capabilities AND CLIENT_PLUGIN_AUTH \<noteq> 0"
    by (simp_all add: backend_capabilities_eq client_flags)
  with assms show ?thesis by (simp add: parse_client_handshake_response_def)
qed

text \<open>Parsing a login of the layout the gateway writes.\<close>

lemma parse_login_layout:
  assumes user: "u \<noteq> []" "0 \<notin> set u" "valid_utf8 u" and db: "0 \<notin> set d" "valid_utf8 d"
    and tok: "length tok = 20"
    and len: "length u + length d \<le> 2 ^ 62"
  shows "parse_client_handshake_response (le_bytes 4 (unat backend_capabilities) @
      le_bytes 4 MAX_PACKET_PAYLOAD_LEN @ [cs] @ replicate 23 0 @ u @ [0] @
      [of_nat (length tok)] @ tok @ d @ [0] @ NATIVE_PASSWORD_PLUGIN @ [0] @ [0]) =
    Inr \<lparr>mr_username = u, mr_database = d, mr_auth_response = tok, mr_character_set = cs\<rparr>"
    (is "parse_client_handshake_response ?p = _")
proof -
  let ?head = "le_bytes 4 (unat backend_capabilities) @ le_bytes 4 MAX_PACKET_PAYLOAD_LEN @
    [cs] @ replicate 23 0"
  have caps: "read_u32_le ?p 0 = Inr backend_capabilities"
    using get_range_append [of "[]" "le_bytes 4 (unat backend_capabilities)"]
    by (simp add: read_u32_le_def le_nat_bytes backend_capabilities_eq)
  have "read_null_string (?head @ u @ 0 # [of_nat (length tok)] @ tok @ d @ [0] @
      NATIVE_PASSWORD_PLUGIN @ [0] @ [0]) (length ?head) = Inr (u, length ?head + length u + 1)"
    by (rule read_null_string_append [OF user(2,3)])
  then have user': "read_null_string ?p 32 = Inr (u, 33 + length u)" by simp
  have byte: "get_byte ?p (33 + length u) = Inr (of_nat (length tok))"
    by (simp add: get_byte_def nth_append)
  have "take_bytes ((?head @ u @ 0 # [of_nat (length tok)]) @ tok @ d @ [0] @
      NATIVE_PASSWORD_PLUGIN @ [0] @ [0]) (length (?head @ u @ 0 # [of_nat (length tok)]))
      (length tok) = Inr (tok, length (?head @ u @ 0 # [of_nat (length tok)]) + length tok)"
    using len tok by (intro take_bytes_append) simp
  then have auth: "take_bytes ?p (34 + length u) 20 = Inr (tok, 54 + length u)"
    using tok by simp
  have "read_null_string ((?head @ u @ 0 # [of_nat (length tok)] @ tok) @ d @ 0 #
      NATIVE_PASSWORD_PLUGIN @ [0] @ [0]) (length (?head @ u @ 0 # [of_nat (length tok)] @ tok)) =
      Inr (d, length (?head @ u @ 0 # [of_nat (length tok)] @ tok) + length d + 1)"
    by (rule read_null_string_append [OF db])
  then have db': "read_null_string ?p (54 + length u) = Inr (d, 55 + length u + length d)"
    using tok by simp
  have "read_null_string ((?head @ u @ 0 # [of_nat (length tok)] @ tok @ d @ [0]) @
      NATIVE_PASSWORD_PLUGIN @ 0 # [0])
      (length (?head @ u @ 0 # [of_nat (length tok)] @ tok @ d @ [0])) =
      Inr (NATIVE_PASSWORD_PLUGIN,
        length (?head @ u @ 0 # [of_nat (length tok)] @ tok @ d @ [0])
          + length NATIVE_PASSWORD_PLUGIN + 1)"
    by (rule read_null_string_append [OF NATIVE_PASSWORD_PLUGIN_ok])
  then have plugin: "\<exists>n. read_null_string ?p (55 + length u + length d) =
      Inr (NATIVE_PASSWORD_PLUGIN, n)"
    using tok by (simp add: add.assoc)
  have cs: "?p ! 8 = cs" by (simp add: nth_append)
  have len': "\<not> length ?p < 36" using user(1) tok by (cases u) simp_all
  have u20: "unat (of_nat (length tok) :: byte) = 20" using tok by (simp add: unat_of_nat)
  have auth': "read_auth_response ?p (33 + length u) backend_capabilities =
      Inr (tok, 54 + length u)"
    using byte auth u20
    by (simp add: read_auth_response_def backend_capabilities_eq client_flags)
  obtain n where n: "read_null_string ?p (55 + length u + length d) =
      Inr (NATIVE_PASSWORD_PLUGIN, n)" using plugin by blast
  show ?thesis
    by (rule parse_login_fields [OF len' caps user' user(1) auth' _ db' n cs]) (use tok in auto)
qed

lemma login_forwarded_lemma:
  assumes ok: "crypto_ok cr" and parse: "parse_client_handshake_response p = Inr route"
    and len: "length p \<le> MAX_PACKET_PAYLOAD_LEN"
    and native: "bh_auth_plugin handshake = NATIVE_PASSWORD_PLUGIN"
    and resp: "backend_handshake_response cr handshake route gs hx pw = Inr payload"
  obtains token where
    "derive_native_backend_token cr (mr_auth_response route) gs (bh_auth_seed handshake) hx =
       Inr token"
    "parse_client_handshake_response payload = Inr (route\<lparr>mr_auth_response := token\<rparr>)"
proof -
  from resp native obtain token where
    token: "derive_native_backend_token cr (mr_auth_response route) gs (bh_auth_seed handshake) hx =
       Inr token" and
    payload: "payload = le_bytes 4 (unat backend_capabilities) @
      le_bytes 4 MAX_PACKET_PAYLOAD_LEN @ [mr_character_set route] @ replicate 23 0 @
      mr_username route @ [0] @ [of_nat (length token)] @ token @ mr_database route @ [0] @
      NATIVE_PASSWORD_PLUGIN @ [0] @ [0]"
    by (auto simp: backend_handshake_response_def elim!: bind_result_InrE split: if_splits)
  have "parse_client_handshake_response payload = Inr \<lparr>mr_username = mr_username route,
      mr_database = mr_database route, mr_auth_response = token,
      mr_character_set = mr_character_set route\<rparr>"
    unfolding payload
    using parse_client_route_length [OF parse] len
    by (intro parse_login_layout parse_client_route_ok [OF parse] derive_length [OF ok token]) simp
  with token show ?thesis by (cases route) (intro that; simp)
qed

section \<open>The greeting\<close>

lemma trim_append: "0 \<notin> set xs \<Longrightarrow> trim_trailing_nuls (xs @ [0]) = xs"
proof -
  assume "0 \<notin> set xs"
  then have "trim_trailing_nuls_rev (rev xs) = rev xs" by (cases xs rule: rev_cases) auto
  then show ?thesis by (simp add: trim_trailing_nuls_def)
qed

lemma greeting_layout:
  assumes len: "length seed = GATEWAY_AUTH_SEED_LEN"
    and p: "gateway_handshake_payload seed flavor tls = Inr p"
  shows "\<exists>lower upper. p = 10 # server_version flavor @ 0 # le_bytes 4 1 @ take 8 seed @ 0 #
      le_bytes 2 lower @ [45, 2, 0] @ le_bytes 2 upper @ 21 # replicate 10 0 @ drop 8 seed @ 0 #
      NATIVE_PASSWORD_PLUGIN @ [0]
    \<and> upper = 8 \<and> lower < 65536"
proof -
  have "slice seed 8 20 = drop 8 seed" using len by (simp add: slice_def)
  then show ?thesis
    using p len
    by (cases tls) (auto simp: gateway_handshake_payload_def Let_def client_flags)
qed

lemma server_version_ok: "0 \<notin> set (server_version f)" "valid_utf8 (server_version f)"
  by (cases f; simp add: ascii_def)+

lemma length_server_version: "6 \<le> length (server_version f)" "length (server_version f) \<le> 21"
  by (cases f; simp add: ascii_def)+

lemma le_bytes_2: "le_bytes 2 n = [of_nat n, of_nat (n div 256)]"
  by (simp add: numeral_2_eq_2)

lemma read_u16_append:
  "n < 65536 \<Longrightarrow> read_u16_le (pre @ le_bytes 2 n @ rest) (length pre) = Inr n"
  using get_range_append [of pre "le_bytes 2 n" rest] le_nat_bytes [of n 2]
  by (simp add: read_u16_le_def)

lemma parse_greeting_fields:
  assumes "34 \<le> length p" "p ! 0 = 10"
    and "read_null_string p 1 = Inr (v, o1)" "take_bytes p (o1 + 4) 8 = Inr (s1, o2)"
    and "read_u16_le p (o2 + 1) = Inr lower" "read_u16_le p (o2 + 1 + 2 + (1 + 2)) = Inr 8"
    and "get_byte p (o2 + 1 + 2 + (1 + 2) + 2) = Inr 21"
    and "take_bytes p (o2 + 1 + 2 + (1 + 2) + 2 + (1 + 10)) 13 = Inr (s2 @ [0], o7)"
    and "o2 + 1 + 2 + (1 + 2) + 2 + (1 + 10) + 13 \<le> length p"
    and "read_null_string p o7 = Inr (NATIVE_PASSWORD_PLUGIN, n)" "o7 < length p"
    and "0 \<notin> set s1" "0 \<notin> set s2"
  shows "parse_backend_handshake p =
    Inr \<lparr>bh_auth_seed = s1 @ s2, bh_auth_plugin = NATIVE_PASSWORD_PLUGIN\<rparr>"
proof -
  let ?o6 = "o2 + 1 + 2 + (1 + 2) + 2 + (1 + 10)"
  have bit: "((of_nat lower :: 32 word) OR push_bit 16 (of_nat 8)) AND CLIENT_PLUGIN_AUTH \<noteq> 0"
  proof -
    have "bit (((of_nat lower :: 32 word) OR push_bit 16 (of_nat 8)) AND CLIENT_PLUGIN_AUTH) 19"
      by (simp add: client_flags bit_simps push_bit_eq_mult)
    then show ?thesis by auto
  qed
  have "min (length p - ?o6) (max (unat (21 :: byte) - 8) 13) = 13" using assms(9) by simp
  moreover have "trim_trailing_nuls (s1 @ s2 @ [0]) = s1 @ s2"
    using trim_append [of "s1 @ s2"] assms(12,13) by simp
  ultimately show ?thesis
    using assms bit by (simp add: parse_backend_handshake_def Let_def)
qed

lemma parse_greeting_layout:
  assumes v: "0 \<notin> set v" "valid_utf8 v" "6 \<le> length v" "length v \<le> 21"
    and s: "length s1 = 8" "length s2 = 12" "0 \<notin> set s1" "0 \<notin> set s2"
    and c: "lower < 65536"
  shows "parse_backend_handshake (10 # v @ 0 # le_bytes 4 1 @ s1 @ 0 #
      le_bytes 2 lower @ [45, 2, 0] @ le_bytes 2 8 @ 21 # replicate 10 0 @ s2 @ 0 #
      NATIVE_PASSWORD_PLUGIN @ [0]) =
    Inr \<lparr>bh_auth_seed = s1 @ s2, bh_auth_plugin = NATIVE_PASSWORD_PLUGIN\<rparr>"
    (is "parse_backend_handshake ?p = _")
proof -
  let ?n = "length v"
  let ?a = "10 # v @ 0 # le_bytes 4 1"
  let ?b = "?a @ s1 @ [0]"
  let ?c = "?b @ le_bytes 2 lower @ [45, 2, 0]"
  let ?d = "?c @ le_bytes 2 8 @ 21 # replicate 10 0"
  have version: "read_null_string ?p 1 = Inr (v, ?n + 2)"
    using read_null_string_append [OF v(1,2), of "[10]"] by simp
  have part1: "take_bytes ?p (?n + 2 + 4) 8 = Inr (s1, ?n + 14)"
    using take_bytes_append [of ?a s1] v(4) s(1) by simp
  have lower: "read_u16_le ?p (?n + 14 + 1) = Inr lower"
    using read_u16_append [OF c, of ?b] s(1) by simp
  have upper: "read_u16_le ?p (?n + 14 + 1 + 2 + (1 + 2)) = Inr 8"
    using read_u16_append [of 8 ?c] s(1) by simp
  have adl: "get_byte ?p (?n + 22) = Inr 21"
    using s(1) by (simp add: get_byte_def nth_append)
  have p': "?p = ?d @ (s2 @ [0]) @ NATIVE_PASSWORD_PLUGIN @ [0]" by simp
  have len: "length ?p = ?n + 33 + 13 + 22"
    using s by (simp add: NATIVE_PASSWORD_PLUGIN_def ascii_def)
  have part2: "take_bytes ?p (?n + 33) 13 = Inr (s2 @ [0], ?n + 46)"
    using take_bytes_append [of ?d "s2 @ [0]" "NATIVE_PASSWORD_PLUGIN @ [0]"] v(4) s
    by (simp add: add.commute [of "length v"])
  have "read_null_string ((?d @ s2 @ [0]) @ NATIVE_PASSWORD_PLUGIN @ 0 # [])
      (length (?d @ s2 @ [0])) =
      Inr (NATIVE_PASSWORD_PLUGIN, length (?d @ s2 @ [0]) + length NATIVE_PASSWORD_PLUGIN + 1)"
    by (rule read_null_string_append [OF NATIVE_PASSWORD_PLUGIN_ok])
  then have plugin: "\<exists>n. read_null_string ?p (?n + 46) = Inr (NATIVE_PASSWORD_PLUGIN, n)"
    using s by (simp add: add.commute [of "length v"])
  then obtain n where n: "read_null_string ?p (?n + 46) = Inr (NATIVE_PASSWORD_PLUGIN, n)" by blast
  have e: "?n + 14 + 1 + 2 + (1 + 2) + 2 = ?n + 22" "?n + 22 + (1 + 10) = ?n + 33" by simp_all
  show ?thesis
  proof (rule parse_greeting_fields [OF _ _ version part1 lower upper _ _ _ n])
    show "get_byte ?p (?n + 14 + 1 + 2 + (1 + 2) + 2) = Inr 21" unfolding e by (rule adl)
    show "take_bytes ?p (?n + 14 + 1 + 2 + (1 + 2) + 2 + (1 + 10)) 13 = Inr (s2 @ [0], ?n + 46)"
      unfolding e by (rule part2)
  qed (use len s in simp_all)
qed

lemma fill_seed_alphabet:
  "set (fill_seed seed random) \<subseteq> set seed \<union> set AUTH_SEED_ALPHABET
   \<and> (length seed \<le> GATEWAY_AUTH_SEED_LEN \<longrightarrow>
      length (fill_seed seed random) \<le> GATEWAY_AUTH_SEED_LEN)"
proof (induction seed random rule: fill_seed.induct)
  case (2 seed b random)
  have "AUTH_SEED_ALPHABET ! (unat b mod length AUTH_SEED_ALPHABET) \<in> set AUTH_SEED_ALPHABET"
    by (rule nth_mem) (simp add: AUTH_SEED_ALPHABET_def ascii_def)
  with 2 show ?case by auto
qed simp

lemma new_seed_alphabet:
  assumes "new_gateway_auth_seed seed blocks = Some s" "length seed \<le> GATEWAY_AUTH_SEED_LEN"
    and "set seed \<subseteq> set AUTH_SEED_ALPHABET"
  shows "length s = GATEWAY_AUTH_SEED_LEN \<and> set s \<subseteq> set AUTH_SEED_ALPHABET"
  using assms
proof (induction seed blocks rule: new_gateway_auth_seed.induct)
  case (1 seed blocks)
  show ?case
  proof (cases "length seed < GATEWAY_AUTH_SEED_LEN")
    case True
    then obtain random blocks' where b: "blocks = random # blocks'"
        "new_gateway_auth_seed (fill_seed seed random) blocks' = Some s"
      using 1(2) by (auto simp: new_gateway_auth_seed.simps [of seed] split: list.splits)
    show ?thesis
      using 1(1) [OF True b(1) b(2)] fill_seed_alphabet [of seed random] 1(3,4) by blast
  next
    case False
    then show ?thesis using 1(2-4) by (simp add: new_gateway_auth_seed.simps [of seed])
  qed
qed

lemma alphabet_no_nul: "0 \<notin> set AUTH_SEED_ALPHABET"
  by (simp add: AUTH_SEED_ALPHABET_def ascii_def)

section \<open>A concrete instance of the third-party functions\<close>

definition ex_crypto :: crypto where
  "ex_crypto = \<lparr>sha1 = (\<lambda>x. take 20 (x @ replicate 20 7)), sha256 = (\<lambda>x. take 32 (x @ replicate 32 7)),
     hex_decode_20 = (\<lambda>h. if length h = 20 then Some h else None), ct_eq = (=)\<rparr>"

lemma ex_crypto_ok: "crypto_ok ex_crypto"
  by (auto simp: crypto_ok_def ex_crypto_def min_def)

section \<open>Properties\<close>

text \<open>C27: the gateway logs in for the client without knowing the password.  If the stored verifier
  belongs to a password and the client answered the gateway's seed with that password's token,
  the token derived for the backend is the token of the same password for the backend's seed.\<close>

theorem backend_token_transparent:
  assumes "crypto_ok cr" "password \<noteq> []"
    and "hex_decode_20 cr stage2_hex = Some (sha1 cr (sha1 cr password))"
    and "client_token = native_password_token cr password gateway_seed"
  shows "derive_native_backend_token cr client_token gateway_seed backend_seed stage2_hex =
    Inr (native_password_token cr password backend_seed)"
  using native_token_derived assms by simp

theorem backend_token_transparent_witness:
  "derive_native_backend_token ex_crypto (native_password_token ex_crypto [1] [5]) [5] [6]
     (sha1 ex_crypto (sha1 ex_crypto [1])) = Inr (native_password_token ex_crypto [1] [6])"
  by (rule backend_token_transparent [OF ex_crypto_ok]) (simp_all add: ex_crypto_def)

text \<open>C28: nobody is logged in without proving the password: a token is derived exactly when the
  client's token hides, under the gateway's challenge, a 20-byte preimage of the verifier, and
  the derived token hides the same preimage under the backend's challenge.\<close>

theorem token_needs_preimage:
  assumes "crypto_ok cr" "hex_decode_20 cr stage2_hex = Some verifier"
  shows "derive_native_backend_token cr client_token gateway_seed backend_seed stage2_hex = Inr out
    \<longleftrightarrow> (\<exists>stage_1. length stage_1 = 20 \<and> sha1 cr stage_1 = verifier
      \<and> client_token = xor_bytes stage_1 (native_password_challenge cr gateway_seed verifier)
      \<and> out = xor_bytes stage_1 (native_password_challenge cr backend_seed verifier))"
  by (rule derive_Inr [OF assms])

theorem token_needs_preimage_witness:
  "derive_native_backend_token ex_crypto (replicate 20 0) [5] [6] (replicate 20 9) \<noteq> Inr []"
proof
  assume "derive_native_backend_token ex_crypto (replicate 20 0) [5] [6] (replicate 20 9) = Inr []"
  moreover have "hex_decode_20 ex_crypto (replicate 20 9) = Some (replicate 20 9)"
    by (simp add: ex_crypto_def)
  ultimately have "\<exists>s. length s = 20 \<and> xor_bytes s
      (native_password_challenge ex_crypto [6] (replicate 20 9)) = []"
    using token_needs_preimage [OF ex_crypto_ok] by (metis (no_types, lifting))
  then show False
    by (auto simp: xor_bytes_def native_password_challenge_def ex_crypto_def)
qed

text \<open>Packet framing round-trips: what \<open>write_packet\<close> writes, \<open>read_packet\<close> reads back with the
  same sequence number and payload, leaving the bytes behind it unread.\<close>

theorem packet_roundtrip:
  assumes "write_packet sequence payload = Inr out"
  shows "read_packet (out @ rest) = Inr (\<lparr>mp_sequence = sequence, mp_payload = payload\<rparr>, rest)"
  by (rule frame_roundtrip [OF assms])

theorem packet_roundtrip_witness:
  "read_packet ([3, 0, 0, 1, 7, 8, 9] @ [4]) =
     Inr (\<lparr>mp_sequence = 1, mp_payload = [7, 8, 9]\<rparr>, [4])"
  by (rule packet_roundtrip) (simp add: write_packet_def Let_def)

text \<open>C29: the login the gateway sends to a native-password backend is the client's login: parsed by
  the same rules it names the same user, database and character set, and carries the token
  derived for the backend.\<close>

theorem login_forwarded:
  assumes "crypto_ok cr" "parse_client_handshake_response client = Inr route"
    and "length client \<le> MAX_PACKET_PAYLOAD_LEN"
    and "bh_auth_plugin handshake = NATIVE_PASSWORD_PLUGIN"
    and "backend_handshake_response cr handshake route gateway_seed stage2_hex password =
      Inr payload"
  shows "\<exists>token. derive_native_backend_token cr (mr_auth_response route) gateway_seed
      (bh_auth_seed handshake) stage2_hex = Inr token
    \<and> parse_client_handshake_response payload = Inr (route\<lparr>mr_auth_response := token\<rparr>)"
  by (rule login_forwarded_lemma [OF assms]) blast

definition ex_token :: "byte list" where
  "ex_token = native_password_token ex_crypto [1] [5]"

definition ex_login :: mariadb_route where
  "ex_login = \<lparr>mr_username = [65], mr_database = [66], mr_auth_response = ex_token,
     mr_character_set = 45\<rparr>"

definition ex_login_bytes :: "byte list" where
  "ex_login_bytes = le_bytes 4 (unat backend_capabilities) @ le_bytes 4 MAX_PACKET_PAYLOAD_LEN @
     [45] @ replicate 23 0 @ [65] @ [0] @ [of_nat (length ex_token)] @ ex_token @ [66] @ [0] @
     NATIVE_PASSWORD_PLUGIN @ [0] @ [0]"

lemma ex_login_parse: "parse_client_handshake_response ex_login_bytes = Inr ex_login"
proof -
  have "length ex_token = 20"
    by (simp add: ex_token_def native_password_token_def ex_crypto_def xor_bytes_def)
  then show ?thesis unfolding ex_login_bytes_def ex_login_def by (intro parse_login_layout) simp_all
qed

theorem login_forwarded_witness:
  "\<exists>payload token. backend_handshake_response ex_crypto
       \<lparr>bh_auth_seed = [6], bh_auth_plugin = NATIVE_PASSWORD_PLUGIN\<rparr> ex_login [5]
       (sha1 ex_crypto (sha1 ex_crypto [1])) None = Inr payload
     \<and> parse_client_handshake_response payload = Inr (ex_login\<lparr>mr_auth_response := token\<rparr>)"
proof -
  let ?h = "\<lparr>bh_auth_seed = [6], bh_auth_plugin = NATIVE_PASSWORD_PLUGIN\<rparr>"
  let ?hx = "sha1 ex_crypto (sha1 ex_crypto [1])"
  have d: "derive_native_backend_token ex_crypto ex_token [5] bs ?hx =
      Inr (native_password_token ex_crypto [1] bs)" for bs
    unfolding ex_token_def by (rule native_token_derived [OF ex_crypto_ok])
      (simp_all add: ex_crypto_def)
  then obtain payload where p: "backend_handshake_response ex_crypto ?h ex_login [5] ?hx None =
      Inr payload"
    by (simp add: backend_handshake_response_def ex_login_def)
  have "length ex_login_bytes \<le> MAX_PACKET_PAYLOAD_LEN"
    by (simp add: ex_login_bytes_def ex_token_def native_password_token_def ex_crypto_def
        xor_bytes_def NATIVE_PASSWORD_PLUGIN_def ascii_def)
  from login_forwarded [OF ex_crypto_ok ex_login_parse this _ p] p show ?thesis by auto
qed

text \<open>C40: the greeting round-trips: whatever random bytes the seed was drawn from, a client that
  parses the gateway's greeting finds the seed and the native-password plugin in it.\<close>

theorem greeting_roundtrip:
  assumes "new_gateway_auth_seed [] blocks = Some seed"
    and "gateway_handshake_payload seed flavor tls = Inr payload"
  shows "parse_backend_handshake payload =
    Inr \<lparr>bh_auth_seed = seed, bh_auth_plugin = NATIVE_PASSWORD_PLUGIN\<rparr>"
proof -
  have s: "length seed = GATEWAY_AUTH_SEED_LEN" "0 \<notin> set seed"
    using new_seed_alphabet [OF assms(1)] alphabet_no_nul by auto
  obtain lower where p: "payload = 10 # server_version flavor @ 0 # le_bytes 4 1 @ take 8 seed @
      0 # le_bytes 2 lower @ [45, 2, 0] @ le_bytes 2 8 @ 21 # replicate 10 0 @ drop 8 seed @ 0 #
      NATIVE_PASSWORD_PLUGIN @ [0]" and lower: "lower < 65536"
    using greeting_layout [OF s(1) assms(2)] by blast
  have "0 \<notin> set (take 8 seed)" "0 \<notin> set (drop 8 seed)"
    using s(2) by (auto dest: in_set_takeD in_set_dropD)
  then have "parse_backend_handshake payload =
      Inr \<lparr>bh_auth_seed = take 8 seed @ drop 8 seed, bh_auth_plugin = NATIVE_PASSWORD_PLUGIN\<rparr>"
    unfolding p using s(1) lower
    by (intro parse_greeting_layout server_version_ok length_server_version) simp_all
  then show ?thesis by simp
qed

theorem greeting_roundtrip_witness:
  "\<exists>payload. gateway_handshake_payload (replicate 20 49) FlavorMysql True = Inr payload
     \<and> parse_backend_handshake payload =
         Inr \<lparr>bh_auth_seed = replicate 20 49, bh_auth_plugin = NATIVE_PASSWORD_PLUGIN\<rparr>"
proof -
  have alphabet: "length AUTH_SEED_ALPHABET = 62" "AUTH_SEED_ALPHABET ! 1 = 49"
    by (simp_all add: AUTH_SEED_ALPHABET_def ascii_def)
  have fill: "length s + n \<le> 20 \<Longrightarrow> fill_seed s (replicate n 1) = s @ replicate n 49" for s n
    using alphabet by (induction n arbitrary: s) simp_all
  have "fill_seed [] (replicate 20 1) = replicate 20 49" using fill [of "[]" 20] by simp
  then have "new_gateway_auth_seed [] [replicate 20 1] = Some (replicate 20 49)"
    by (simp add: new_gateway_auth_seed.simps)
  moreover obtain payload where
    "gateway_handshake_payload (replicate 20 49) FlavorMysql True = Inr payload"
    by (simp add: gateway_handshake_payload_def Let_def)
  ultimately show ?thesis using greeting_roundtrip by blast
qed

end
