(* ===== verification/MongoWire.thy ===== *)
theory MongoWire
  imports Bytes
begin

unbundle bit_operations_syntax

text \<open>
  The authentication phase of a MongoDB connection (\<open>gateway/protocols/mongodb.rs\<close>): wire
  messages, the identity in a SCRAM start or a speculative hello, the check that a continuation
  keeps it, and the reading of authentication replies.

  BSON documents are values of a third-party library: their type is the parameter \<open>'d\<close>, and the
  operations the gateway calls on them are the functions of a record \<open>bson_api\<close>.  The variants
  of \<open>bson\<close> are the ones the gateway distinguishes.
\<close>

section \<open>Documents\<close>

text \<open>A double is its IEEE 754 bit pattern.\<close>

datatype 'd bson = BInt32 int | BInt64 int | BDouble "64 word" | BString "byte list"
  | BBoolean bool | BDocument 'd | BBinaryGeneric "byte list" | BArray "'d bson list"
  | BDateTime int | BOther

record 'd bson_api =
  doc_from_reader :: "byte list \<Rightarrow> 'd option"
  doc_to_vec :: "'d \<Rightarrow> byte list option"
  doc_get :: "'d \<Rightarrow> byte list \<Rightarrow> 'd bson option"
  doc_first_key :: "'d \<Rightarrow> byte list option"
  doc_insert :: "'d \<Rightarrow> byte list \<Rightarrow> 'd bson \<Rightarrow> 'd"
  doc_new :: 'd

text \<open>What the gateway relies on: reading from a reader consumes one document and gives back the
  one that was written, whatever follows it.\<close>

definition bson_reads_back :: "'d bson_api \<Rightarrow> bool" where
  "bson_reads_back api =
     (\<forall>d bytes rest. doc_to_vec api d = Some bytes \<longrightarrow> doc_from_reader api (bytes @ rest) = Some d)"

text \<open>The typed readers and the \<open>doc!\<close> literal, in terms of them.\<close>

definition contains_key :: "'d bson_api \<Rightarrow> 'd \<Rightarrow> byte list \<Rightarrow> bool" where
  "contains_key api d key = (doc_get api d key \<noteq> None)"

definition get_str :: "'d bson_api \<Rightarrow> 'd \<Rightarrow> byte list \<Rightarrow> byte list option" where
  "get_str api d key = (case doc_get api d key of Some (BString s) \<Rightarrow> Some s | _ \<Rightarrow> None)"

definition get_bool :: "'d bson_api \<Rightarrow> 'd \<Rightarrow> byte list \<Rightarrow> bool option" where
  "get_bool api d key = (case doc_get api d key of Some (BBoolean b) \<Rightarrow> Some b | _ \<Rightarrow> None)"

definition get_binary_generic :: "'d bson_api \<Rightarrow> 'd \<Rightarrow> byte list \<Rightarrow> byte list option" where
  "get_binary_generic api d key =
     (case doc_get api d key of Some (BBinaryGeneric b) \<Rightarrow> Some b | _ \<Rightarrow> None)"

definition doc_literal :: "'d bson_api \<Rightarrow> (byte list \<times> 'd bson) list \<Rightarrow> 'd" where
  "doc_literal api kvs = foldl (\<lambda>d (key, v). doc_insert api d key v) (doc_new api) kvs"

definition f64_is_finite :: "64 word \<Rightarrow> bool" where
  "f64_is_finite w = (drop_bit 52 w AND 2047 \<noteq> 2047)"

definition f64_is_zero :: "64 word \<Rightarrow> bool" where
  "f64_is_zero w = (w = 0 \<or> w = 9223372036854775808)"

abbreviation f64_one :: "64 word" where
  "f64_one \<equiv> 4607182418800017408"

section \<open>Messages\<close>

abbreviation OP_MSG :: int where "OP_MSG \<equiv> 2013"
abbreviation OP_REPLY :: int where "OP_REPLY \<equiv> 1"
abbreviation OP_QUERY :: int where "OP_QUERY \<equiv> 2004"

abbreviation MAX_WIRE_MESSAGE_BYTES :: nat where
  "MAX_WIRE_MESSAGE_BYTES \<equiv> 48000000"

abbreviation MAX_BUFFERED_MESSAGE_BYTES :: nat where
  "MAX_BUFFERED_MESSAGE_BYTES \<equiv> 16777216"

abbreviation MESSAGE_HEADER_LEN :: nat where
  "MESSAGE_HEADER_LEN \<equiv> 16"

record mongodb_route =
  gr_username :: "byte list"
  gr_database :: "byte list"

datatype auth_state = SpeculativeFallback | Continue | Authenticated | Rejected

record 'd mongo_message =
  mm_request_id :: int
  mm_op_code :: int
  mm_body :: "'d option"
  mm_raw :: "byte list"

datatype mongodb_error = Io | MalformedMessage | MessageTooLarge | UnsupportedOpcode int
  | MissingDatabase | MissingUsername | InvalidHelloRoute | AuthIdentityChanged
  | InvalidAuthResponse | BsonDecode | BsonEncode

text \<open>The little-endian bytes of an \<open>i32\<close>.\<close>

definition i32_bytes :: "int \<Rightarrow> byte list" where
  "i32_bytes i = le_bytes 4 (nat (i mod 4294967296))"

definition i32_at :: "byte list \<Rightarrow> nat \<Rightarrow> int" where
  "i32_at bytes offset = signed32 (le_nat (slice bytes offset (offset + 4)))"

text \<open>The sections of an \<open>OP_MSG\<close>: skip document sequences up to the first body.\<close>

function op_msg_section :: "'d bson_api \<Rightarrow> byte list \<Rightarrow> nat \<Rightarrow> mongodb_error + 'd" where
  "op_msg_section api payload offset =
     (if offset < length payload then
        let kind = payload ! offset; o1 = offset + 1 in
        if kind = 0 then ok_or (doc_from_reader api (drop o1 payload)) BsonDecode
        else if kind = 1 then
          if o1 + 4 > length payload then Inl MalformedMessage
          else let size = i32_at payload o1 in
            if size \<le> 4 then Inl MalformedMessage
            else case checked_add o1 (nat size) of
              None \<Rightarrow> Inl MalformedMessage
            | Some o2 \<Rightarrow> op_msg_section api payload o2
        else Inl MalformedMessage
      else Inl MalformedMessage)"
  by pat_completeness auto
termination
  by (relation "measure (\<lambda>(api, payload, offset). length payload - offset)")
    (auto simp: checked_add_Some)

declare op_msg_section.simps [simp del]

definition parse_op_msg_body :: "'d bson_api \<Rightarrow> byte list \<Rightarrow> mongodb_error + 'd" where
  "parse_op_msg_body api payload =
     (if length payload < 5 then Inl MalformedMessage else op_msg_section api payload 4)"

fun nul_index :: "byte list \<Rightarrow> nat option" where
  "nul_index [] = None"
| "nul_index (b # bs) = (if b = 0 then Some 0 else map_option Suc (nul_index bs))"

definition parse_op_query_body :: "'d bson_api \<Rightarrow> byte list \<Rightarrow> mongodb_error + 'd" where
  "parse_op_query_body api payload =
     (if length payload < 12 then Inl MalformedMessage
      else case nul_index (drop 4 payload) of
        None \<Rightarrow> Inl MalformedMessage
      | Some collection_len \<Rightarrow>
          let offset = 4 + (collection_len + 1) + 8 in
          if offset \<ge> length payload then Inl MalformedMessage
          else ok_or (doc_from_reader api (drop offset payload)) BsonDecode)"

definition read_message_limited ::
    "'d bson_api \<Rightarrow> byte list \<Rightarrow> nat \<Rightarrow> mongodb_error + ('d mongo_message \<times> byte list)" where
  "read_message_limited api stream max_message_size =
     (if length stream < 4 then Inl Io
      else let len = signed32 (le_nat (take 4 stream)) in
        if len < int MESSAGE_HEADER_LEN then Inl MalformedMessage
        else let n = nat len in
          if n > min max_message_size MAX_BUFFERED_MESSAGE_BYTES then Inl MessageTooLarge
          else if length stream < n then Inl Io
          else let raw = take n stream; op_code = i32_at raw 12;
                   payload = drop MESSAGE_HEADER_LEN raw
               in bind_result
                 (if op_code = OP_MSG then map_sum id Some (parse_op_msg_body api payload)
                  else if op_code = OP_QUERY
                  then map_sum id Some (parse_op_query_body api payload)
                  else Inr None) (\<lambda>body.
                    Inr (\<lparr>mm_request_id = i32_at raw 4, mm_op_code = op_code, mm_body = body,
                          mm_raw = raw\<rparr>, drop n stream)))"

definition read_message ::
    "'d bson_api \<Rightarrow> byte list \<Rightarrow> mongodb_error + ('d mongo_message \<times> byte list)" where
  "read_message api stream = read_message_limited api stream MAX_BUFFERED_MESSAGE_BYTES"

definition write_op_msg_response :: "'d bson_api \<Rightarrow> int \<Rightarrow> 'd \<Rightarrow> mongodb_error + byte list" where
  "write_op_msg_response api response_to body =
     bind_result (ok_or (doc_to_vec api body) BsonEncode) (\<lambda>doc_bytes.
       let payload = i32_bytes 0 @ [0] @ doc_bytes;
           len = MESSAGE_HEADER_LEN + length payload
       in Inr (i32_bytes (int len) @ i32_bytes 1 @ i32_bytes response_to @ i32_bytes OP_MSG @
            payload))"

definition write_op_reply_response :: "'d bson_api \<Rightarrow> int \<Rightarrow> 'd \<Rightarrow> mongodb_error + byte list" where
  "write_op_reply_response api response_to body =
     bind_result (ok_or (doc_to_vec api body) BsonEncode) (\<lambda>doc_bytes.
       let len = MESSAGE_HEADER_LEN + 20 + length doc_bytes
       in Inr (i32_bytes (int len) @ i32_bytes 1 @ i32_bytes response_to @ i32_bytes OP_REPLY @
            i32_bytes 0 @ replicate 8 0 @ i32_bytes 0 @ i32_bytes 1 @ doc_bytes))"

definition write_response ::
    "'d bson_api \<Rightarrow> 'd mongo_message \<Rightarrow> 'd \<Rightarrow> mongodb_error + byte list" where
  "write_response api request body =
     (if mm_op_code request = OP_MSG
      then write_op_msg_response api (mm_request_id request) body
      else if mm_op_code request = OP_QUERY
      then write_op_reply_response api (mm_request_id request) body
      else Inl (UnsupportedOpcode (mm_op_code request)))"

definition relay_auth_response :: "'d bson_api \<Rightarrow> 'd mongo_message \<Rightarrow> 'd mongo_message \<Rightarrow> bool \<Rightarrow>
    mongodb_error + byte list" where
  "relay_auth_response api request response speculative =
     (if \<not> speculative then Inr (mm_raw response)
      else bind_result (ok_or (mm_body response) InvalidAuthResponse) (\<lambda>body.
        write_response api request (doc_insert api body (ascii ''compression'') (BArray []))))"

definition encode_command :: "'d bson_api \<Rightarrow> 'd \<Rightarrow> mongodb_error + byte list" where
  "encode_command api body =
     bind_result (ok_or (doc_to_vec api body) BsonEncode) (\<lambda>doc_bytes.
       let len = MESSAGE_HEADER_LEN + 5 + length doc_bytes
       in if len > u64_max \<or> len > 2147483647 then Inl MessageTooLarge
          else Inr (i32_bytes (int len) @ i32_bytes 1 @ i32_bytes 0 @ i32_bytes OP_MSG @
                 i32_bytes 0 @ [0] @ doc_bytes))"

section \<open>Identities\<close>

definition command_name :: "'d bson_api \<Rightarrow> 'd mongo_message \<Rightarrow> byte list option" where
  "command_name api message = Option.bind (mm_body message) (doc_first_key api)"

definition is_hello :: "'d bson_api \<Rightarrow> 'd mongo_message \<Rightarrow> bool" where
  "is_hello api message = (command_name api message \<in>
     {Some (ascii ''hello''), Some (ascii ''isMaster''), Some (ascii ''ismaster'')})"

definition is_enabled_flag :: "'d bson option \<Rightarrow> bool" where
  "is_enabled_flag v = (v = Some (BInt32 1) \<or> v = Some (BInt64 1))"

fun split_comma :: "byte list \<Rightarrow> byte list list" where
  "split_comma [] = [[]]"
| "split_comma (b # bs) =
     (if b = 44 then [] # split_comma bs
      else case split_comma bs of [] \<Rightarrow> [[b]] | part # parts \<Rightarrow> (b # part) # parts)"

text \<open>\<open>str::replace\<close> of a three-byte pattern by one byte: left to right, without overlaps.\<close>

fun replace3 :: "byte \<Rightarrow> byte \<Rightarrow> byte \<Rightarrow> byte \<Rightarrow> byte list \<Rightarrow> byte list" where
  "replace3 x y z w (a # b # c # rest) =
     (if a = x \<and> b = y \<and> c = z then w # replace3 x y z w rest
      else a # replace3 x y z w (b # c # rest))"
| "replace3 x y z w bs = bs"

definition unescape_scram_username :: "byte list \<Rightarrow> byte list" where
  "unescape_scram_username v = replace3 61 51 68 61 (replace3 61 50 67 44 v)"

fun first_username :: "byte list list \<Rightarrow> byte list option" where
  "first_username [] = None"
| "first_username (part # parts) =
     (if take 2 part = [110, 61] then Some (unescape_scram_username (drop 2 part))
      else first_username parts)"

definition scram_username :: "byte list \<Rightarrow> byte list option" where
  "scram_username first_message = first_username (split_comma first_message)"

definition parse_scram_route ::
    "'d bson_api \<Rightarrow> 'd \<Rightarrow> byte list \<Rightarrow> mongodb_error + mongodb_route" where
  "parse_scram_route api body database_field =
     bind_result (ok_or (get_str api body database_field) MissingDatabase) (\<lambda>database.
       bind_result (ok_or (get_binary_generic api body (ascii ''payload'')) MissingUsername)
         (\<lambda>payload.
           bind_result (ok_or (from_utf8 payload) MalformedMessage) (\<lambda>first_message.
             bind_result (ok_or (scram_username first_message) MissingUsername) (\<lambda>username.
               Inr \<lparr>gr_username = username, gr_database = database\<rparr>))))"

definition is_ascii_alphabetic :: "byte \<Rightarrow> bool" where
  "is_ascii_alphabetic b = (65 \<le> b \<and> b \<le> 90 \<or> 97 \<le> b \<and> b \<le> 122)"

definition is_ascii_alphanumeric :: "byte \<Rightarrow> bool" where
  "is_ascii_alphanumeric b = (is_ascii_alphabetic b \<or> 48 \<le> b \<and> b \<le> 57)"

definition valid_managed_identifier :: "byte list \<Rightarrow> bool" where
  "valid_managed_identifier v =
     (case v of [] \<Rightarrow> False
      | first # rest \<Rightarrow> length v \<le> 63 \<and> is_ascii_alphabetic first
          \<and> list_all (\<lambda>b. is_ascii_alphanumeric b \<or> b = 95 \<or> b = 45) rest)"

definition validate_managed_route :: "mongodb_route \<Rightarrow> mongodb_error + unit" where
  "validate_managed_route route =
     (if valid_managed_identifier (gr_username route)
         \<and> valid_managed_identifier (gr_database route)
      then Inr () else Inl InvalidHelloRoute)"

definition parse_sasl_start_route ::
    "'d bson_api \<Rightarrow> 'd mongo_message \<Rightarrow> mongodb_error + mongodb_route" where
  "parse_sasl_start_route api message =
     (if mm_op_code message \<noteq> OP_MSG \<and> mm_op_code message \<noteq> OP_QUERY
      then Inl (UnsupportedOpcode (mm_op_code message))
      else bind_result (ok_or (mm_body message) MalformedMessage) (\<lambda>body.
        if \<not> is_enabled_flag (doc_get api body (ascii ''saslStart'')) then Inl MalformedMessage
        else parse_scram_route api body (ascii ''$db'')))"

definition parse_speculative_route ::
    "'d bson_api \<Rightarrow> 'd \<Rightarrow> mongodb_error + mongodb_route option" where
  "parse_speculative_route api speculative =
     (if \<not> is_enabled_flag (doc_get api speculative (ascii ''saslStart'')) then Inr None
      else if get_str api speculative (ascii ''mechanism'') \<noteq> Some (ascii ''SCRAM-SHA-1'')
              \<and> get_str api speculative (ascii ''mechanism'') \<noteq> Some (ascii ''SCRAM-SHA-256'')
      then Inr None
      else case parse_scram_route api speculative (ascii ''db'') of
        Inl _ \<Rightarrow> Inl InvalidHelloRoute
      | Inr route \<Rightarrow> bind_result (validate_managed_route route) (\<lambda>_. Inr (Some route)))"

definition parse_hello_speculative_route ::
    "'d bson_api \<Rightarrow> 'd mongo_message \<Rightarrow> mongodb_error + mongodb_route option" where
  "parse_hello_speculative_route api message =
     (if \<not> is_hello api message then Inl MalformedMessage
      else bind_result (ok_or (mm_body message) MalformedMessage) (\<lambda>body.
        case doc_get api body (ascii ''speculativeAuthenticate'') of
          None \<Rightarrow> Inr None
        | Some (BDocument speculative) \<Rightarrow> parse_speculative_route api speculative
        | Some _ \<Rightarrow> Inl InvalidHelloRoute))"

definition validate_sasl_continue ::
    "'d bson_api \<Rightarrow> 'd mongo_message \<Rightarrow> mongodb_route \<Rightarrow> mongodb_error + unit" where
  "validate_sasl_continue api message route =
     (if mm_op_code message \<noteq> OP_MSG \<and> mm_op_code message \<noteq> OP_QUERY
      then Inl (UnsupportedOpcode (mm_op_code message))
      else bind_result (ok_or (mm_body message) MalformedMessage) (\<lambda>body.
        if \<not> is_enabled_flag (doc_get api body (ascii ''saslContinue''))
           \<or> get_str api body (ascii ''$db'') \<noteq> Some (gr_database route)
        then Inl AuthIdentityChanged else Inr ()))"

section \<open>Replies\<close>

definition command_succeeded :: "'d bson_api \<Rightarrow> 'd \<Rightarrow> mongodb_error + bool" where
  "command_succeeded api body =
     (case doc_get api body (ascii ''ok'') of
        Some (BInt32 i) \<Rightarrow> Inr (i \<noteq> 0)
      | Some (BInt64 i) \<Rightarrow> Inr (i \<noteq> 0)
      | Some (BDouble x) \<Rightarrow>
          if f64_is_finite x then Inr (\<not> f64_is_zero x) else Inl InvalidAuthResponse
      | _ \<Rightarrow> Inl InvalidAuthResponse)"

definition hello_response :: "'d bson_api \<Rightarrow> int \<Rightarrow> 'd mongo_message \<Rightarrow> 'd" where
  "hello_response api now request =
     (let response = doc_literal api
        [(ascii ''ok'', BDouble f64_one), (ascii ''helloOk'', BBoolean True),
         (ascii ''isWritablePrimary'', BBoolean True), (ascii ''ismaster'', BBoolean True),
         (ascii ''secondary'', BBoolean False), (ascii ''maxBsonObjectSize'', BInt32 16777216),
         (ascii ''maxMessageSizeBytes'', BInt32 (int MAX_WIRE_MESSAGE_BYTES)),
         (ascii ''maxWriteBatchSize'', BInt32 100000), (ascii ''localTime'', BDateTime now),
         (ascii ''maxWireVersion'', BInt32 21), (ascii ''minWireVersion'', BInt32 0),
         (ascii ''logicalSessionTimeoutMinutes'', BInt32 30),
         (ascii ''connectionId'', BInt32 1), (ascii ''readOnly'', BBoolean False),
         (ascii ''compression'', BArray [])]
      in case mm_body request of
           Some body \<Rightarrow>
             if contains_key api body (ascii ''saslSupportedMechs'')
             then doc_insert api response (ascii ''saslSupportedMechs'')
                    (BArray [BString (ascii ''SCRAM-SHA-1''), BString (ascii ''SCRAM-SHA-256'')])
             else response
         | None \<Rightarrow> response)"

definition backend_hello_request :: "'d bson_api \<Rightarrow> mongodb_error + byte list" where
  "backend_hello_request api = encode_command api (doc_literal api
     [(ascii ''hello'', BInt32 1), (ascii ''helloOk'', BBoolean True),
      (ascii ''$db'', BString (ascii ''admin''))])"

definition command_error :: "'d bson_api \<Rightarrow> byte list \<Rightarrow> int \<Rightarrow> 'd" where
  "command_error api message code = doc_literal api
     [(ascii ''ok'', BDouble 0), (ascii ''errmsg'', BString message), (ascii ''code'', BInt32 code),
      (ascii ''codeName'', BString (ascii ''AuthenticationFailed''))]"

definition validate_hello_reply :: "'d bson_api \<Rightarrow> 'd mongo_message \<Rightarrow> mongodb_error + unit" where
  "validate_hello_reply api message =
     bind_result (ok_or (mm_body message) MalformedMessage) (\<lambda>body.
       bind_result (command_succeeded api body) (\<lambda>ok.
         if ok \<and> contains_key api body (ascii ''maxWireVersion'') then Inr ()
         else Inl MalformedMessage))"

definition auth_reply_state ::
    "'d bson_api \<Rightarrow> 'd mongo_message \<Rightarrow> bool \<Rightarrow> mongodb_error + auth_state" where
  "auth_reply_state api message speculative =
     bind_result (ok_or (mm_body message) InvalidAuthResponse) (\<lambda>body.
       bind_result (command_succeeded api body) (\<lambda>ok.
         if \<not> ok then Inr Rejected
         else
           let finish = (\<lambda>auth.
             bind_result (if contains_key api auth (ascii ''ok'')
                          then command_succeeded api auth else Inr True) (\<lambda>auth_ok.
               if \<not> auth_ok then Inr Rejected
               else case get_bool api auth (ascii ''done'') of
                 Some True \<Rightarrow> Inr Authenticated
               | Some False \<Rightarrow> Inr Continue
               | None \<Rightarrow> Inl InvalidAuthResponse))
           in if speculative then
                case doc_get api body (ascii ''speculativeAuthenticate'') of
                  Some (BDocument auth) \<Rightarrow> finish auth
                | None \<Rightarrow> Inr SpeculativeFallback
                | Some _ \<Rightarrow> Inl InvalidAuthResponse
              else finish body))"

section \<open>Frames\<close>

lemma length_i32_bytes [simp]: "length (i32_bytes i) = 4"
  by (simp add: i32_bytes_def)

lemma signed32_i32_bytes:
  assumes "- 2147483648 \<le> i" "i < 2147483648"
  shows "signed32 (le_nat (i32_bytes i)) = i"
proof -
  have "nat (i mod 4294967296) < 256 ^ 4" by simp
  then have "le_nat (i32_bytes i) = nat (i mod 4294967296)"
    unfolding i32_bytes_def by (rule le_nat_bytes)
  moreover have "i mod 4294967296 = (if 0 \<le> i then i else i + 4294967296)"
    using assms mod_add_self2 [of i 4294967296] mod_pos_pos_trivial [of "i + 4294967296" 4294967296]
    by simp
  ultimately show ?thesis using assms by (auto simp: signed32_def)
qed

lemma i32_at_append [simp]:
  "- 2147483648 \<le> i \<Longrightarrow> i < 2147483648 \<Longrightarrow>
     n = length pre \<Longrightarrow> i32_at (pre @ i32_bytes i @ rest) n = i"
  using slice_append [of pre "i32_bytes i" rest] by (simp add: i32_at_def signed32_i32_bytes)

text \<open>A message whose length field is right is read whole, and its header fields are read back.\<close>

lemma read_frame:
  assumes "length payload + 16 \<le> min limit MAX_BUFFERED_MESSAGE_BYTES"
    and "- 2147483648 \<le> rid" "rid < 2147483648" "- 2147483648 \<le> op" "op < 2147483648"
    and raw_def: "raw = i32_bytes (int (16 + length payload)) @ i32_bytes rid @ i32_bytes rto @
                 i32_bytes op @ payload"
  shows "read_message_limited api (raw @ rest) limit =
    bind_result
      (if op = OP_MSG then map_sum id Some (parse_op_msg_body api payload)
       else if op = OP_QUERY then map_sum id Some (parse_op_query_body api payload)
       else Inr None)
      (\<lambda>body. Inr (\<lparr>mm_request_id = rid, mm_op_code = op, mm_body = body, mm_raw = raw\<rparr>, rest))"
proof -
  have len: "length raw = 16 + length payload" by (simp add: raw_def)
  have head: "signed32 (le_nat (take 4 raw)) = int (16 + length payload)"
    using assms(1) by (simp add: raw_def signed32_i32_bytes del: of_nat_add)
  have rid: "i32_at raw 4 = rid"
    using assms(2,3) unfolding raw_def by simp
  have op: "i32_at raw 12 = op"
    using assms(4,5) i32_at_append [of op 12
        "i32_bytes (int (16 + length payload)) @ i32_bytes rid @ i32_bytes rto" payload]
    unfolding raw_def by simp
  have pl: "drop 16 raw = payload" by (simp add: raw_def)
  show ?thesis
    using assms(1) leD [of "16 + length payload" "min limit MAX_BUFFERED_MESSAGE_BYTES"]
    by (simp add: read_message_limited_def min_less_iff_disj head len rid op pl Let_def nat_add_distrib
        del: of_nat_add)
qed

text \<open>The sections of a message: document sequences, then the body.\<close>

definition sequence_section :: "byte list \<Rightarrow> byte list" where
  "sequence_section documents = [1] @ i32_bytes (int (4 + length documents)) @ documents"

lemma length_sequence_section [simp]: "length (sequence_section s) = 5 + length s"
  by (simp add: sequence_section_def)

lemma op_msg_skips_sequences:
  assumes "doc_from_reader api body = Some d"
    and "\<forall>s \<in> set seqs. s \<noteq> [] \<and> length s < 2147483640"
    and "length (pre @ concat (map sequence_section seqs) @ 0 # body) \<le> u64_max"
  shows "op_msg_section api (pre @ concat (map sequence_section seqs) @ 0 # body) (length pre)
           = Inr d"
  using assms(2,3)
proof (induction seqs arbitrary: pre)
  case Nil
  then show ?case using assms(1) by (simp add: op_msg_section.simps nth_append)
next
  case (Cons s seqs)
  let ?p = "pre @ concat (map sequence_section (s # seqs)) @ 0 # body"
  let ?pre = "pre @ sequence_section s"
  have p: "?p = (pre @ [1]) @ i32_bytes (int (4 + length s)) @
             (s @ concat (map sequence_section seqs) @ 0 # body)"
    by (simp add: sequence_section_def)
  have size: "i32_at ?p (length pre + 1) = int (4 + length s)"
    unfolding p by (rule i32_at_append) (use Cons.prems(1) in auto)
  have kind: "?p ! length pre = 1" unfolding p by (simp add: nth_append)
  have off: "length pre + 1 + (4 + length s) = length ?pre"
    by simp
  have bound: "length ?pre \<le> u64_max" using Cons.prems(2) by simp
  have "op_msg_section api ?p (length pre) = op_msg_section api ?p (length ?pre)"
  proof -
    have "checked_add (length pre + 1) (nat (int (4 + length s))) = Some (length ?pre)"
      using off bound by (simp only: nat_int checked_add_Some)
    moreover have "length pre < length ?p" "\<not> length ?p < length pre + 1 + 4"
      "\<not> int (4 + length s) \<le> 4"
      using Cons.prems(1) by auto
    ultimately show ?thesis
      by (simp only: op_msg_section.simps [of api ?p "length pre"] Let_def kind size if_True
          if_False option.case simp_thms zero_neq_one one_neq_zero)
  qed
  also have "\<dots> = Inr d"
    using Cons.IH [of ?pre] Cons.prems by simp
  finally show ?case .
qed

section \<open>User names in SCRAM messages\<close>

text \<open>How a client writes a user name (RFC 5802, section 5.1).\<close>

fun scram_escape :: "byte list \<Rightarrow> byte list" where
  "scram_escape [] = []"
| "scram_escape (b # bs) =
     (if b = 44 then [61, 50, 67] else if b = 61 then [61, 51, 68] else [b]) @ scram_escape bs"

fun escape_equals :: "byte list \<Rightarrow> byte list" where
  "escape_equals [] = []"
| "escape_equals (b # bs) = (if b = 61 then [61, 51, 68] else [b]) @ escape_equals bs"

lemma replace3_skip: "a \<noteq> x \<Longrightarrow> replace3 x y z w (a # bs) = a # replace3 x y z w bs"
  by (cases "(x, y, z, w, a # bs)" rule: replace3.cases) auto

lemma replace3_miss:
  "b \<noteq> y \<Longrightarrow> replace3 x y z w (a # b # bs) = a # replace3 x y z w (b # bs)"
  by (cases bs) auto

lemma replace3_hit: "replace3 x y z w (x # y # z # bs) = w # replace3 x y z w bs"
  by simp

declare replace3.simps [simp del]

lemma replace3_Nil [simp]: "replace3 x y z w [] = []"
  by (simp add: replace3.simps)

lemma unescape_commas: "replace3 61 50 67 44 (scram_escape u) = escape_equals u"
  by (induction u) (auto simp: replace3_hit replace3_skip replace3_miss)

lemma unescape_equals: "replace3 61 51 68 61 (escape_equals u) = u"
  by (induction u) (auto simp: replace3_hit replace3_skip)

lemma unescape_escape: "unescape_scram_username (scram_escape u) = u"
  by (simp add: unescape_scram_username_def unescape_commas unescape_equals)

lemma scram_escape_no_comma: "44 \<notin> set (scram_escape u)"
  by (induction u) auto

lemma split_comma_nonempty [simp]: "split_comma bs \<noteq> []"
  by (induction bs) (auto split: list.splits)

lemma split_comma_append: "44 \<notin> set xs \<Longrightarrow> split_comma (xs @ 44 # ys) = xs # split_comma ys"
  by (induction xs) auto

section \<open>Properties\<close>

text \<open>C39: a command the gateway encodes is read back from the wire as the same document, with the
  OP_MSG opcode and request id 1, and exactly its own bytes are consumed; this needs only that the
  BSON library reads back what it wrote and that the message is within the buffering limit.\<close>

theorem command_roundtrip:
  assumes "bson_reads_back api"
    and "encode_command api d = Inr bytes" and "length bytes \<le> MAX_BUFFERED_MESSAGE_BYTES"
  shows "read_message api (bytes @ rest) =
    Inr (\<lparr>mm_request_id = 1, mm_op_code = OP_MSG, mm_body = Some d, mm_raw = bytes\<rparr>, rest)"
proof -
  obtain body where body: "doc_to_vec api d = Some body"
    and bytes: "bytes = i32_bytes (int (16 + (5 + length body))) @ i32_bytes 1 @ i32_bytes 0 @
      i32_bytes OP_MSG @ i32_bytes 0 @ [0] @ body"
    using assms(2) by (cases "doc_to_vec api d") (auto simp: encode_command_def Let_def
        split: if_splits)
  have reads: "doc_from_reader api body = Some d"
    using assms(1) body unfolding bson_reads_back_def by (metis append_Nil2)
  let ?payload = "i32_bytes 0 @ [0] @ body"
  have fits: "length ?payload + 16 \<le> min MAX_BUFFERED_MESSAGE_BYTES MAX_BUFFERED_MESSAGE_BYTES"
    using assms(3) by (simp add: bytes)
  have parsed: "parse_op_msg_body api ?payload = Inr d"
    using op_msg_skips_sequences [OF reads, of "[]" "i32_bytes 0"] fits
    by (simp add: parse_op_msg_body_def)
  show ?thesis
    unfolding read_message_def
    by (subst read_frame [OF fits, of 1 OP_MSG bytes 0]) (simp_all add: bytes parsed [simplified])
qed

text \<open>A two-document instance of the library: the empty document and \<open>{a: true}\<close>.\<close>

definition two_documents :: "bool bson_api" where
  "two_documents = \<lparr>doc_from_reader = (\<lambda>bytes.
       if take 5 bytes = [5, 0, 0, 0, 0] then Some False
       else if take 9 bytes = [9, 0, 0, 0, 8, 97, 0, 1, 0] then Some True else None),
     doc_to_vec = (\<lambda>d. Some (if d then [9, 0, 0, 0, 8, 97, 0, 1, 0] else [5, 0, 0, 0, 0])),
     doc_get = (\<lambda>d key. if d \<and> key = [97] then Some (BBoolean True) else None),
     doc_first_key = (\<lambda>d. if d then Some [97] else None),
     doc_insert = (\<lambda>d key v. True), doc_new = False\<rparr>"

lemma two_documents_read_back: "bson_reads_back two_documents"
  by (auto simp: bson_reads_back_def two_documents_def)

theorem command_roundtrip_witness:
  "read_message two_documents
     ([30, 0, 0, 0, 1, 0, 0, 0, 0, 0, 0, 0, 221, 7, 0, 0, 0, 0, 0, 0, 0] @
      [9, 0, 0, 0, 8, 97, 0, 1, 0] @ [7]) =
   Inr (\<lparr>mm_request_id = 1, mm_op_code = OP_MSG, mm_body = Some True,
          mm_raw = [30, 0, 0, 0, 1, 0, 0, 0, 0, 0, 0, 0, 221, 7, 0, 0, 0, 0, 0, 0, 0,
                    9, 0, 0, 0, 8, 97, 0, 1, 0]\<rparr>, [7])"
proof -
  have "encode_command two_documents True =
    Inr ([30, 0, 0, 0, 1, 0, 0, 0, 0, 0, 0, 0, 221, 7, 0, 0, 0, 0, 0, 0, 0] @
         [9, 0, 0, 0, 8, 97, 0, 1, 0])"
    by (simp add: encode_command_def two_documents_def i32_bytes_def le_bytes_4)
  from command_roundtrip [OF two_documents_read_back this, of "[7]"] show ?thesis by simp
qed

text \<open>C38: whatever bytes a user name has, the gateway extracts exactly that name from the SCRAM
  client-first message in which a client wrote it escaped.\<close>

theorem scram_username_roundtrip:
  "scram_username (ascii ''n,,n='' @ scram_escape user @ ascii '',r='' @ nonce) = Some user"
proof -
  have "scram_username (ascii ''n,,n='' @ scram_escape user @ ascii '',r='' @ nonce) =
    first_username ([110] # [] # ([110, 61] @ scram_escape user) # split_comma (ascii ''r='' @ nonce))"
    using split_comma_append [of "[110, 61] @ scram_escape user" "ascii ''r='' @ nonce"]
      scram_escape_no_comma [of user]
    by (simp add: scram_username_def ascii_def)
  then show ?thesis by (simp add: unescape_escape)
qed

end
