(* ===== verification/Relay.thy ===== *)
theory Relay
  imports MongoWire "HOL-Library.Sublist"
begin

text \<open>
  What happens after login (\<open>gateway/listeners/listener_io/\<close>): the loops that copy an
  authenticated client's frames to its database while counting operations and refusing frames
  that would change the identity of the connection or, on a shared MySQL server, reach another
  tenant's storage.

  A loop is a function of the bytes the client sends.  Its result is the list of what it did in
  order (bytes forwarded, operations counted) and how it ended; \<open>step\<close> functions are one round
  of the loop.  Writes to the database are assumed to succeed.
\<close>

section \<open>Classification of commands\<close>

datatype operation_kind = Read | Write | Ddl | Other

definition SQL_READ_KEYWORDS :: "byte list list" where
  "SQL_READ_KEYWORDS = map ascii [''SELECT'', ''SHOW'', ''DESCRIBE'', ''DESC'', ''EXPLAIN'']"

definition SQL_WRITE_KEYWORDS :: "byte list list" where
  "SQL_WRITE_KEYWORDS =
     map ascii [''INSERT'', ''UPDATE'', ''DELETE'', ''REPLACE'', ''MERGE'', ''LOAD'']"

definition SQL_DDL_KEYWORDS :: "byte list list" where
  "SQL_DDL_KEYWORDS =
     map ascii [''CREATE'', ''ALTER'', ''DROP'', ''TRUNCATE'', ''RENAME'', ''GRANT'', ''REVOKE'']"

definition MONGODB_READ_COMMANDS :: "byte list list" where
  "MONGODB_READ_COMMANDS =
     map ascii [''find'', ''getMore'', ''aggregate'', ''count'', ''distinct'']"

definition MONGODB_WRITE_COMMANDS :: "byte list list" where
  "MONGODB_WRITE_COMMANDS =
     map ascii [''insert'', ''update'', ''delete'', ''findAndModify'', ''bulkWrite'']"

definition MONGODB_DDL_COMMANDS :: "byte list list" where
  "MONGODB_DDL_COMMANDS =
     map ascii [''create'', ''drop'', ''renameCollection'', ''createIndexes'', ''dropIndexes'']"

definition MONGODB_IDENTITY_COMMANDS :: "byte list list" where
  "MONGODB_IDENTITY_COMMANDS =
     map ascii [''saslStart'', ''saslContinue'', ''authenticate'', ''logout'', ''getnonce'',
       ''hello'', ''isMaster'', ''ismaster'', ''$query'']"

definition matches_any_ignore_case :: "byte list \<Rightarrow> byte list list \<Rightarrow> bool" where
  "matches_any_ignore_case word candidates =
     list_ex (\<lambda>candidate. eq_ignore_ascii_case word candidate) candidates"

definition is_ascii_whitespace :: "byte \<Rightarrow> bool" where
  "is_ascii_whitespace b = (b = 32 \<or> b = 9 \<or> b = 10 \<or> b = 12 \<or> b = 13)"

definition is_word_byte :: "byte \<Rightarrow> bool" where
  "is_word_byte b = (is_ascii_alphanumeric b \<or> b = 95)"

text \<open>What follows the first newline, and what follows the first \<open>*/\<close>.\<close>

fun after_newline :: "byte list \<Rightarrow> byte list option" where
  "after_newline [] = None"
| "after_newline (b # bs) = (if b = 10 then Some bs else after_newline bs)"

fun after_comment :: "byte list \<Rightarrow> byte list option" where
  "after_comment (a # b # bs) =
     (if a = 42 \<and> b = 47 then Some bs else after_comment (b # bs))"
| "after_comment bs = None"

lemma after_newline_shorter: "after_newline bs = Some cs \<Longrightarrow> length cs < length bs"
  by (induction bs) (auto split: if_splits)

lemma after_comment_shorter: "after_comment bs = Some cs \<Longrightarrow> length cs < length bs"
  by (induction bs rule: after_comment.induct) (auto split: if_splits)

function sql_keyword :: "byte list \<Rightarrow> byte list option" where
  "sql_keyword text0 =
     (let sql = dropWhile (\<lambda>b. is_ascii_whitespace b \<or> b = 59) text0 in
      if sql = [] then None
      else if take 2 sql = [45, 45] \<or> take 1 sql = [35] then
        (case after_newline sql of None \<Rightarrow> None | Some rest \<Rightarrow> sql_keyword rest)
      else if take 2 sql = [47, 42] then
        (case after_comment (drop 2 sql) of None \<Rightarrow> None | Some rest \<Rightarrow> sql_keyword rest)
      else let word = takeWhile is_word_byte sql in if word = [] then None else Some word)"
  by pat_completeness auto
termination
proof (relation "measure length", goal_cases)
  case (2 text0 sql rest)
  then show ?case
    using after_newline_shorter [of sql rest]
      length_dropWhile_le [of "\<lambda>b. is_ascii_whitespace b \<or> b = 59" text0] by simp
next
  case (3 text0 sql rest)
  then show ?case
    using after_comment_shorter [of "drop 2 sql" rest]
      length_dropWhile_le [of "\<lambda>b. is_ascii_whitespace b \<or> b = 59" text0] by simp
qed simp

declare sql_keyword.simps [simp del]

definition classify_sql :: "byte list \<Rightarrow> operation_kind" where
  "classify_sql sql =
     (case sql_keyword sql of
        None \<Rightarrow> Other
      | Some keyword \<Rightarrow>
          if matches_any_ignore_case keyword SQL_READ_KEYWORDS then Read
          else if matches_any_ignore_case keyword SQL_WRITE_KEYWORDS then Write
          else if matches_any_ignore_case keyword SQL_DDL_KEYWORDS then Ddl else Other)"

definition classify_mongodb :: "byte list \<Rightarrow> operation_kind" where
  "classify_mongodb command =
     (if matches_any_ignore_case command MONGODB_READ_COMMANDS then Read
      else if matches_any_ignore_case command MONGODB_WRITE_COMMANDS then Write
      else if matches_any_ignore_case command MONGODB_DDL_COMMANDS then Ddl else Other)"

definition is_mongodb_identity_command :: "byte list \<Rightarrow> bool" where
  "is_mongodb_identity_command command =
     matches_any_ignore_case command MONGODB_IDENTITY_COMMANDS"

section \<open>Events and rounds\<close>

datatype session_event = Forward "byte list" | Accept operation_kind | Reject operation_kind

datatype listener_error = UnexpectedEof | InvalidData | TimedOut | WouldBlock
  | IdentitySwitchRejected | MalformedMongodb | SharedStorageCommandRejected

type_synonym upload_result = "session_event list \<times> (listener_error + unit)"

text \<open>A round ends the loop, or consumes one frame and goes on with the rest of the input.\<close>

datatype 's round = Stop "session_event list" "listener_error + unit"
  | Next "session_event list" 's "byte list"

primrec event_bytes :: "session_event \<Rightarrow> byte list" where
  "event_bytes (Forward bytes) = bytes"
| "event_bytes (Accept kind) = []"
| "event_bytes (Reject kind) = []"

definition forwarded :: "session_event list \<Rightarrow> byte list" where
  "forwarded events = concat (map event_bytes events)"

definition prepend :: "session_event list \<Rightarrow> upload_result \<Rightarrow> upload_result" where
  "prepend events r = (events @ fst r, snd r)"

text \<open>\<open>copy_exact\<close>: copy what is there, and fail when it was not enough.\<close>

definition copy_exact :: "byte list \<Rightarrow> nat \<Rightarrow> session_event \<times> bool" where
  "copy_exact stream n = (Forward (take n stream), n \<le> length stream)"

abbreviation SQL_PREFIX_BYTES :: nat where
  "SQL_PREFIX_BYTES \<equiv> 512"

text \<open>The SQL loops read the first bytes of a body for classification, forward them, and copy the
  rest; \<open>None\<close> when the input ends early, otherwise those first bytes and the input left.\<close>

definition relay_body ::
    "byte list \<Rightarrow> nat \<Rightarrow> session_event list \<times> (byte list \<times> byte list) option" where
  "relay_body reader remaining =
     (let prefix_len = min remaining SQL_PREFIX_BYTES in
      if length reader < prefix_len then ([], None)
      else let pre = take prefix_len reader; reader = drop prefix_len reader;
               (copied, complete) = copy_exact reader (remaining - prefix_len) in
        ([Forward pre, copied],
         if complete then Some (pre, drop (remaining - prefix_len) reader) else None))"

section \<open>PostgreSQL\<close>

definition postgres_step :: "unit \<Rightarrow> byte list \<Rightarrow> unit round" where
  "postgres_step _ client =
     (if client = [] then Stop [] (Inr ())
      else if length client < 5 then Stop [] (Inl UnexpectedEof)
      else let header = take 5 client; reader = drop 5 client; len = be_nat (drop 1 header) in
        if len < 4 then Stop [] (Inl InvalidData)
        else case relay_body reader (len - 4) of
            (body, None) \<Rightarrow> Stop (Forward header # body) (Inl UnexpectedEof)
          | (body, Some (pre, rest)) \<Rightarrow>
              Next (Forward header # body @
                    (if header ! 0 = 81 then [Accept (classify_sql pre)]
                     else if header ! 0 = 69 then [Accept Other] else []))
                () rest)"

section \<open>MySQL and MariaDB\<close>

abbreviation MYSQL_COM_CHANGE_USER :: byte where "MYSQL_COM_CHANGE_USER \<equiv> 17"
abbreviation MYSQL_COM_CREATE_DB :: byte where "MYSQL_COM_CREATE_DB \<equiv> 5"
abbreviation MYSQL_COM_DROP_DB :: byte where "MYSQL_COM_DROP_DB \<equiv> 6"
abbreviation MYSQL_COM_QUERY :: byte where "MYSQL_COM_QUERY \<equiv> 3"
abbreviation MYSQL_COM_STMT_PREPARE :: byte where "MYSQL_COM_STMT_PREPARE \<equiv> 22"
abbreviation MYSQL_COM_STMT_EXECUTE :: byte where "MYSQL_COM_STMT_EXECUTE \<equiv> 23"

abbreviation MYSQL_MAX_SINGLE_PACKET_PAYLOAD :: nat where
  "MYSQL_MAX_SINGLE_PACKET_PAYLOAD \<equiv> 16777215"

definition mysql_payload_len :: "byte list \<Rightarrow> nat" where
  "mysql_payload_len header = le_nat (take 3 header)"

text \<open>
  What a session depends on: whether the server is shared, the policy on the text of shared
  commands, whether the buffer budget admits a command, and when its deadline strikes, given as
  the number of bytes of the packet written by then.  The last two are functions of the input
  that is left, so they may differ from packet to packet.
\<close>

record mysql_session =
  ms_shared :: bool
  ms_validate :: "byte list \<Rightarrow> bool"
  ms_reserve :: "byte list \<Rightarrow> nat \<Rightarrow> bool"
  ms_deadline :: "byte list \<Rightarrow> nat option"

definition shared_query ::
    "mysql_session \<Rightarrow> byte list \<Rightarrow> byte \<Rightarrow> byte list \<Rightarrow> operation_kind option round" where
  "shared_query ms header first reader =
     (let payload_len = mysql_payload_len header in
      if payload_len = MYSQL_MAX_SINGLE_PACKET_PAYLOAD
      then Stop [Reject Other] (Inl SharedStorageCommandRejected)
      else if \<not> ms_reserve ms reader payload_len then Stop [] (Inl WouldBlock)
      else if ms_deadline ms reader = Some 0 then Stop [] (Inl TimedOut)
      else if length reader < payload_len - 1 then Stop [] (Inl UnexpectedEof)
      else let body = take (payload_len - 1) reader in
        if \<not> ms_validate ms body
        then Stop [Reject (classify_sql body)] (Inl SharedStorageCommandRejected)
        else case ms_deadline ms reader of
          Some n \<Rightarrow> Stop [Forward (take n (header @ first # body))] (Inl TimedOut)
        | None \<Rightarrow> Next [Forward header, Forward (first # body), Accept (classify_sql body)]
                    None (drop (payload_len - 1) reader))"

definition forward_packet :: "byte list \<Rightarrow> operation_kind option \<Rightarrow> byte \<Rightarrow> byte list \<Rightarrow>
    operation_kind option round" where
  "forward_packet header continued first reader =
     (let payload_len = mysql_payload_len header; is_command_packet = (header ! 3 = 0) in
      case relay_body reader (payload_len - 1) of
        (body, None) \<Rightarrow> Stop ([Forward header, Forward [first]] @ body) (Inl UnexpectedEof)
      | (body, Some (pre, rest)) \<Rightarrow>
          let written = [Forward header, Forward [first]] @ body;
              kind = (if is_command_packet
                        \<and> (first = MYSQL_COM_QUERY \<or> first = MYSQL_COM_STMT_PREPARE)
                      then Some (classify_sql pre)
                      else if is_command_packet \<and> first = MYSQL_COM_STMT_EXECUTE
                      then Some Other else None) in
          case (kind, continued) of
            (Some k, _) \<Rightarrow>
              if payload_len = MYSQL_MAX_SINGLE_PACKET_PAYLOAD then Next written (Some k) rest
              else Next (written @ [Accept k]) continued rest
          | (None, Some k) \<Rightarrow>
              if \<not> is_command_packet \<and> payload_len < MYSQL_MAX_SINGLE_PACKET_PAYLOAD
              then Next (written @ [Accept k]) None rest
              else Next written continued rest
          | (None, None) \<Rightarrow> Next written continued rest)"

definition mysql_step :: "mysql_session \<Rightarrow> operation_kind option \<Rightarrow> byte list \<Rightarrow>
    operation_kind option round" where
  "mysql_step ms continued client =
     (if client = [] then Stop [] (Inr ())
      else if length client < 4 then Stop [] (Inl UnexpectedEof)
      else let header = take 4 client; reader = drop 4 client;
               payload_len = mysql_payload_len header;
               is_command_packet = (header ! 3 = 0);
               continued = (if is_command_packet then None else continued) in
        if payload_len = 0 then
          (case (is_command_packet, continued) of
             (False, Some kind) \<Rightarrow> Next [Forward header, Accept kind] None reader
           | _ \<Rightarrow> Next [Forward header] continued reader)
        else case reader of
          [] \<Rightarrow> Stop [] (Inl UnexpectedEof)
        | first # reader \<Rightarrow>
            if is_command_packet \<and> first = MYSQL_COM_CHANGE_USER
            then Stop [Reject Other] (Inl IdentitySwitchRejected)
            else if ms_shared ms \<and> is_command_packet
                    \<and> (first = MYSQL_COM_CREATE_DB \<or> first = MYSQL_COM_DROP_DB)
            then Stop [Reject Ddl] (Inl SharedStorageCommandRejected)
            else if ms_shared ms \<and> is_command_packet
                    \<and> (first = MYSQL_COM_QUERY \<or> first = MYSQL_COM_STMT_PREPARE)
            then shared_query ms header first reader
            else forward_packet header continued first reader)"

section \<open>The contract of a relay loop\<close>

text \<open>
  What the loops promise about the bytes that reach the database.  They are whole frames of the
  client's input in order, every one allowed, then possibly the beginning of one more frame,
  which is allowed as far as it was sent; when the loop ends without an error, they are the
  whole input.
\<close>

definition relays_only ::
    "(byte list \<Rightarrow> bool) \<Rightarrow> (byte list \<Rightarrow> bool) \<Rightarrow> byte list \<Rightarrow> upload_result \<Rightarrow> bool" where
  "relays_only complete allowed client result =
     (\<exists>frames cut frame.
        forwarded (fst result) = concat frames @ cut
        \<and> (\<forall>f \<in> set frames. complete f \<and> allowed f)
        \<and> prefix cut frame \<and> (frame = [] \<or> allowed frame)
        \<and> prefix (concat frames @ frame) client
        \<and> (snd result = Inr () \<longrightarrow> cut = [] \<and> concat frames = client))"

primrec event_kind :: "session_event \<Rightarrow> operation_kind list" where
  "event_kind (Forward bytes) = []"
| "event_kind (Accept kind) = [kind]"
| "event_kind (Reject kind) = []"

definition accepted :: "session_event list \<Rightarrow> operation_kind list" where
  "accepted events = concat (map event_kind events)"

lemma forwarded_simps [simp]:
  "forwarded [] = []"
  "forwarded (Forward bytes # events) = bytes @ forwarded events"
  "forwarded (Accept kind # events) = forwarded events"
  "forwarded (Reject kind # events) = forwarded events"
  "forwarded (events @ events') = forwarded events @ forwarded events'"
  by (simp_all add: forwarded_def)

lemma accepted_simps [simp]:
  "accepted [] = []"
  "accepted (Forward bytes # events) = accepted events"
  "accepted (Accept kind # events) = kind # accepted events"
  "accepted (Reject kind # events) = accepted events"
  "accepted (events @ events') = accepted events @ accepted events'"
  by (simp_all add: accepted_def)

lemma prepend_simps [simp]:
  "fst (prepend events r) = events @ fst r" "snd (prepend events r) = snd r"
  by (simp_all add: prepend_def)

locale relay =
  fixes step :: "'s \<Rightarrow> byte list \<Rightarrow> 's round"
    and run :: "'s \<Rightarrow> byte list \<Rightarrow> upload_result"
    and complete allowed :: "byte list \<Rightarrow> bool"
  assumes run_step: "run s client =
      (case step s client of Stop events r \<Rightarrow> (events, r)
       | Next events s' rest \<Rightarrow> prepend events (run s' rest))"
    and next_frame: "step s client = Next events s' rest \<Longrightarrow>
      client = forwarded events @ rest \<and> forwarded events \<noteq> []
      \<and> complete (forwarded events) \<and> allowed (forwarded events)"
    and stop_frame: "step s client = Stop events r \<Longrightarrow>
      \<exists>frame. prefix (forwarded events) frame \<and> prefix frame client
        \<and> (frame = [] \<or> allowed frame)"
    and stop_done: "step s client = Stop events (Inr ()) \<Longrightarrow> client = [] \<and> events = []"
begin

lemma run_relays: "relays_only complete allowed client (run s client)"
proof (induction "length client" arbitrary: s client rule: less_induct)
  case less
  show ?case
  proof (cases "step s client")
    case (Stop events r)
    then obtain frame where "prefix (forwarded events) frame" "prefix frame client"
      "frame = [] \<or> allowed frame"
      using stop_frame by blast
    then show ?thesis
      unfolding relays_only_def run_step [of s client] Stop round.case fst_conv snd_conv
      using stop_done [of s client events] Stop
      by (intro exI [of _ "[]"] exI [of _ "forwarded events"] exI [of _ frame]) auto
  next
    case (Next events s' rest)
    have frame: "client = forwarded events @ rest" "forwarded events \<noteq> []"
      "complete (forwarded events)" "allowed (forwarded events)"
      using next_frame [OF Next] by auto
    then have "length rest < length client" by simp
    then obtain frames cut frame where IH:
      "forwarded (fst (run s' rest)) = concat frames @ cut"
      "\<forall>f \<in> set frames. complete f \<and> allowed f" "prefix cut frame" "frame = [] \<or> allowed frame"
      "prefix (concat frames @ frame) rest"
      "snd (run s' rest) = Inr () \<longrightarrow> cut = [] \<and> concat frames = rest"
      using less.hyps [of rest s'] unfolding relays_only_def by blast
    show ?thesis
      unfolding relays_only_def run_step [of s client] Next round.case
      using IH frame
      by (intro exI [of _ "forwarded events # frames"] exI [of _ cut] exI [of _ frame]) auto
  qed
qed

end

text \<open>A loop that lets a kind of frame through also counts it: from its idle state it forwards
  such frames unchanged and counts what each stands for.\<close>

locale counting_relay = relay +
  fixes idle :: 's
    and passes :: "byte list \<Rightarrow> bool"
    and counts :: "byte list \<Rightarrow> operation_kind list"
  assumes pass_frame: "passes frame \<Longrightarrow>
      \<exists>events. step idle (frame @ rest) = Next events idle rest \<and> accepted events = counts frame"
    and at_end: "step idle [] = Stop [] (Inr ())"
begin

lemma run_passes:
  assumes "\<forall>f \<in> set frames. passes f"
  shows "\<exists>events. run idle (concat frames) = (events, Inr ())
    \<and> forwarded events = concat frames \<and> accepted events = concat (map counts frames)"
  using assms
proof (induction frames)
  case Nil
  then show ?case by (simp add: run_step [of idle "[]"] at_end)
next
  case (Cons f frames)
  obtain events where events: "step idle (f @ concat frames) = Next events idle (concat frames)"
    "accepted events = counts f"
    using pass_frame [of f "concat frames"] Cons.prems by auto
  then have f: "forwarded events = f" using next_frame [OF events(1)] by simp
  obtain later where "run idle (concat frames) = (later, Inr ())" "forwarded later = concat frames"
    "accepted later = concat (map counts frames)"
    using Cons by auto
  then show ?case
    using run_step [of idle "f @ concat frames"] events f by (simp add: prepend_def)
qed

end

section \<open>The PostgreSQL loop\<close>

definition postgres_complete :: "byte list \<Rightarrow> bool" where
  "postgres_complete m = (5 \<le> length m \<and> length m = 1 + be_nat (slice m 1 5))"

definition postgres_counts :: "byte list \<Rightarrow> operation_kind list" where
  "postgres_counts m =
     (if m ! 0 = 81 then [classify_sql (take SQL_PREFIX_BYTES (drop 5 m))]
      else if m ! 0 = 69 then [Other] else [])"

lemma relay_body_Some:
  assumes "relay_body reader n = (events, Some (pre, rest))"
  shows "n \<le> length reader" "forwarded events = take n reader" "rest = drop n reader"
    "pre = take (min n SQL_PREFIX_BYTES) reader" "accepted events = []"
proof -
  let ?k = "min n SQL_PREFIX_BYTES"
  have *: "\<not> length reader < ?k" "n - ?k \<le> length (drop ?k reader)"
    "events = [Forward (take ?k reader), Forward (take (n - ?k) (drop ?k reader))]"
    "pre = take ?k reader" "rest = drop (n - ?k) (drop ?k reader)"
    using assms by (auto simp: relay_body_def copy_exact_def Let_def split: if_splits)
  have sum: "?k + (n - ?k) = n" by simp
  show "n \<le> length reader" using *(1,2) by (simp only: length_drop)
  show "forwarded events = take n reader"
    using take_add [of ?k "n - ?k" reader] unfolding *(3) sum by simp
  show "rest = drop n reader" using *(5) sum by (simp only: drop_drop add.commute)
  show "pre = take ?k reader" by (rule *(4))
  show "accepted events = []" by (simp add: *(3))
qed

lemma relay_body_complete:
  assumes "n \<le> length reader"
  obtains events where
    "relay_body reader n = (events, Some (take (min n SQL_PREFIX_BYTES) reader, drop n reader))"
proof -
  let ?k = "min n SQL_PREFIX_BYTES"
  have sum: "?k + (n - ?k) = n" by simp
  have "\<not> length reader < ?k" "n - ?k \<le> length (drop ?k reader)" using assms by auto
  moreover have "drop (n - ?k) (drop ?k reader) = drop n reader"
    using sum by (simp only: drop_drop add.commute)
  ultimately show ?thesis
    using that by (simp only: relay_body_def copy_exact_def Let_def prod.case if_True if_False)
qed

lemma relay_body_None:
  assumes "relay_body reader n = (events, None)"
  shows "prefix (forwarded events) reader"
proof (cases "events = []")
  case False
  let ?k = "min n SQL_PREFIX_BYTES"
  have *: "events = [Forward (take ?k reader), Forward (take (n - ?k) (drop ?k reader))]"
    using assms False by (auto simp: relay_body_def copy_exact_def Let_def split: if_splits)
  show ?thesis unfolding * using take_add [of ?k "n - ?k" reader] take_is_prefix [of n reader]
    by simp
qed simp

lemma postgres_step_Next:
  assumes "postgres_step s client = Next events s' rest"
  shows "client = forwarded events @ rest" "postgres_complete (forwarded events)"
    "accepted events = postgres_counts (forwarded events)"
proof -
  define len where "len = be_nat (drop 1 (take 5 client))"
  have c: "\<not> length client < 5" "\<not> len < 4"
    using assms by (auto simp: postgres_step_def Let_def len_def split: if_splits)
  obtain body pre where body: "relay_body (drop 5 client) (len - 4) = (body, Some (pre, rest))"
    and ev: "events = Forward (take 5 client) # body @
      (if take 5 client ! 0 = 81 then [Accept (classify_sql pre)]
       else if take 5 client ! 0 = 69 then [Accept Other] else [])"
    using assms c by (auto simp: postgres_step_def Let_def len_def split: prod.splits option.splits
        if_splits)
  note r = relay_body_Some [OF body]
  have split: "take 5 client @ take (len - 4) (drop 5 client) = take (1 + len) client"
    using c take_add [of 5 "len - 4" client] by simp
  then have f: "forwarded events = take (1 + len) client" using r(2) by (simp add: ev)
  have "drop (1 + len) client = rest" using r(3) c by simp
  then show "client = forwarded events @ rest" unfolding f by (metis append_take_drop_id)
  have "slice (take (1 + len) client) 1 5 = drop 1 (take 5 client)"
    using c by (simp add: slice_take slice_def drop_take)
  moreover have "length (take (1 + len) client) = 1 + len" using r(1) c by simp
  ultimately show "postgres_complete (forwarded events)"
    using c len_def by (simp add: postgres_complete_def f)
  have "take 512 (drop 5 (take (1 + len) client)) = pre"
    using r(4) c by (simp add: drop_take min.commute)
  then show "accepted events = postgres_counts (forwarded events)"
    unfolding f postgres_counts_def using r(5) c by (simp add: ev)
qed

lemma postgres_complete_nonempty: "postgres_complete m \<Longrightarrow> m \<noteq> []"
  by (auto simp: postgres_complete_def)

function postgres_upload :: "unit \<Rightarrow> byte list \<Rightarrow> upload_result" where
  "postgres_upload s client =
     (case postgres_step s client of
        Stop events r \<Rightarrow> (events, r)
      | Next events s' rest \<Rightarrow> prepend events (postgres_upload s' rest))"
  by pat_completeness auto
termination
proof (relation "measure (\<lambda>(s, client). length client)", goal_cases)
  case (2 s client events s' rest)
  then have "client = forwarded events @ rest" "forwarded events \<noteq> []"
    using postgres_step_Next postgres_complete_nonempty by blast+
  then show ?case by simp
qed simp

declare postgres_upload.simps [simp del]

lemma postgres_step_Stop:
  assumes "postgres_step s client = Stop events r"
  shows "prefix (forwarded events) client"
proof -
  consider "events = []"
    | body where "events = Forward (take 5 client) # body"
        "relay_body (drop 5 client) (be_nat (drop 1 (take 5 client)) - 4) = (body, None)"
    using assms by (auto simp: postgres_step_def Let_def split: if_splits prod.splits option.splits)
  then show ?thesis
  proof cases
    case 2
    then have "prefix (forwarded body) (drop 5 client)" by (intro relay_body_None)
    then have "prefix (take 5 client @ forwarded body) (take 5 client @ drop 5 client)"
      by (simp only: same_prefix_prefix)
    then show ?thesis using 2 by simp
  qed simp
qed

lemma postgres_step_end:
  "postgres_step s client = Stop events (Inr ()) \<longleftrightarrow> client = [] \<and> events = []"
  by (auto simp: postgres_step_def Let_def split: if_splits prod.splits option.splits)

lemma postgres_step_complete:
  assumes "postgres_complete m"
  obtains events where "postgres_step s (m @ rest) = Next events () rest"
proof -
  have m: "5 \<le> length m" "length m = 1 + be_nat (slice m 1 5)"
    using assms by (auto simp: postgres_complete_def)
  have len: "be_nat (drop 1 (take 5 (m @ rest))) = length m - 1"
  proof -
    have "take 5 (m @ rest) = take 5 m" using m(1) by simp
    moreover have "drop 1 (take 5 m) = slice m 1 5" by (simp add: slice_def drop_take)
    ultimately show ?thesis using m(2) by (simp only: add_diff_cancel_left')
  qed
  obtain body where "relay_body (drop 5 (m @ rest)) (length m - 1 - 4) =
      (body, Some (take (min (length m - 1 - 4) SQL_PREFIX_BYTES) (drop 5 (m @ rest)),
                   drop (length m - 1 - 4) (drop 5 (m @ rest))))"
    using m(1) by (rule_tac relay_body_complete [of "length m - 1 - 4" "drop 5 (m @ rest)"]) auto
  moreover have "drop (length m - 1 - 4) (drop 5 (m @ rest)) = rest" using m(1) by simp
  moreover have "m @ rest \<noteq> []" "\<not> length (m @ rest) < 5" "\<not> length m - 1 < 4"
    using m(1) by auto
  ultimately show ?thesis
    using that
    by (simp only: postgres_step_def Let_def len if_False prod.case option.case round.inject)
qed

interpretation postgres_relay: counting_relay postgres_step postgres_upload
  postgres_complete "\<lambda>m. True" "()" postgres_complete postgres_counts
proof (unfold_locales, goal_cases)
  case (1 s client)
  show ?case by (rule postgres_upload.simps)
next
  case (2 s client events s' rest)
  then show ?case using postgres_step_Next postgres_complete_nonempty by blast
next
  case (3 s client events r)
  then show ?case using postgres_step_Stop by blast
next
  case (4 s client events)
  then show ?case by (simp add: postgres_step_end)
next
  case (5 frame rest)
  then obtain events where "postgres_step () (frame @ rest) = Next events () rest"
    by (rule postgres_step_complete)
  then show ?case using postgres_step_Next by force
next
  case 6
  show ?case by (simp add: postgres_step_end)
qed

section \<open>The MySQL loop\<close>

definition mysql_complete :: "byte list \<Rightarrow> bool" where
  "mysql_complete p = (4 \<le> length p \<and> length p = 4 + mysql_payload_len p)"

text \<open>The policy, on a packet as it is on the wire: no change of user in command position; on a
  shared server no raw creation or removal of databases, and SQL text only if it validates.\<close>

definition mysql_allowed :: "mysql_session \<Rightarrow> byte list \<Rightarrow> bool" where
  "mysql_allowed ms p =
     (4 < length p \<and> p ! 3 = 0 \<longrightarrow>
        p ! 4 \<noteq> MYSQL_COM_CHANGE_USER
        \<and> (ms_shared ms \<longrightarrow>
            p ! 4 \<noteq> MYSQL_COM_CREATE_DB \<and> p ! 4 \<noteq> MYSQL_COM_DROP_DB
            \<and> (p ! 4 = MYSQL_COM_QUERY \<or> p ! 4 = MYSQL_COM_STMT_PREPARE \<longrightarrow>
                ms_validate ms (drop 5 p))))"

definition mysql_counts :: "mysql_session \<Rightarrow> byte list \<Rightarrow> operation_kind list" where
  "mysql_counts ms p =
     (if 4 < length p \<and> p ! 3 = 0 then
        if p ! 4 = MYSQL_COM_QUERY \<or> p ! 4 = MYSQL_COM_STMT_PREPARE
        then [classify_sql (if ms_shared ms then drop 5 p else take SQL_PREFIX_BYTES (drop 5 p))]
        else if p ! 4 = MYSQL_COM_STMT_EXECUTE then [Other] else []
      else [])"

text \<open>A packet that is let through at once: complete, allowed, below the packet size limit, and on
  a shared server admitted by the budget and not overtaken by its deadline.\<close>

definition mysql_passes :: "mysql_session \<Rightarrow> byte list \<Rightarrow> bool" where
  "mysql_passes ms p =
     (mysql_complete p \<and> mysql_allowed ms p
      \<and> mysql_payload_len p < MYSQL_MAX_SINGLE_PACKET_PAYLOAD
      \<and> (ms_shared ms \<longrightarrow> (\<forall>reader n. ms_reserve ms reader n) \<and> ms_deadline ms = (\<lambda>_. None)))"

lemma payload_len_append [simp]:
  "length h = 4 \<Longrightarrow> mysql_payload_len (h @ r) = mysql_payload_len h"
  by (simp add: mysql_payload_len_def)

text \<open>A round on a header and what follows it.\<close>

lemma shared_query_Next:
  assumes "shared_query ms h c reader = Next events s' rest"
  shows "\<exists>body. reader = body @ rest \<and> length body = mysql_payload_len h - 1
    \<and> ms_validate ms body \<and> s' = None
    \<and> events = [Forward h, Forward (c # body), Accept (classify_sql body)]"
  using assms
  by (auto simp: shared_query_def Let_def split: if_splits option.splits
      intro!: exI [of _ "take (mysql_payload_len h - 1) reader"])

lemma shared_query_Stop:
  assumes "shared_query ms h c reader = Stop events r"
  shows "r \<noteq> Inr () \<and> (forwarded events = [] \<or>
    (\<exists>body. prefix body reader \<and> ms_validate ms body \<and> prefix (forwarded events) (h @ c # body)))"
proof -
  let ?body = "take (mysql_payload_len h - 1) reader"
  have "r \<noteq> Inr () \<and> (forwarded events = [] \<or> ms_validate ms ?body
      \<and> (\<exists>n. forwarded events = take n (h @ c # ?body)))"
    using assms
    by (auto simp: shared_query_def Let_def simp del: take_append split: if_splits option.splits)
  then show ?thesis by (metis take_is_prefix)
qed

lemma shared_query_passes:
  assumes "length body = mysql_payload_len h - 1" "ms_validate ms body"
    and "\<And>reader n. ms_reserve ms reader n" "ms_deadline ms = (\<lambda>_. None)"
    and "mysql_payload_len h < MYSQL_MAX_SINGLE_PACKET_PAYLOAD"
  shows "shared_query ms h c (body @ rest) =
    Next [Forward h, Forward (c # body), Accept (classify_sql body)] None rest"
  using assms by (simp add: shared_query_def)

lemma forward_packet_Next:
  assumes "forward_packet h continued c reader = Next events s' rest"
  shows "mysql_payload_len h - 1 \<le> length reader \<and> rest = drop (mysql_payload_len h - 1) reader
    \<and> forwarded events = h @ c # take (mysql_payload_len h - 1) reader"
proof -
  obtain body pre where b: "relay_body reader (mysql_payload_len h - 1) = (body, Some (pre, rest))"
    and e: "events = [Forward h, Forward [c]] @ body
      \<or> (\<exists>k. events = [Forward h, Forward [c]] @ body @ [Accept k])"
    using assms
    by (auto simp: forward_packet_def Let_def split: prod.splits option.splits if_splits)
  show ?thesis using relay_body_Some [OF b] e by auto
qed

lemma forward_packet_Stop:
  assumes "forward_packet h continued c reader = Stop events r"
  shows "r \<noteq> Inr () \<and> prefix (forwarded events) (h @ c # reader)"
proof -
  obtain body where b: "relay_body reader (mysql_payload_len h - 1) = (body, None)"
    and e: "events = [Forward h, Forward [c]] @ body" and r: "r = Inl UnexpectedEof"
    using assms
    by (auto simp: forward_packet_def Let_def split: prod.splits option.splits if_splits)
  show ?thesis using relay_body_None [OF b] by (simp add: e r)
qed

lemma forward_packet_passes:
  assumes "length body = mysql_payload_len h - 1"
    and "mysql_payload_len h < MYSQL_MAX_SINGLE_PACKET_PAYLOAD"
  shows "\<exists>events. forward_packet h None c (body @ rest) = Next events None rest
    \<and> accepted events =
        (if h ! 3 = 0 \<and> (c = MYSQL_COM_QUERY \<or> c = MYSQL_COM_STMT_PREPARE)
         then [classify_sql (take SQL_PREFIX_BYTES body)]
         else if h ! 3 = 0 \<and> c = MYSQL_COM_STMT_EXECUTE then [Other] else [])"
proof -
  obtain evs where b: "relay_body (body @ rest) (mysql_payload_len h - 1) =
      (evs, Some (take (min (length body) SQL_PREFIX_BYTES) (body @ rest), rest))"
    using relay_body_complete [of "mysql_payload_len h - 1" "body @ rest"] assms(1) by auto
  have t: "take (min (length body) SQL_PREFIX_BYTES) (body @ rest) = take SQL_PREFIX_BYTES body"
    by (simp add: min_def)
  show ?thesis
    using relay_body_Some(5) [OF b] assms(2)
    by (auto simp: forward_packet_def b [unfolded One_nat_def t])
qed

text \<open>One round, by what the input begins with.\<close>

abbreviation carried :: "byte list \<Rightarrow> operation_kind option \<Rightarrow> operation_kind option" where
  "carried h continued \<equiv> (if h ! 3 = 0 then None else continued)"

lemma mysql_step_cases:
  assumes "length h = 4"
  shows
    "mysql_payload_len h = 0 \<Longrightarrow> mysql_step ms continued (h @ rest) =
       (case carried h continued of Some kind \<Rightarrow> Next [Forward h, Accept kind] None rest
        | None \<Rightarrow> Next [Forward h] None rest)"
    "mysql_payload_len h \<noteq> 0 \<Longrightarrow>
       mysql_step ms continued h = Stop [] (Inl UnexpectedEof)"
    "mysql_payload_len h \<noteq> 0 \<Longrightarrow> mysql_step ms continued (h @ c # reader) =
       (if h ! 3 = 0 \<and> c = MYSQL_COM_CHANGE_USER
        then Stop [Reject Other] (Inl IdentitySwitchRejected)
        else if ms_shared ms \<and> h ! 3 = 0 \<and> (c = MYSQL_COM_CREATE_DB \<or> c = MYSQL_COM_DROP_DB)
        then Stop [Reject Ddl] (Inl SharedStorageCommandRejected)
        else if ms_shared ms \<and> h ! 3 = 0 \<and> (c = MYSQL_COM_QUERY \<or> c = MYSQL_COM_STMT_PREPARE)
        then shared_query ms h c reader
        else forward_packet h (carried h continued) c reader)"
proof -
  have h: "h \<noteq> []" using assms by auto
  show "mysql_payload_len h = 0 \<Longrightarrow> mysql_step ms continued (h @ rest) =
       (case carried h continued of Some kind \<Rightarrow> Next [Forward h, Accept kind] None rest
        | None \<Rightarrow> Next [Forward h] None rest)"
    using h assms by (auto simp: mysql_step_def Let_def split: option.splits bool.splits)
  show "mysql_payload_len h \<noteq> 0 \<Longrightarrow>
       mysql_step ms continued h = Stop [] (Inl UnexpectedEof)"
    using h assms by (simp add: mysql_step_def)
  assume "mysql_payload_len h \<noteq> 0"
  then show "mysql_step ms continued (h @ c # reader) =
       (if h ! 3 = 0 \<and> c = MYSQL_COM_CHANGE_USER
        then Stop [Reject Other] (Inl IdentitySwitchRejected)
        else if ms_shared ms \<and> h ! 3 = 0 \<and> (c = MYSQL_COM_CREATE_DB \<or> c = MYSQL_COM_DROP_DB)
        then Stop [Reject Ddl] (Inl SharedStorageCommandRejected)
        else if ms_shared ms \<and> h ! 3 = 0 \<and> (c = MYSQL_COM_QUERY \<or> c = MYSQL_COM_STMT_PREPARE)
        then shared_query ms h c reader
        else forward_packet h (carried h continued) c reader)"
    using h assms by (simp add: mysql_step_def Let_def)
qed

lemma mysql_packet_split:
  obtains (short) "length client < 4"
    | (header) h where "client = h" "length h = 4"
    | (body) h c reader where "client = h @ c # reader" "length h = 4"
proof -
  consider "length client < 4" | "length client = 4" | "4 < length client" by linarith
  then show ?thesis
  proof cases
    case 3
    then have "client = take 4 client @ client ! 4 # drop 5 client"
      using id_take_nth_drop [of 4 client] by simp
    then show ?thesis using body [of "take 4 client"] 3 by simp
  qed (use that in auto)
qed

lemma mysql_step_short:
  "length client < 4 \<Longrightarrow> mysql_step ms continued client =
     Stop [] (if client = [] then Inr () else Inl UnexpectedEof)"
  by (simp add: mysql_step_def)

lemma mysql_step_header:
  assumes "length h = 4" "mysql_payload_len h = 0"
  shows "\<exists>events. mysql_step ms continued (h @ rest) = Next events None rest
    \<and> forwarded events = h \<and> (continued = None \<longrightarrow> accepted events = [])"
  using assms by (auto simp: mysql_step_cases split: option.splits)

lemma mysql_step_Next:
  assumes "mysql_step ms continued client = Next events s' rest"
  shows "client = forwarded events @ rest \<and> mysql_complete (forwarded events)
    \<and> mysql_allowed ms (forwarded events)"
proof (cases client rule: mysql_packet_split)
  case short
  then show ?thesis using assms by (simp add: mysql_step_short)
next
  case (header h)
  show ?thesis
  proof (cases "mysql_payload_len h = 0")
    case True
    then show ?thesis
      using assms header mysql_step_header [of h ms continued "[]"]
      by (auto simp: mysql_complete_def mysql_allowed_def)
  next
    case False
    then show ?thesis using assms header by (simp add: mysql_step_cases)
  qed
next
  case (body h c reader)
  show ?thesis
  proof (cases "mysql_payload_len h = 0")
    case True
    then show ?thesis
      using assms body mysql_step_header [of h ms continued "c # reader"]
      by (auto simp: mysql_complete_def mysql_allowed_def)
  next
    case False
    let ?n = "mysql_payload_len h - 1"
    have c: "h ! 3 = 0 \<longrightarrow> c \<noteq> MYSQL_COM_CHANGE_USER \<and> (ms_shared ms \<longrightarrow>
        c \<noteq> MYSQL_COM_CREATE_DB \<and> c \<noteq> MYSQL_COM_DROP_DB)"
      using assms body False by (auto simp: mysql_step_cases split: if_splits)
    have "\<exists>pay. reader = pay @ rest \<and> length pay = ?n \<and> forwarded events = h @ c # pay
      \<and> (ms_shared ms \<and> h ! 3 = 0 \<and> (c = MYSQL_COM_QUERY \<or> c = MYSQL_COM_STMT_PREPARE)
         \<longrightarrow> ms_validate ms pay)"
    proof (cases "ms_shared ms \<and> h ! 3 = 0 \<and> (c = MYSQL_COM_QUERY \<or> c = MYSQL_COM_STMT_PREPARE)")
      case True
      then have "shared_query ms h c reader = Next events s' rest"
        using assms body False by (auto simp: mysql_step_cases split: if_splits)
      from shared_query_Next [OF this] show ?thesis using True by auto
    next
      case plain: False
      then have "\<exists>s. forward_packet h s c reader = Next events s' rest"
        using assms body False by (auto simp: mysql_step_cases split: if_splits)
      then obtain s where "forward_packet h s c reader = Next events s' rest" by blast
      from forward_packet_Next [OF this] show ?thesis
        using plain by (intro exI [of _ "take ?n reader"]) auto
    qed
    then show ?thesis
      using body c False
      by (auto simp: mysql_complete_def mysql_allowed_def nth_append)
  qed
qed

lemma mysql_step_Stop:
  assumes "mysql_step ms continued client = Stop events r"
  shows "(\<exists>frame. prefix (forwarded events) frame \<and> prefix frame client
      \<and> (frame = [] \<or> mysql_allowed ms frame))
    \<and> (r = Inr () \<longrightarrow> client = [] \<and> events = [])"
proof (cases client rule: mysql_packet_split)
  case short
  then show ?thesis using assms by (auto simp: mysql_step_short intro: exI [of _ "[]"] split: if_splits)
next
  case (header h)
  show ?thesis
  proof (cases "mysql_payload_len h = 0")
    case True
    then show ?thesis using assms header mysql_step_header [of h ms continued "[]"] by auto
  next
    case False
    then show ?thesis
      using assms header by (auto simp: mysql_step_cases intro: exI [of _ "[]"])
  qed
next
  case (body h c reader)
  show ?thesis
  proof (cases "mysql_payload_len h = 0")
    case True
    then show ?thesis using assms body mysql_step_header [of h ms continued "c # reader"] by auto
  next
    case False
    consider "forwarded events = []" "r \<noteq> Inr ()"
      | "shared_query ms h c reader = Stop events r" "c \<noteq> MYSQL_COM_CHANGE_USER"
        "c \<noteq> MYSQL_COM_CREATE_DB" "c \<noteq> MYSQL_COM_DROP_DB"
      | s where "forward_packet h s c reader = Stop events r"
        "mysql_allowed ms (h @ c # reader)"
      using assms body False
      by (auto simp: mysql_step_cases mysql_allowed_def nth_append split: if_splits)
    then show ?thesis
    proof cases
      case 1
      then show ?thesis by (auto intro: exI [of _ "[]"])
    next
      case 2
      then show ?thesis
        using shared_query_Stop [OF 2(1)] body
        by (fastforce simp: mysql_allowed_def nth_append)
    next
      case 3
      then show ?thesis using forward_packet_Stop [OF 3(1)] body by auto
    qed
  qed
qed

lemma mysql_step_passes:
  assumes "mysql_passes ms p"
  shows "\<exists>events. mysql_step ms None (p @ rest) = Next events None rest
    \<and> accepted events = mysql_counts ms p"
proof -
  have p: "mysql_complete p" "mysql_allowed ms p"
    "mysql_payload_len p < MYSQL_MAX_SINGLE_PACKET_PAYLOAD"
    and env: "ms_shared ms \<Longrightarrow> ms_reserve ms reader n" "ms_shared ms \<Longrightarrow> ms_deadline ms = (\<lambda>_. None)"
    for reader n
    using assms by (auto simp: mysql_passes_def)
  show ?thesis
  proof (cases p rule: mysql_packet_split)
    case short
    then show ?thesis using p(1) by (simp add: mysql_complete_def)
  next
    case (header h)
    then have "mysql_payload_len h = 0" using p(1) by (simp add: mysql_complete_def)
    then show ?thesis
      using mysql_step_header [of h ms None rest] header by (auto simp: mysql_counts_def)
  next
    case (body h c pay)
    then have n: "length pay = mysql_payload_len h - 1" "mysql_payload_len h \<noteq> 0"
      using p(1) by (auto simp: mysql_complete_def)
    have small: "mysql_payload_len h < MYSQL_MAX_SINGLE_PACKET_PAYLOAD" using p(3) body by simp
    have c: "h ! 3 = 0 \<longrightarrow> c \<noteq> MYSQL_COM_CHANGE_USER \<and> (ms_shared ms \<longrightarrow>
        c \<noteq> MYSQL_COM_CREATE_DB \<and> c \<noteq> MYSQL_COM_DROP_DB
        \<and> (c = MYSQL_COM_QUERY \<or> c = MYSQL_COM_STMT_PREPARE \<longrightarrow> ms_validate ms pay))"
      using p(2) body by (auto simp: mysql_allowed_def nth_append)
    show ?thesis
    proof (cases "ms_shared ms \<and> h ! 3 = 0 \<and> (c = MYSQL_COM_QUERY \<or> c = MYSQL_COM_STMT_PREPARE)")
      case True
      then have "shared_query ms h c (pay @ rest) =
          Next [Forward h, Forward (c # pay), Accept (classify_sql pay)] None rest"
        using shared_query_passes [of pay h ms c rest] n(1) c env small by blast
      then show ?thesis
        using True body n(2) by (auto simp: mysql_step_cases mysql_counts_def nth_append)
    next
      case False
      then have "mysql_step ms None (p @ rest) = forward_packet h None c (pay @ rest)"
        using body n(2) c by (auto simp: mysql_step_cases)
      then show ?thesis
        using forward_packet_passes [OF n(1) small, of c rest] False body
        by (auto simp: mysql_counts_def nth_append)
    qed
  qed
qed

function mysql_upload :: "mysql_session \<Rightarrow> operation_kind option \<Rightarrow> byte list \<Rightarrow> upload_result" where
  "mysql_upload ms continued client =
     (case mysql_step ms continued client of
        Stop events r \<Rightarrow> (events, r)
      | Next events s' rest \<Rightarrow> prepend events (mysql_upload ms s' rest))"
  by pat_completeness auto
termination
proof (relation "measure (\<lambda>(ms, continued, client). length client)", goal_cases)
  case (2 ms continued client events s' rest)
  then have "client = forwarded events @ rest" "forwarded events \<noteq> []"
    using mysql_step_Next by (fastforce simp: mysql_complete_def)+
  then show ?case by simp
qed simp

declare mysql_upload.simps [simp del]

interpretation mysql_relay: counting_relay "mysql_step ms" "mysql_upload ms"
  mysql_complete "mysql_allowed ms" None "mysql_passes ms" "mysql_counts ms" for ms
proof (unfold_locales, goal_cases)
  case (1 s client)
  show ?case by (rule mysql_upload.simps)
next
  case (2 s client events s' rest)
  then show ?case using mysql_step_Next by (fastforce simp: mysql_complete_def)
next
  case (3 s client events r)
  then show ?case using mysql_step_Stop by blast
next
  case (4 s client events)
  then show ?case using mysql_step_Stop by blast
next
  case (5 frame rest)
  then show ?case by (rule mysql_step_passes)
next
  case 6
  show ?case by (simp add: mysql_step_short)
qed

section \<open>Properties\<close>


definition ex_shared :: mysql_session where
  "ex_shared = \<lparr>ms_shared = True, ms_validate = (\<lambda>sql. sql \<noteq> ascii ''DROP''),
     ms_reserve = (\<lambda>_ _. True), ms_deadline = (\<lambda>_. None)\<rparr>"

definition ex_query :: "byte list" where
  "ex_query = [8, 0, 0, 0, 3] @ ascii ''/**/DO;''"

lemma ex_query_passes: "mysql_passes ex_shared ex_query" "mysql_counts ex_shared ex_query = [Other]"
  by (simp_all add: ex_query_def ex_shared_def mysql_passes_def mysql_complete_def
      mysql_allowed_def mysql_payload_len_def mysql_counts_def classify_sql_def
      sql_keyword.simps [of "[47, 42, 42, 47, 68, 79, 59]"] sql_keyword.simps [of "[68, 79, 59]"]
      is_ascii_whitespace_def is_word_byte_def is_ascii_alphanumeric_def is_ascii_alphabetic_def
      matches_any_ignore_case_def SQL_READ_KEYWORDS_def SQL_WRITE_KEYWORDS_def
      SQL_DDL_KEYWORDS_def eq_ignore_ascii_case_def to_ascii_lowercase_def ascii_def)




end
