(* ===== verification/MongoRelay.thy ===== *)
theory MongoRelay
  imports Relay
begin

text \<open>
  The relay of an authenticated MongoDB connection (\<open>gateway/listeners/listener_io/mongodb.rs\<close>):
  of every message only the beginning is read, far enough to see the command; compressed messages
  and commands that would authenticate again end the session before a byte of them is forwarded.
\<close>

section \<open>Reading the beginning of a message\<close>

abbreviation MONGODB_OP_COMPRESSED :: int where
  "MONGODB_OP_COMPRESSED \<equiv> 2012"

abbreviation MONGODB_MAX_CSTRING_BYTES :: nat where
  "MONGODB_MAX_CSTRING_BYTES \<equiv> 1024"

definition append_exact :: "byte list \<Rightarrow> byte list \<Rightarrow> nat \<Rightarrow> nat \<Rightarrow>
    listener_error + (byte list \<times> byte list)" where
  "append_exact reader pre n message_len =
     (case checked_add (length pre) n of
        None \<Rightarrow> Inl MalformedMongodb
      | Some finish \<Rightarrow>
          if finish > message_len then Inl MalformedMongodb
          else if length reader < n then Inl UnexpectedEof
          else Inr (pre @ take n reader, drop n reader))"

fun append_cstring_from :: "byte list \<Rightarrow> byte list \<Rightarrow> byte list \<Rightarrow> nat \<Rightarrow>
    listener_error + (byte list \<times> byte list \<times> byte list)" where
  "append_cstring_from reader pre v message_len =
     (if length v \<ge> MONGODB_MAX_CSTRING_BYTES \<or> length pre \<ge> message_len
      then Inl MalformedMongodb
      else case reader of
        [] \<Rightarrow> Inl UnexpectedEof
      | b # rest \<Rightarrow>
          if b = 0 then Inr (v, pre @ [b], rest)
          else append_cstring_from rest (pre @ [b]) (v @ [b]) message_len)"

declare append_cstring_from.simps [simp del]

definition append_cstring :: "byte list \<Rightarrow> byte list \<Rightarrow> nat \<Rightarrow>
    listener_error + (byte list \<times> byte list \<times> byte list)" where
  "append_cstring reader pre message_len = append_cstring_from reader pre [] message_len"

definition read_mongodb_command_key :: "byte list \<Rightarrow> byte list \<Rightarrow> nat \<Rightarrow>
    listener_error + (byte list \<times> byte list \<times> byte list)" where
  "read_mongodb_command_key reader pre message_len =
     (let start = length pre in
      bind_result (append_exact reader pre 5 message_len) (\<lambda>(pre, reader).
        let document_len = i32_at pre start in
        if document_len < 5 \<or> nat document_len > message_len - start
        then Inl MalformedMongodb
        else if pre ! (start + 4) = 0 then Inl MalformedMongodb
        else append_cstring reader pre message_len))"

definition ends_with_cmd :: "byte list \<Rightarrow> bool" where
  "ends_with_cmd collection = suffix (ascii ''.$cmd'') collection"

definition read_command :: "int \<Rightarrow> byte list \<Rightarrow> byte list \<Rightarrow> nat \<Rightarrow>
    listener_error + (byte list option \<times> byte list \<times> byte list)" where
  "read_command opcode header reader message_len =
     (if opcode = OP_MSG then
        bind_result (append_exact reader header 5 message_len) (\<lambda>(pre, reader).
          if pre ! 20 \<noteq> 0 then Inl MalformedMongodb
          else bind_result (read_mongodb_command_key reader pre message_len)
            (\<lambda>(command, pre, reader). Inr (Some command, pre, reader)))
      else if opcode = OP_QUERY then
        bind_result (append_exact reader header 4 message_len) (\<lambda>(pre, reader).
          bind_result (append_cstring reader pre message_len) (\<lambda>(collection, pre, reader).
            bind_result (append_exact reader pre 8 message_len) (\<lambda>(pre, reader).
              bind_result (read_mongodb_command_key reader pre message_len)
                (\<lambda>(command, pre, reader).
                  Inr (if ends_with_cmd collection then Some command else None, pre, reader)))))
      else Inr (None, header, reader))"

text \<open>The bytes read so far, the declared length, the command if there is one, and the input left.\<close>

definition read_mongodb_prefix :: "byte list \<Rightarrow>
    listener_error + (byte list \<times> nat \<times> byte list option \<times> byte list) option" where
  "read_mongodb_prefix reader =
     (if reader = [] then Inr None
      else if length reader < 16 then Inl UnexpectedEof
      else let header = take 16 reader; reader = drop 16 reader; len = i32_at header 0 in
        if \<not> (16 \<le> len \<and> len \<le> int MAX_WIRE_MESSAGE_BYTES) then Inl MalformedMongodb
        else let message_len = nat len; opcode = i32_at header 12 in
          if opcode = MONGODB_OP_COMPRESSED then Inl IdentitySwitchRejected
          else bind_result (read_command opcode header reader message_len)
            (\<lambda>(command, pre, reader).
              if (case command of Some c \<Rightarrow> is_mongodb_identity_command c | None \<Rightarrow> False)
              then Inl IdentitySwitchRejected
              else Inr (Some (pre, message_len, command, reader))))"

section \<open>The loop\<close>

definition mongodb_step :: "unit \<Rightarrow> byte list \<Rightarrow> unit round" where
  "mongodb_step _ client =
     (case read_mongodb_prefix client of
        Inl IdentitySwitchRejected \<Rightarrow> Stop [Reject Other] (Inl IdentitySwitchRejected)
      | Inl e \<Rightarrow> Stop [] (Inl e)
      | Inr None \<Rightarrow> Stop [] (Inr ())
      | Inr (Some (pre, message_len, command, reader)) \<Rightarrow>
          let (copied, complete) = copy_exact reader (message_len - length pre) in
          if \<not> complete then Stop [Forward pre, copied] (Inl UnexpectedEof)
          else Next ([Forward pre, copied] @
                     (case command of Some c \<Rightarrow> [Accept (classify_mongodb c)] | None \<Rightarrow> []))
                 () (drop (message_len - length pre) reader))"

section \<open>Messages as they are on the wire\<close>

definition cstring_at :: "byte list \<Rightarrow> nat \<Rightarrow> byte list" where
  "cstring_at m i = takeWhile (\<lambda>b. b \<noteq> 0) (drop i m)"

text \<open>The command of a message: the first key of the body document of an \<open>OP_MSG\<close>, or of the
  query document of an \<open>OP_QUERY\<close> on a command collection.\<close>

definition mongodb_command :: "byte list \<Rightarrow> byte list option" where
  "mongodb_command m =
     (if i32_at m 12 = OP_MSG then Some (cstring_at m 26)
      else if i32_at m 12 = OP_QUERY then
        let collection = cstring_at m 20 in
        if suffix (ascii ''.$cmd'') collection
        then Some (cstring_at m (20 + length collection + 1 + 8 + 5)) else None
      else None)"

definition mongodb_allowed :: "byte list \<Rightarrow> bool" where
  "mongodb_allowed m =
     (i32_at m 12 \<noteq> MONGODB_OP_COMPRESSED
      \<and> (case mongodb_command m of None \<Rightarrow> True | Some c \<Rightarrow> \<not> is_mongodb_identity_command c))"

definition mongodb_complete :: "byte list \<Rightarrow> bool" where
  "mongodb_complete m = (16 \<le> length m \<and> int (length m) = i32_at m 0)"

definition mongodb_counts :: "byte list \<Rightarrow> operation_kind list" where
  "mongodb_counts m =
     (case mongodb_command m of None \<Rightarrow> [] | Some c \<Rightarrow> [classify_mongodb c])"

lemma i32_at_prefix: "n + 4 \<le> length p \<Longrightarrow> i32_at (p @ ext) n = i32_at p n"
  by (simp add: i32_at_def slice_def)

lemma cstring_at_append:
  "0 \<notin> set w \<Longrightarrow> n = length pre \<Longrightarrow> cstring_at (pre @ w @ 0 # ext) n = w"
  by (auto simp: cstring_at_def takeWhile_append)

lemma append_exact_Inr:
  "append_exact reader pre n len = Inr (pre', rest) \<Longrightarrow>
     \<exists>x. length x = n \<and> pre' = pre @ x \<and> reader = x @ rest \<and> length pre' \<le> len"
  by (auto simp: append_exact_def checked_add_Some split: option.splits if_splits
      intro!: exI [of _ "take n reader"])

lemma append_cstring_from_Inr:
  assumes "append_cstring_from reader pre v len = Inr (c, pre', rest)"
  shows "\<exists>w. c = v @ w \<and> 0 \<notin> set w \<and> pre' = pre @ w @ [0] \<and> reader = w @ 0 # rest
    \<and> length pre' \<le> len"
  using assms
proof (induction reader arbitrary: pre v)
  case Nil
  then show ?case by (simp add: append_cstring_from.simps split: if_splits)
next
  case (Cons b reader)
  show ?case
  proof (cases "b = 0")
    case True
    then show ?thesis
      using Cons.prems unfolding True
      by (auto simp: append_cstring_from.simps [of "0 # reader"] split: if_splits)
  next
    case False
    then have "append_cstring_from reader (pre @ [b]) (v @ [b]) len = Inr (c, pre', rest)"
      using Cons.prems by (simp add: append_cstring_from.simps [of "b # reader"] split: if_splits)
    from Cons.IH [OF this] obtain w where
      "c = v @ b # w" "0 \<notin> set w" "pre' = pre @ b # w @ [0]" "reader = w @ 0 # rest"
      "length pre' \<le> len"
      by auto
    then show ?thesis using False by (intro exI [of _ "b # w"]) auto
  qed
qed

lemma append_cstring_Inr:
  "append_cstring reader pre len = Inr (c, pre', rest) \<Longrightarrow>
     0 \<notin> set c \<and> pre' = pre @ c @ [0] \<and> reader = c @ 0 # rest \<and> length pre' \<le> len"
  using append_cstring_from_Inr [of reader pre "[]"] by (auto simp: append_cstring_def)

lemma command_key_Inr:
  assumes "read_mongodb_command_key reader pre len = Inr (c, pre', rest)"
  shows "\<exists>x. length x = 5 \<and> 0 \<notin> set c \<and> pre' = pre @ x @ c @ [0] \<and> reader = x @ c @ 0 # rest
    \<and> length pre' \<le> len"
  using assms unfolding read_mongodb_command_key_def Let_def
  by (auto elim!: bind_result_InrE dest!: append_exact_Inr append_cstring_Inr split: if_splits)

lemma read_command_msg:
  assumes "read_command OP_MSG h r len = Inr (command, pre, rest)"
  shows "\<exists>x c. length x = 10 \<and> 0 \<notin> set c \<and> command = Some c \<and> pre = h @ x @ c @ [0]
    \<and> r = x @ c @ 0 # rest \<and> length pre \<le> len"
  using assms
  by (fastforce simp: read_command_def elim!: bind_result_InrE
      dest!: append_exact_Inr command_key_Inr split: if_splits)

lemma read_command_query:
  assumes "read_command OP_QUERY h r len = Inr (command, pre, rest)"
  shows "\<exists>x coll y c. length x = 4 \<and> 0 \<notin> set coll \<and> length y = 13 \<and> 0 \<notin> set c
    \<and> command = (if ends_with_cmd coll then Some c else None)
    \<and> pre = h @ x @ coll @ 0 # y @ c @ [0] \<and> r = x @ coll @ 0 # y @ c @ 0 # rest
    \<and> length pre \<le> len"
proof -
  obtain x coll a y1 y2 c where "length x = 4" "0 \<notin> set coll" "length y1 = 8" "length y2 = 5"
    "0 \<notin> set c" "command = (if ends_with_cmd coll then Some c else None)"
    "pre = h @ x @ coll @ 0 # (y1 @ y2) @ c @ [0]" "r = x @ coll @ 0 # (y1 @ y2) @ c @ 0 # rest"
    "length pre \<le> len"
    using assms
    by (auto simp: read_command_def elim!: bind_result_InrE
        dest!: append_exact_Inr append_cstring_Inr command_key_Inr)
  then show ?thesis
    by (intro exI [of _ x] exI [of _ coll] exI [of _ "y1 @ y2"] exI [of _ c]) simp
qed

text \<open>What was read of a message is the beginning of the input and shows its command, whatever
  follows.\<close>

lemma read_command_Inr:
  assumes "read_command (i32_at h 12) h r len = Inr (command, pre, rest)"
    and "length h = 16" "16 \<le> len"
  shows "h @ r = pre @ rest \<and> prefix h pre \<and> length pre \<le> len
    \<and> mongodb_command (pre @ ext) = command"
proof -
  have op: "i32_at (h @ z) 12 = i32_at h 12" for z using assms(2) by (simp add: i32_at_prefix)
  consider "i32_at h 12 = OP_MSG" | "i32_at h 12 = OP_QUERY"
    | "i32_at h 12 \<noteq> OP_MSG" "i32_at h 12 \<noteq> OP_QUERY" by blast
  then show ?thesis
  proof cases
    case 1
    then obtain x c where *: "length x = 10" "0 \<notin> set c" "command = Some c"
      "pre = h @ x @ c @ [0]" "r = x @ c @ 0 # rest" "length pre \<le> len"
      using read_command_msg assms(1) by metis
    then show ?thesis
      using 1 op cstring_at_append [of c 26 "h @ x" ext] assms(2)
      by (simp add: mongodb_command_def)
  next
    case 2
    then obtain x coll y c where *: "length x = 4" "0 \<notin> set coll" "length y = 13" "0 \<notin> set c"
      "command = (if ends_with_cmd coll then Some c else None)"
      "pre = h @ x @ coll @ 0 # y @ c @ [0]" "r = x @ coll @ 0 # y @ c @ 0 # rest"
      "length pre \<le> len"
      using read_command_query assms(1) by metis
    then show ?thesis
      using 2 op cstring_at_append [of coll 20 "h @ x" "y @ c @ 0 # ext"] assms(2)
        cstring_at_append [of c "20 + length coll + 1 + 8 + 5" "h @ x @ coll @ 0 # y" ext]
      by (simp add: mongodb_command_def ends_with_cmd_def)
  next
    case 3
    then have "command = None" "pre = h" "r = rest" using assms(1) by (auto simp: read_command_def)
    then show ?thesis using 3 op assms(2,3) by (simp add: mongodb_command_def)
  qed
qed

lemma read_mongodb_prefix_Some:
  assumes "read_mongodb_prefix client = Inr (Some (pre, len, command, rest))"
  shows "client = pre @ rest" "16 \<le> length pre" "length pre \<le> len"
    "i32_at (pre @ ext) 0 = int len" "mongodb_command (pre @ ext) = command"
    "mongodb_allowed (pre @ ext)"
proof -
  define h where "h = take 16 client"
  define r where "r = drop 16 client"
  have h: "length h = 16" "client = h @ r" and len: "len = nat (i32_at h 0)" "16 \<le> i32_at h 0"
    and op: "i32_at h 12 \<noteq> MONGODB_OP_COMPRESSED"
    and cmd: "read_command (i32_at h 12) h r len = Inr (command, pre, rest)"
    and ident: "\<forall>c. command = Some c \<longrightarrow> \<not> is_mongodb_identity_command c"
    using assms
    by (auto simp: read_mongodb_prefix_def Let_def h_def r_def elim!: bind_result_InrE
        split: if_splits option.splits)
  have R: "h @ r = pre @ rest" "prefix h pre" "length pre \<le> len"
    "mongodb_command (pre @ ext) = command"
    using read_command_Inr [OF cmd h(1)] len by auto
  show "client = pre @ rest" using h R(1) by simp
  show "16 \<le> length pre" using R(2) h(1) prefix_length_le by fastforce
  show "length pre \<le> len" by (rule R(3))
  obtain z where z: "pre = h @ z" using R(2) by (auto simp: prefix_def)
  show "i32_at (pre @ ext) 0 = int len" using h(1) len by (simp add: z i32_at_prefix)
  show "mongodb_command (pre @ ext) = command" by (rule R(4))
  have "i32_at (pre @ ext) 12 = i32_at h 12" using h(1) by (simp add: z i32_at_prefix)
  then show "mongodb_allowed (pre @ ext)"
    using op ident R(4) by (auto simp: mongodb_allowed_def split: option.splits)
qed

section \<open>Rounds of the loop\<close>

lemma mongodb_step_Next:
  assumes "mongodb_step s client = Next events s' rest"
  shows "client = forwarded events @ rest \<and> mongodb_complete (forwarded events)
    \<and> mongodb_allowed (forwarded events) \<and> accepted events = mongodb_counts (forwarded events)"
proof -
  obtain pre len command reader where
    p: "read_mongodb_prefix client = Inr (Some (pre, len, command, reader))"
    and n: "len - length pre \<le> length reader"
    and rest: "rest = drop (len - length pre) reader"
    and ev: "events = [Forward pre, Forward (take (len - length pre) reader)] @
      (case command of Some c \<Rightarrow> [Accept (classify_mongodb c)] | None \<Rightarrow> [])"
    using assms
    by (auto simp: mongodb_step_def copy_exact_def Let_def
        split: sum.splits option.splits prod.splits if_splits listener_error.splits)
  note P = read_mongodb_prefix_Some [OF p]
  have f: "forwarded events = pre @ take (len - length pre) reader"
    by (auto simp: ev split: option.splits)
  have "accepted events = (case command of None \<Rightarrow> [] | Some c \<Rightarrow> [classify_mongodb c])"
    by (auto simp: ev split: option.splits)
  then show ?thesis
    using P n unfolding f rest
    by (auto simp: mongodb_complete_def mongodb_counts_def)
qed

lemma mongodb_step_Stop:
  assumes "mongodb_step s client = Stop events r"
  shows "(\<exists>frame. prefix (forwarded events) frame \<and> prefix frame client
      \<and> (frame = [] \<or> mongodb_allowed frame))
    \<and> (r = Inr () \<longrightarrow> client = [] \<and> events = [])"
proof -
  consider "forwarded events = []" "r \<noteq> Inr ()"
    | "events = []" "r = Inr ()" "read_mongodb_prefix client = Inr None"
    | pre len command reader where
      "read_mongodb_prefix client = Inr (Some (pre, len, command, reader))"
      "forwarded events = pre @ take (len - length pre) reader" "r \<noteq> Inr ()"
    using assms
    by (auto simp: mongodb_step_def copy_exact_def Let_def
        split: sum.splits option.splits prod.splits if_splits listener_error.splits)
  then show ?thesis
  proof cases
    case 1
    then show ?thesis by (auto intro: exI [of _ "[]"])
  next
    case 2
    then have "client = []"
      by (auto simp: read_mongodb_prefix_def Let_def elim!: bind_result_InrE split: if_splits)
    then show ?thesis using 2 by simp
  next
    case 3
    note P = read_mongodb_prefix_Some [OF 3(1)]
    have "prefix (forwarded events) client"
      unfolding P(1) 3(2) by (simp add: take_is_prefix)
    then show ?thesis using P(1) P(6) [of reader] 3(3) by auto
  qed
qed

function mongodb_upload :: "unit \<Rightarrow> byte list \<Rightarrow> upload_result" where
  "mongodb_upload s client =
     (case mongodb_step s client of
        Stop events r \<Rightarrow> (events, r)
      | Next events s' rest \<Rightarrow> prepend events (mongodb_upload s' rest))"
  by pat_completeness auto
termination
proof (relation "measure (\<lambda>(s, client). length client)", goal_cases)
  case (2 s client events s' rest)
  then have "client = forwarded events @ rest" "forwarded events \<noteq> []"
    using mongodb_step_Next by (fastforce simp: mongodb_complete_def)+
  then show ?case by simp
qed simp

declare mongodb_upload.simps [simp del]

text \<open>Messages that are let through: any opcode the gateway does not look into, and an \<open>OP_MSG\<close>
  that begins with its body document.\<close>

definition mongodb_passes :: "byte list \<Rightarrow> bool" where
  "mongodb_passes m =
     (mongodb_complete m \<and> mongodb_allowed m \<and> length m \<le> MAX_WIRE_MESSAGE_BYTES
      \<and> i32_at m 12 \<noteq> OP_QUERY
      \<and> (i32_at m 12 = OP_MSG \<longrightarrow>
          m ! 20 = 0 \<and> 5 \<le> i32_at m 21 \<and> i32_at m 21 \<le> int (length m) - 21
          \<and> m ! 25 \<noteq> 0 \<and> 0 \<in> set (drop 26 m)
          \<and> length (cstring_at m 26) < MONGODB_MAX_CSTRING_BYTES))"

lemma append_cstring_from_ok:
  assumes "0 \<notin> set w" "length v + length w < MONGODB_MAX_CSTRING_BYTES"
    "length pre + length w < len"
  shows "append_cstring_from (w @ 0 # rest) pre v len = Inr (v @ w, pre @ w @ [0], rest)"
  using assms
proof (induction w arbitrary: pre v)
  case Nil
  then show ?case by (simp add: append_cstring_from.simps [of "0 # rest"])
next
  case (Cons b w)
  then show ?case
    using Cons.IH [of "v @ [b]" "pre @ [b]"]
    by (auto simp: append_cstring_from.simps [of "b # w @ 0 # rest"])
qed

lemma append_exact_ok:
  assumes "length pre + length x \<le> len" "len \<le> u64_max"
  shows "append_exact (x @ rest) pre (length x) len = Inr (pre @ x, rest)"
  using assms by (simp add: append_exact_def checked_add_def)

lemma read_command_ok:
  assumes "length h = 16" "length f = 5" "length x = 5" "0 \<notin> set c"
    "length c < MONGODB_MAX_CSTRING_BYTES"
    and "f ! 4 = 0" "x ! 4 \<noteq> 0" "5 \<le> i32_at x 0" "i32_at x 0 \<le> int len - 21"
    and "27 + length c \<le> len" "len \<le> u64_max"
  shows "read_command OP_MSG h (f @ x @ c @ 0 # rest) len =
    Inr (Some c, h @ f @ x @ c @ [0], rest)"
proof -
  have 1: "append_exact (f @ x @ c @ 0 # rest) h 5 len = Inr (h @ f, x @ c @ 0 # rest)"
    using append_exact_ok [of h f len "x @ c @ 0 # rest"] assms by simp
  have 2: "append_exact (x @ c @ 0 # rest) (h @ f) 5 len = Inr (h @ f @ x, c @ 0 # rest)"
    using append_exact_ok [of "h @ f" x len "c @ 0 # rest"] assms by simp
  have 3: "i32_at (h @ f @ x) 21 = i32_at x 0"
    using assms(1,2) by (simp add: i32_at_def slice_def)
  have "read_mongodb_command_key (x @ c @ 0 # rest) (h @ f) len =
      Inr (c, h @ f @ x @ c @ [0], rest)"
    using assms 2 3 append_cstring_from_ok [of c "[]" "h @ f @ x" len rest]
    by (simp add: read_mongodb_command_key_def append_cstring_def nth_append)
  then show ?thesis using 1 assms(1,6) by (simp add: read_command_def nth_append)
qed

lemma read_mongodb_prefix_ok:
  assumes "read_command (i32_at h 12) h r (length m) = Inr (command, pre, reader)"
    and "length h = 16" "m @ rest = h @ r" "mongodb_complete m" "mongodb_allowed m"
    and "length m \<le> MAX_WIRE_MESSAGE_BYTES" "mongodb_command m = command"
  shows "read_mongodb_prefix (m @ rest) = Inr (Some (pre, length m, command, reader))"
proof -
  have m: "16 \<le> length m" "i32_at m 0 = int (length m)"
    using assms(4) by (auto simp: mongodb_complete_def)
  have h: "take 16 (m @ rest) = h" "drop 16 (m @ rest) = r" using assms(2,3) by simp_all
  have pre: "h = take 16 m" using h(1) m(1) by simp
  then have at: "i32_at h 0 = int (length m)" "i32_at h 12 = i32_at m 12"
    using m by (simp_all add: i32_at_def slice_take)
  have ok: "i32_at h 12 \<noteq> MONGODB_OP_COMPRESSED"
    "\<not> (case command of Some c \<Rightarrow> is_mongodb_identity_command c | None \<Rightarrow> False)"
    using assms(5,7) at by (auto simp: mongodb_allowed_def split: option.splits)
  have "m @ rest \<noteq> []" "\<not> length (m @ rest) < 16"
    "16 \<le> int (length m) \<and> int (length m) \<le> int MAX_WIRE_MESSAGE_BYTES"
    using m(1) assms(6) by auto
  then show ?thesis
    using assms(1) ok
    by (simp only: read_mongodb_prefix_def Let_def h at(1) simp_thms if_False nat_int
        bind_result.simps prod.case)
qed

lemma mongodb_step_of_prefix:
  assumes "read_mongodb_prefix (m @ rest) = Inr (Some (pre, length m, command, body @ rest))"
    and "m = pre @ body"
  shows "\<exists>events. mongodb_step s (m @ rest) = Next events () rest"
proof -
  have "length m - length pre = length body" using assms(2) by simp
  then show ?thesis using assms(1) by (simp add: mongodb_step_def copy_exact_def)
qed

lemma mongodb_step_passes:
  assumes "mongodb_passes m"
  shows "\<exists>events. mongodb_step s (m @ rest) = Next events () rest"
proof -
  have m: "mongodb_complete m" "mongodb_allowed m" "length m \<le> MAX_WIRE_MESSAGE_BYTES"
    "i32_at m 12 \<noteq> OP_QUERY" "16 \<le> length m"
    using assms by (auto simp: mongodb_passes_def mongodb_complete_def)
  define h where "h = take 16 m"
  have h: "length h = 16" "i32_at h 12 = i32_at m 12" "m = h @ drop 16 m"
    using m(5) by (simp_all add: h_def i32_at_def slice_take)
  show ?thesis
  proof (cases "i32_at m 12 = OP_MSG")
    case False
    have "read_command (i32_at h 12) h (drop 16 m @ rest) (length m) =
        Inr (None, h, drop 16 m @ rest)"
      using False m(4) h(2) by (simp add: read_command_def)
    moreover have "mongodb_command m = None" using False m(4) by (simp add: mongodb_command_def)
    moreover have "m @ rest = h @ drop 16 m @ rest" using h(3) by (metis append_assoc)
    ultimately have "read_mongodb_prefix (m @ rest) =
        Inr (Some (h, length m, None, drop 16 m @ rest))"
      using read_mongodb_prefix_ok [of h "drop 16 m @ rest" m] h(1) m by blast
    then show ?thesis using mongodb_step_of_prefix h(3) by blast
  next
    case True
    then have f: "m ! 20 = 0" "5 \<le> i32_at m 21" "i32_at m 21 \<le> int (length m) - 21"
      "m ! 25 \<noteq> 0" "0 \<in> set (drop 26 m)"
      "length (cstring_at m 26) < MONGODB_MAX_CSTRING_BYTES"
      using assms by (auto simp: mongodb_passes_def)
    obtain c z where c: "drop 26 m = c @ 0 # z" "0 \<notin> set c" using split_list_first [OF f(5)] by blast
    have long: "26 < length m" using f(5) by (cases "26 < length m") auto
    define g x where "g = slice m 16 21" and "x = slice m 21 26"
    have gx: "length g = 5" "length x = 5" "g ! 4 = 0" "x ! 4 \<noteq> 0" "i32_at x 0 = i32_at m 21"
      using long f by (simp_all add: g_def x_def slice_def i32_at_def drop_take)
    have "m = take 26 m @ c @ 0 # z" using c(1) by (metis append_take_drop_id)
    moreover have "take 26 m = h @ g @ x"
      using take_add [of 16 5 m] take_add [of 21 5 m] by (simp add: h_def g_def x_def slice_def)
    ultimately have md: "m = (h @ g @ x @ c @ [0]) @ z" by simp
    have cs: "cstring_at m 26 = c"
      using cstring_at_append [OF c(2), of 26 "h @ g @ x" z] md gx h(1) by simp
    have "27 + length c \<le> length m" using arg_cong [OF md, of length] gx h(1) by simp
    then have "read_command (i32_at h 12) h (g @ x @ c @ 0 # z @ rest) (length m) =
        Inr (Some c, h @ g @ x @ c @ [0], z @ rest)"
      using read_command_ok [of h g x c "length m" "z @ rest"] h gx c f cs True m(3) by simp
    moreover have "mongodb_command m = Some c" using True cs by (simp add: mongodb_command_def)
    moreover have "m @ rest = h @ g @ x @ c @ 0 # z @ rest" using md by simp
    ultimately have "read_mongodb_prefix (m @ rest) =
        Inr (Some (h @ g @ x @ c @ [0], length m, Some c, z @ rest))"
      using read_mongodb_prefix_ok [of h "g @ x @ c @ 0 # z @ rest" m] h(1) m by blast
    then show ?thesis using mongodb_step_of_prefix md by blast
  qed
qed

interpretation mongodb_relay: counting_relay mongodb_step mongodb_upload
  mongodb_complete mongodb_allowed "()" mongodb_passes mongodb_counts
proof (unfold_locales, goal_cases)
  case (1 s client)
  show ?case by (rule mongodb_upload.simps)
next
  case (2 s client events s' rest)
  then show ?case using mongodb_step_Next by (fastforce simp: mongodb_complete_def)
next
  case (3 s client events r)
  then show ?case using mongodb_step_Stop by blast
next
  case (4 s client events)
  then show ?case using mongodb_step_Stop by blast
next
  case (5 frame rest)
  then obtain events where e: "mongodb_step () (frame @ rest) = Next events () rest"
    using mongodb_step_passes by blast
  then show ?case using mongodb_step_Next [OF e] by simp
next
  case 6
  show ?case by (simp add: mongodb_step_def read_mongodb_prefix_def)
qed

section \<open>Properties\<close>


definition ex_find :: "byte list" where
  "ex_find = [36, 0, 0, 0, 1, 0, 0, 0, 0, 0, 0, 0, 221, 7, 0, 0, 0, 0, 0, 0, 0,
     15, 0, 0, 0, 16, 102, 105, 110, 100, 0, 1, 0, 0, 0, 0]"

lemma ex_find_passes: "mongodb_passes ex_find" "mongodb_counts ex_find = [Read]"
  by (simp_all add: ex_find_def mongodb_passes_def mongodb_complete_def mongodb_allowed_def
      mongodb_command_def mongodb_counts_def i32_at_def slice_def signed32_def cstring_at_def
      is_mongodb_identity_command_def matches_any_ignore_case_def classify_mongodb_def
      MONGODB_IDENTITY_COMMANDS_def MONGODB_READ_COMMANDS_def eq_ignore_ascii_case_def
      to_ascii_lowercase_def ascii_def)


end
