(* ===== verification/RouteStore.thy ===== *)
theory RouteStore
  imports Bytes Engine HashMap
begin

text \<open>
  The in-memory store of instances and gateway routes (\<open>server/state.rs\<close>): which logged-in user
  is sent to which instance, the fences that keep routes closed while an operation runs, and the
  revisions by which a connection finds out that the route it resolved has been replaced.

  A hash set is a list without repetitions.
  Every method takes the lock once and is one operation here.
\<close>

section \<open>Instances\<close>

type_synonym str = "byte list"

datatype instance_status = Creating | Booting | Running | Stopped | Failed | Quarantined | Deleting

datatype desired_instance_state = DesiredRunning | DesiredStopped

datatype deployment_mode = Dedicated | Shared

datatype backend_endpoint = UnixSocket str | DockerTcp str nat

text \<open>The fields of the metadata that routing reads.\<close>

record instance_metadata =
  im_instance_id :: str
  im_deployment_mode :: deployment_mode
  im_protocol :: protocol
  im_status :: instance_status
  im_desired_state :: desired_instance_state
  im_disk_limit_blocked :: bool
  im_backend :: backend_endpoint
  im_username :: str
  im_database :: str
  im_route_key_sha256 :: "str option"
  im_mariadb_stage2 :: "str option"
  im_mysql_stage2 :: "str option"
  im_tenant_password :: "str option"
  im_memory_mib :: nat
  im_created_at :: str

abbreviation MEMORY_MIB_PER_CONNECTION :: nat where "MEMORY_MIB_PER_CONNECTION \<equiv> 32"
abbreviation MIN_CONNECTIONS :: nat where "MIN_CONNECTIONS \<equiv> 4"
abbreviation MAX_CONNECTIONS :: nat where "MAX_CONNECTIONS \<equiv> 100"

definition max_connections :: "nat \<Rightarrow> nat" where
  "max_connections memory_mib =
     max MIN_CONNECTIONS (min MAX_CONNECTIONS (memory_mib div MEMORY_MIB_PER_CONNECTION))"

definition connection_limit :: "instance_metadata \<Rightarrow> nat option" where
  "connection_limit metadata =
     (if im_deployment_mode metadata = Shared
      then Some (max_connections (im_memory_mib metadata)) else None)"

definition route_eligible :: "instance_metadata \<Rightarrow> bool" where
  "route_eligible metadata =
     (im_status metadata = Running \<and> im_desired_state metadata = DesiredRunning
      \<and> \<not> im_disk_limit_blocked metadata)"

record route_target =
  rt_instance_id :: str
  rt_instance_generation :: str
  rt_endpoint :: backend_endpoint
  rt_connection_limit :: "nat option"
  rt_route_revision :: nat

record mariadb_route_target =
  mt_instance_id :: str
  mt_instance_generation :: str
  mt_endpoint :: backend_endpoint
  mt_shared :: bool
  mt_native_password_sha1_stage2 :: "str option"
  mt_tenant_password :: "str option"
  mt_connection_limit :: "nat option"
  mt_route_revision :: nat

datatype 't route_resolution = Found str 't | NotFound | Ambiguous

section \<open>The state\<close>

type_synonym pair_routes = "((str \<times> str) \<times> str) list"

record instance_state =
  is_instances :: "(str \<times> instance_metadata) list"
  is_fenced_instances :: "str list"
  is_pinned_fences :: "str list"
  is_route_revisions :: "(str \<times> nat) list"
  is_next_route_revision :: nat
  is_postgres_routes :: pair_routes
  is_mariadb_routes :: pair_routes
  is_mysql_routes :: pair_routes
  is_mongodb_routes :: pair_routes
  is_clickhouse_routes :: pair_routes
  is_qdrant_routes :: "(str \<times> str) list"
  is_redis_routes :: "(str \<times> str) list"
  is_valkey_routes :: "(str \<times> str) list"
  is_redis_password_routes :: "(str \<times> str list) list"
  is_valkey_password_routes :: "(str \<times> str list) list"

definition default_state :: instance_state where
  "default_state = \<lparr>is_instances = [], is_fenced_instances = [], is_pinned_fences = [],
     is_route_revisions = [], is_next_route_revision = 0, is_postgres_routes = [],
     is_mariadb_routes = [], is_mysql_routes = [], is_mongodb_routes = [],
     is_clickhouse_routes = [], is_qdrant_routes = [], is_redis_routes = [],
     is_valkey_routes = [], is_redis_password_routes = [], is_valkey_password_routes = []\<rparr>"

text \<open>Wrap-around past the last \<open>u64\<close> skips zero.\<close>

definition next_revision :: "nat \<Rightarrow> nat" where
  "next_revision n = max 1 (if n = u64_max then 0 else n + 1)"

definition bump_route_revision :: "str \<Rightarrow> instance_state \<Rightarrow> instance_state" where
  "bump_route_revision instance_id s =
     (let n = next_revision (is_next_route_revision s) in
      s\<lparr>is_next_route_revision := n,
        is_route_revisions := hm_insert (is_route_revisions s) instance_id n\<rparr>)"

definition route_revision :: "instance_state \<Rightarrow> str \<Rightarrow> nat" where
  "route_revision s instance_id =
     (case hm_get (is_route_revisions s) instance_id of None \<Rightarrow> 0 | Some n \<Rightarrow> n)"

definition retain_others :: "str \<Rightarrow> ('k \<times> str) list \<Rightarrow> ('k \<times> str) list" where
  "retain_others instance_id routes = filter (\<lambda>(k, routed). routed \<noteq> instance_id) routes"

definition remove_password_route :: "(str \<times> str list) list \<Rightarrow> str \<Rightarrow> (str \<times> str list) list" where
  "remove_password_route routes instance_id =
     filter (\<lambda>(k, ids). ids \<noteq> []) (map (\<lambda>(k, ids). (k, removeAll instance_id ids)) routes)"

text \<open>The digest of a password under which it is looked up is a parameter.\<close>

definition add_password_route :: "(str \<Rightarrow> str) \<Rightarrow> (str \<times> str list) list \<Rightarrow> str option \<Rightarrow> str \<Rightarrow>
    (str \<times> str list) list" where
  "add_password_route digest routes password instance_id =
     (case password of
        None \<Rightarrow> routes
      | Some password \<Rightarrow>
          let key = digest password;
              ids = (case hm_get routes key of None \<Rightarrow> [] | Some ids \<Rightarrow> ids)
          in hm_insert routes key (List.insert instance_id ids))"

definition remove_routes_for :: "str \<Rightarrow> instance_state \<Rightarrow> instance_state" where
  "remove_routes_for instance_id s =
     s\<lparr>is_postgres_routes := retain_others instance_id (is_postgres_routes s),
       is_mariadb_routes := retain_others instance_id (is_mariadb_routes s),
       is_mysql_routes := retain_others instance_id (is_mysql_routes s),
       is_mongodb_routes := retain_others instance_id (is_mongodb_routes s),
       is_clickhouse_routes := retain_others instance_id (is_clickhouse_routes s),
       is_qdrant_routes := retain_others instance_id (is_qdrant_routes s),
       is_redis_routes := retain_others instance_id (is_redis_routes s),
       is_valkey_routes := retain_others instance_id (is_valkey_routes s),
       is_redis_password_routes := remove_password_route (is_redis_password_routes s) instance_id,
       is_valkey_password_routes :=
         remove_password_route (is_valkey_password_routes s) instance_id\<rparr>"

definition publish_routes ::
    "(str \<Rightarrow> str) \<Rightarrow> instance_metadata \<Rightarrow> instance_state \<Rightarrow> instance_state" where
  "publish_routes digest metadata s =
     (let instance_id = im_instance_id metadata; username = im_username metadata;
          pair = (im_username metadata, im_database metadata)
      in case im_protocol metadata of
        Postgres \<Rightarrow> s\<lparr>is_postgres_routes := hm_insert (is_postgres_routes s) pair instance_id\<rparr>
      | Redis \<Rightarrow> s\<lparr>is_redis_routes := hm_insert (is_redis_routes s) username instance_id,
          is_redis_password_routes := add_password_route digest (is_redis_password_routes s)
            (im_tenant_password metadata) instance_id\<rparr>
      | Valkey \<Rightarrow> s\<lparr>is_valkey_routes := hm_insert (is_valkey_routes s) username instance_id,
          is_valkey_password_routes := add_password_route digest (is_valkey_password_routes s)
            (im_tenant_password metadata) instance_id\<rparr>
      | Mariadb \<Rightarrow> s\<lparr>is_mariadb_routes := hm_insert (is_mariadb_routes s) pair instance_id\<rparr>
      | Mysql \<Rightarrow> s\<lparr>is_mysql_routes := hm_insert (is_mysql_routes s) pair instance_id\<rparr>
      | Mongodb \<Rightarrow> s\<lparr>is_mongodb_routes := hm_insert (is_mongodb_routes s) pair instance_id\<rparr>
      | Clickhouse \<Rightarrow>
          s\<lparr>is_clickhouse_routes := hm_insert (is_clickhouse_routes s) pair instance_id\<rparr>
      | Qdrant \<Rightarrow>
          (case im_route_key_sha256 metadata of
             None \<Rightarrow> s
           | Some key \<Rightarrow> s\<lparr>is_qdrant_routes := hm_insert (is_qdrant_routes s) key instance_id\<rparr>))"

definition put_instance :: "instance_metadata \<Rightarrow> instance_state \<Rightarrow> instance_state" where
  "put_instance metadata s =
     s\<lparr>is_instances := hm_insert (is_instances s) (im_instance_id metadata) metadata\<rparr>"

definition fence_id :: "str \<Rightarrow> instance_state \<Rightarrow> instance_state" where
  "fence_id instance_id s =
     s\<lparr>is_fenced_instances := List.insert instance_id (is_fenced_instances s)\<rparr>"

definition unfence_id :: "str \<Rightarrow> instance_state \<Rightarrow> instance_state" where
  "unfence_id instance_id s =
     s\<lparr>is_fenced_instances := removeAll instance_id (is_fenced_instances s)\<rparr>"

section \<open>Operations on the state\<close>

definition upsert :: "(str \<Rightarrow> str) \<Rightarrow> instance_metadata \<Rightarrow> instance_state \<Rightarrow> instance_state" where
  "upsert digest metadata s =
     (let instance_id = im_instance_id metadata;
          s = remove_routes_for instance_id (bump_route_revision instance_id s)
      in if instance_id \<in> set (is_pinned_fences s)
         then put_instance metadata (fence_id instance_id s)
         else let s = unfence_id instance_id s in
           put_instance metadata
             (if route_eligible metadata then publish_routes digest metadata s else s))"

definition fence_existing :: "str \<Rightarrow> instance_state \<Rightarrow> instance_state \<times> bool" where
  "fence_existing instance_id s =
     (if hm_get (is_instances s) instance_id = None then (s, False)
      else (fence_id instance_id
              (remove_routes_for instance_id (bump_route_revision instance_id s)), True))"

definition upsert_fenced :: "instance_metadata \<Rightarrow> instance_state \<Rightarrow> instance_state" where
  "upsert_fenced metadata s =
     (let instance_id = im_instance_id metadata in
      put_instance metadata (fence_id instance_id
        (remove_routes_for instance_id (bump_route_revision instance_id s))))"

definition upsert_preserving_fence ::
    "(str \<Rightarrow> str) \<Rightarrow> instance_metadata \<Rightarrow> instance_state \<Rightarrow> instance_state" where
  "upsert_preserving_fence digest metadata s =
     (let was_open = (case hm_get (is_instances s) (im_instance_id metadata) of
            None \<Rightarrow> False | Some old \<Rightarrow> route_eligible old)
          \<and> im_instance_id metadata \<notin> set (is_fenced_instances s)
      in if was_open then upsert digest metadata s else upsert_fenced metadata s)"

definition remove_instance ::
    "str \<Rightarrow> instance_state \<Rightarrow> instance_state \<times> instance_metadata option" where
  "remove_instance instance_id s =
     (let s = remove_routes_for instance_id (bump_route_revision instance_id s) in
      (s\<lparr>is_fenced_instances := removeAll instance_id (is_fenced_instances s),
         is_pinned_fences := removeAll instance_id (is_pinned_fences s),
         is_route_revisions := hm_remove (is_route_revisions s) instance_id,
         is_instances := hm_remove (is_instances s) instance_id\<rparr>,
       hm_get (is_instances s) instance_id))"

definition from_instances :: "(str \<Rightarrow> str) \<Rightarrow> instance_metadata list \<Rightarrow> instance_state" where
  "from_instances digest instances =
     foldl (\<lambda>s metadata. upsert digest metadata s) default_state instances"

text \<open>\<open>InstanceStore::open_routes\<close> and \<open>InstanceStore::pin_routes_fenced\<close>.\<close>

definition open_routes ::
    "(str \<Rightarrow> str) \<Rightarrow> instance_metadata \<Rightarrow> instance_state \<Rightarrow> instance_state" where
  "open_routes digest metadata s =
     upsert digest metadata
       (s\<lparr>is_pinned_fences := removeAll (im_instance_id metadata) (is_pinned_fences s)\<rparr>)"

definition pin_routes_fenced :: "str \<Rightarrow> instance_state \<Rightarrow> instance_state \<times> bool" where
  "pin_routes_fenced instance_id s =
     (let (s', ok) = fence_existing instance_id s in
      if \<not> ok then (s', False)
      else (s'\<lparr>is_pinned_fences := List.insert instance_id (is_pinned_fences s')\<rparr>, True))"

text \<open>The operations that change one instance, as values.\<close>

datatype store_op = Upsert instance_metadata | UpsertFenced instance_metadata
  | UpsertPreservingFence instance_metadata | OpenRoutes instance_metadata
  | Remove str | FenceRoutes str | PinRoutesFenced str

primrec apply_op :: "(str \<Rightarrow> str) \<Rightarrow> store_op \<Rightarrow> instance_state \<Rightarrow> instance_state" where
  "apply_op digest (Upsert m) s = upsert digest m s"
| "apply_op digest (UpsertFenced m) s = upsert_fenced m s"
| "apply_op digest (UpsertPreservingFence m) s = upsert_preserving_fence digest m s"
| "apply_op digest (OpenRoutes m) s = open_routes digest m s"
| "apply_op digest (Remove i) s = fst (remove_instance i s)"
| "apply_op digest (FenceRoutes i) s = fst (fence_existing i s)"
| "apply_op digest (PinRoutesFenced i) s = fst (pin_routes_fenced i s)"

section \<open>Lookups\<close>

definition route_is_current :: "instance_state \<Rightarrow> str \<Rightarrow> nat \<Rightarrow> bool" where
  "route_is_current s instance_id revision =
     (instance_id \<notin> set (is_fenced_instances s)
      \<and> hm_get (is_route_revisions s) instance_id = Some revision)"

definition routes_fenced :: "instance_state \<Rightarrow> str \<Rightarrow> bool" where
  "routes_fenced s instance_id = (instance_id \<in> set (is_fenced_instances s))"

definition get_instance :: "instance_state \<Rightarrow> str \<Rightarrow> instance_metadata option" where
  "get_instance s instance_id = hm_get (is_instances s) instance_id"

definition make_target :: "instance_state \<Rightarrow> str \<Rightarrow> instance_metadata \<Rightarrow> route_target" where
  "make_target s instance_id metadata =
     \<lparr>rt_instance_id = im_instance_id metadata, rt_instance_generation = im_created_at metadata,
      rt_endpoint = im_backend metadata, rt_connection_limit = connection_limit metadata,
      rt_route_revision = route_revision s instance_id\<rparr>"

definition route_target_for :: "instance_state \<Rightarrow> str \<Rightarrow> route_target option" where
  "route_target_for s instance_id =
     map_option (make_target s instance_id) (hm_get (is_instances s) instance_id)"

text \<open>The database and the instance a user is routed to.\<close>

definition resolve_database_route ::
    "pair_routes \<Rightarrow> str \<Rightarrow> str option \<Rightarrow> str route_resolution" where
  "resolve_database_route routes username database =
     (case database of
        Some (d # ds) \<Rightarrow>
          (case hm_get routes (username, d # ds) of
             None \<Rightarrow> NotFound | Some instance_id \<Rightarrow> Found (d # ds) instance_id)
      | _ \<Rightarrow>
          (case filter (\<lambda>((u, d), instance_id). u = username) routes of
             [] \<Rightarrow> NotFound
           | [((u, d), instance_id)] \<Rightarrow> Found d instance_id
           | _ \<Rightarrow> Ambiguous))"

definition resolve_database_target :: "instance_state \<Rightarrow> pair_routes \<Rightarrow> str \<Rightarrow> str option \<Rightarrow>
    (str \<Rightarrow> instance_metadata \<Rightarrow> 't) \<Rightarrow> 't route_resolution" where
  "resolve_database_target s routes username database build =
     (case resolve_database_route routes username database of
        Found d instance_id \<Rightarrow>
          (case hm_get (is_instances s) instance_id of
             Some metadata \<Rightarrow> Found d (build instance_id metadata)
           | None \<Rightarrow> NotFound)
      | NotFound \<Rightarrow> NotFound
      | Ambiguous \<Rightarrow> Ambiguous)"

definition resolve_plain_route ::
    "instance_state \<Rightarrow> pair_routes \<Rightarrow> str \<Rightarrow> str option \<Rightarrow> route_target route_resolution" where
  "resolve_plain_route s routes username database =
     resolve_database_target s routes username database (make_target s)"

definition resolve_mariadb_route :: "instance_state \<Rightarrow> pair_routes \<Rightarrow> str \<Rightarrow> str option \<Rightarrow>
    (instance_metadata \<Rightarrow> str option) \<Rightarrow> mariadb_route_target route_resolution" where
  "resolve_mariadb_route s routes username database verifier =
     resolve_database_target s routes username database (\<lambda>instance_id metadata.
       \<lparr>mt_instance_id = im_instance_id metadata,
        mt_instance_generation = im_created_at metadata, mt_endpoint = im_backend metadata,
        mt_shared = (im_deployment_mode metadata = Shared),
        mt_native_password_sha1_stage2 = verifier metadata,
        mt_tenant_password = im_tenant_password metadata,
        mt_connection_limit = connection_limit metadata,
        mt_route_revision = route_revision s instance_id\<rparr>)"

definition resolve_postgres ::
    "instance_state \<Rightarrow> str \<Rightarrow> str option \<Rightarrow> route_target route_resolution" where
  "resolve_postgres s username database =
     resolve_plain_route s (is_postgres_routes s) username database"

definition resolve_clickhouse ::
    "instance_state \<Rightarrow> str \<Rightarrow> str option \<Rightarrow> route_target route_resolution" where
  "resolve_clickhouse s username database =
     resolve_plain_route s (is_clickhouse_routes s) username database"

definition resolve_mariadb ::
    "instance_state \<Rightarrow> str \<Rightarrow> str option \<Rightarrow> mariadb_route_target route_resolution" where
  "resolve_mariadb s username database =
     resolve_mariadb_route s (is_mariadb_routes s) username database im_mariadb_stage2"

definition resolve_mysql ::
    "instance_state \<Rightarrow> str \<Rightarrow> str option \<Rightarrow> mariadb_route_target route_resolution" where
  "resolve_mysql s username database =
     resolve_mariadb_route s (is_mysql_routes s) username database im_mysql_stage2"

definition resolve_mongodb :: "instance_state \<Rightarrow> str \<Rightarrow> str \<Rightarrow> route_target option" where
  "resolve_mongodb s username database =
     Option.bind (hm_get (is_mongodb_routes s) (username, database)) (route_target_for s)"

definition resolve_redis :: "instance_state \<Rightarrow> str \<Rightarrow> route_target option" where
  "resolve_redis s username =
     Option.bind (hm_get (is_redis_routes s) username) (route_target_for s)"

definition resolve_valkey :: "instance_state \<Rightarrow> str \<Rightarrow> route_target option" where
  "resolve_valkey s username =
     Option.bind (hm_get (is_valkey_routes s) username) (route_target_for s)"

definition resolve_qdrant :: "instance_state \<Rightarrow> str \<Rightarrow> route_target option" where
  "resolve_qdrant s key = Option.bind (hm_get (is_qdrant_routes s) key) (route_target_for s)"

definition resolve_password_route :: "instance_state \<Rightarrow> (str \<times> str list) list \<Rightarrow> str \<Rightarrow>
    (str \<times> route_target) option" where
  "resolve_password_route s routes password_sha256 =
     (case hm_get routes password_sha256 of
        Some [instance_id] \<Rightarrow>
          map_option (\<lambda>metadata. (im_username metadata, make_target s instance_id metadata))
            (hm_get (is_instances s) instance_id)
      | _ \<Rightarrow> None)"

definition resolve_redis_password ::
    "instance_state \<Rightarrow> str \<Rightarrow> (str \<times> route_target) option" where
  "resolve_redis_password s password_sha256 =
     resolve_password_route s (is_redis_password_routes s) password_sha256"

definition resolve_valkey_password ::
    "instance_state \<Rightarrow> str \<Rightarrow> (str \<times> route_target) option" where
  "resolve_valkey_password s password_sha256 =
     resolve_password_route s (is_valkey_password_routes s) password_sha256"

end
