(* ===== verification/RouteProps.thy ===== *)
theory RouteProps
  imports RouteStore
begin

text \<open>
  What the route store promises.  The ten tables are one relation between a protocol, a key a
  client presents, and an instance; every operation is described by what it does to that
  relation, to the instances and to the fences.
\<close>

section \<open>The tables as one relation\<close>

datatype route_key = ByPair str str | ByName str | ByPassword str

definition pair_routes_of :: "instance_state \<Rightarrow> protocol \<Rightarrow> pair_routes" where
  "pair_routes_of s p =
     (case p of Postgres \<Rightarrow> is_postgres_routes s | Mariadb \<Rightarrow> is_mariadb_routes s
      | Mysql \<Rightarrow> is_mysql_routes s | Mongodb \<Rightarrow> is_mongodb_routes s
      | Clickhouse \<Rightarrow> is_clickhouse_routes s | _ \<Rightarrow> [])"

definition name_routes_of :: "instance_state \<Rightarrow> protocol \<Rightarrow> (str \<times> str) list" where
  "name_routes_of s p =
     (case p of Redis \<Rightarrow> is_redis_routes s | Valkey \<Rightarrow> is_valkey_routes s
      | Qdrant \<Rightarrow> is_qdrant_routes s | _ \<Rightarrow> [])"

definition password_routes_of :: "instance_state \<Rightarrow> protocol \<Rightarrow> (str \<times> str list) list" where
  "password_routes_of s p =
     (case p of Redis \<Rightarrow> is_redis_password_routes s | Valkey \<Rightarrow> is_valkey_password_routes s
      | _ \<Rightarrow> [])"

definition routes :: "instance_state \<Rightarrow> protocol \<Rightarrow> route_key \<Rightarrow> str \<Rightarrow> bool" where
  "routes s p k iid =
     (case k of
        ByPair u d \<Rightarrow> hm_get (pair_routes_of s p) (u, d) = Some iid
      | ByName n \<Rightarrow> hm_get (name_routes_of s p) n = Some iid
      | ByPassword h \<Rightarrow> (\<exists>ids. hm_get (password_routes_of s p) h = Some ids \<and> iid \<in> set ids))"

definition tables_wf :: "instance_state \<Rightarrow> bool" where
  "tables_wf s = (\<forall>p. hm_wf (pair_routes_of s p) \<and> hm_wf (name_routes_of s p)
     \<and> hm_wf (password_routes_of s p))"

text \<open>The keys under which an instance may be reached.\<close>

definition claims :: "(str \<Rightarrow> str) \<Rightarrow> instance_metadata \<Rightarrow> protocol \<Rightarrow> route_key \<Rightarrow> bool" where
  "claims digest m p k =
     (im_protocol m = p \<and>
      (case k of
         ByPair u d \<Rightarrow> p \<in> {Postgres, Mariadb, Mysql, Mongodb, Clickhouse}
           \<and> u = im_username m \<and> d = im_database m
       | ByName n \<Rightarrow> p \<in> {Redis, Valkey} \<and> n = im_username m
           \<or> p = Qdrant \<and> im_route_key_sha256 m = Some n
       | ByPassword h \<Rightarrow> p \<in> {Redis, Valkey}
           \<and> (\<exists>pw. im_tenant_password m = Some pw \<and> h = digest pw)))"

primrec by_password :: "route_key \<Rightarrow> bool" where
  "by_password (ByPair u d) = False"
| "by_password (ByName n) = False"
| "by_password (ByPassword h) = True"

lemmas table_defs = pair_routes_of_def name_routes_of_def password_routes_of_def

lemma tables_frame [simp]:
  "pair_routes_of (put_instance m s) = pair_routes_of s"
  "name_routes_of (put_instance m s) = name_routes_of s"
  "password_routes_of (put_instance m s) = password_routes_of s"
  "pair_routes_of (fence_id iid s) = pair_routes_of s"
  "name_routes_of (fence_id iid s) = name_routes_of s"
  "password_routes_of (fence_id iid s) = password_routes_of s"
  "pair_routes_of (unfence_id iid s) = pair_routes_of s"
  "name_routes_of (unfence_id iid s) = name_routes_of s"
  "password_routes_of (unfence_id iid s) = password_routes_of s"
  "pair_routes_of (bump_route_revision iid s) = pair_routes_of s"
  "name_routes_of (bump_route_revision iid s) = name_routes_of s"
  "password_routes_of (bump_route_revision iid s) = password_routes_of s"
  by (auto simp: table_defs put_instance_def fence_id_def unfence_id_def bump_route_revision_def
      Let_def fun_eq_iff split: protocol.splits)

lemma routes_frame [simp]:
  "routes (put_instance m s) = routes s" "routes (fence_id iid s) = routes s"
  "routes (unfence_id iid s) = routes s" "routes (bump_route_revision iid s) = routes s"
  "tables_wf (put_instance m s) = tables_wf s" "tables_wf (fence_id iid s) = tables_wf s"
  "tables_wf (unfence_id iid s) = tables_wf s" "tables_wf (bump_route_revision iid s) = tables_wf s"
  by (simp_all add: routes_def tables_wf_def fun_eq_iff split: route_key.splits)

lemma tables_remove:
  "pair_routes_of (remove_routes_for iid s) p = retain_others iid (pair_routes_of s p)"
  "name_routes_of (remove_routes_for iid s) p = retain_others iid (name_routes_of s p)"
  "password_routes_of (remove_routes_for iid s) p =
     remove_password_route (password_routes_of s p) iid"
  by (auto simp: table_defs remove_routes_for_def retain_others_def remove_password_route_def
      split: protocol.splits)

lemma remove_password_wf: "hm_wf m \<Longrightarrow> hm_wf (remove_password_route m iid)"
  by (simp add: remove_password_route_def hm_wf_filter hm_wf_map)

lemma remove_password_get:
  "hm_wf m \<Longrightarrow> hm_get (remove_password_route m i) h = Some ids \<longleftrightarrow>
     ids \<noteq> [] \<and> (\<exists>old. hm_get m h = Some old \<and> ids = removeAll i old)"
  by (auto simp: remove_password_route_def hm_get_filter hm_wf_map hm_get_map)

lemma tables_wf_remove [simp]: "tables_wf s \<Longrightarrow> tables_wf (remove_routes_for iid s)"
  by (simp add: tables_wf_def tables_remove retain_others_def hm_wf_filter remove_password_wf)

lemma routes_remove:
  assumes "tables_wf s"
  shows "routes (remove_routes_for i s) p k iid \<longleftrightarrow> routes s p k iid \<and> iid \<noteq> i"
proof (cases k)
  case (ByPassword h)
  have wf: "hm_wf (password_routes_of s p)" using assms by (simp add: tables_wf_def)
  have "(\<exists>ids. hm_get (remove_password_route (password_routes_of s p) i) h = Some ids
      \<and> iid \<in> set ids) \<longleftrightarrow>
    (\<exists>old. hm_get (password_routes_of s p) h = Some old \<and> iid \<in> set old \<and> iid \<noteq> i)"
    (is "?l \<longleftrightarrow> ?r")
  proof
    assume ?l
    then show ?r by (auto simp: remove_password_get [OF wf])
  next
    assume ?r
    then obtain old where "hm_get (password_routes_of s p) h = Some old" "iid \<in> set (removeAll i old)"
      by auto
    then show ?l unfolding remove_password_get [OF wf] by (metis empty_iff list.set(1))
  qed
  then show ?thesis by (auto simp: routes_def ByPassword tables_remove)
qed (use assms in \<open>auto simp: routes_def tables_remove retain_others_def hm_get_filter
      tables_wf_def\<close>)

lemma add_password_wf: "hm_wf m \<Longrightarrow> hm_wf (add_password_route digest m pw iid)"
  by (auto simp: add_password_route_def Let_def split: option.splits)

lemma tables_publish_pair:
  "pair_routes_of (publish_routes digest m s) p =
     (if p = im_protocol m \<and> p \<in> {Postgres, Mariadb, Mysql, Mongodb, Clickhouse}
      then hm_insert (pair_routes_of s p) (im_username m, im_database m) (im_instance_id m)
      else pair_routes_of s p)"
  by (cases "im_protocol m"; cases p)
    (auto simp: publish_routes_def table_defs Let_def split: option.splits)

lemma tables_publish_name:
  "name_routes_of (publish_routes digest m s) p =
     (if p = im_protocol m \<and> p \<in> {Redis, Valkey}
      then hm_insert (name_routes_of s p) (im_username m) (im_instance_id m)
      else if p = im_protocol m \<and> p = Qdrant then
        (case im_route_key_sha256 m of None \<Rightarrow> name_routes_of s p
         | Some key \<Rightarrow> hm_insert (name_routes_of s p) key (im_instance_id m))
      else name_routes_of s p)"
  by (cases "im_protocol m"; cases p)
    (auto simp: publish_routes_def table_defs Let_def split: option.splits)

lemma tables_publish_password:
  "password_routes_of (publish_routes digest m s) p =
     (if p = im_protocol m \<and> p \<in> {Redis, Valkey}
      then add_password_route digest (password_routes_of s p) (im_tenant_password m)
             (im_instance_id m)
      else password_routes_of s p)"
  by (cases "im_protocol m"; cases p)
    (auto simp: publish_routes_def table_defs Let_def split: option.splits)

lemmas tables_publish = tables_publish_pair tables_publish_name tables_publish_password

lemma tables_wf_publish [simp]: "tables_wf s \<Longrightarrow> tables_wf (publish_routes digest m s)"
  unfolding tables_wf_def tables_publish
  by (auto simp: add_password_wf split: option.splits)

lemma routes_publish:
  "routes (publish_routes digest m s) p k iid \<longleftrightarrow>
     claims digest m p k \<and> iid = im_instance_id m
     \<or> routes s p k iid \<and> \<not> (claims digest m p k \<and> \<not> by_password k)"
proof (cases k)
  case (ByPair u d)
  then show ?thesis by (auto simp: routes_def tables_publish claims_def)
next
  case (ByName n)
  then show ?thesis by (auto simp: routes_def tables_publish claims_def split: option.splits)
next
  case (ByPassword h)
  then show ?thesis
    by (auto simp: routes_def tables_publish claims_def add_password_route_def Let_def
        split: option.splits)
qed

section \<open>What the operations do\<close>

abbreviation inst :: "instance_state \<Rightarrow> str \<Rightarrow> instance_metadata option" where
  "inst s \<equiv> hm_get (is_instances s)"

abbreviation fenced :: "instance_state \<Rightarrow> str set" where
  "fenced s \<equiv> set (is_fenced_instances s)"

abbreviation pinned :: "instance_state \<Rightarrow> str set" where
  "pinned s \<equiv> set (is_pinned_fences s)"

abbreviation revision :: "instance_state \<Rightarrow> str \<Rightarrow> nat option" where
  "revision s \<equiv> hm_get (is_route_revisions s)"

lemmas primitive_defs = put_instance_def fence_id_def unfence_id_def bump_route_revision_def
  remove_routes_for_def Let_def

lemma publish_frame [simp]:
  "is_instances (publish_routes digest m s) = is_instances s"
  "is_fenced_instances (publish_routes digest m s) = is_fenced_instances s"
  "is_pinned_fences (publish_routes digest m s) = is_pinned_fences s"
  "is_route_revisions (publish_routes digest m s) = is_route_revisions s"
  "is_next_route_revision (publish_routes digest m s) = is_next_route_revision s"
  by (auto simp: publish_routes_def Let_def split: protocol.splits option.splits)

lemma upsert_views:
  assumes i_def: "i = im_instance_id m"
  shows "inst (upsert digest m s) = (inst s)(i \<mapsto> m)"
    "fenced (upsert digest m s) = (if i \<in> pinned s then insert i (fenced s) else fenced s - {i})"
    "pinned (upsert digest m s) = pinned s"
    "revision (upsert digest m s) = (revision s)(i \<mapsto> next_revision (is_next_route_revision s))"
    "is_next_route_revision (upsert digest m s) = next_revision (is_next_route_revision s)"
  by (auto simp: upsert_def primitive_defs i_def)

lemma upsert_tables [simp]: "tables_wf s \<Longrightarrow> tables_wf (upsert digest m s)"
  by (simp add: upsert_def Let_def)

lemma upsert_routes:
  assumes "tables_wf s"
    and i_def: "i = im_instance_id m"
    and new_def: "new = (\<lambda>p k. i \<notin> pinned s \<and> route_eligible m \<and> claims digest m p k)"
  shows "routes (upsert digest m s) p k x \<longleftrightarrow>
    new p k \<and> x = i \<or> routes s p k x \<and> x \<noteq> i \<and> \<not> (new p k \<and> \<not> by_password k)"
proof -
  have frame: "is_pinned_fences (remove_routes_for i (bump_route_revision i s)) =
      is_pinned_fences s"
    by (simp add: primitive_defs)
  have R: "routes (remove_routes_for i (bump_route_revision i s)) p k x \<longleftrightarrow>
      routes s p k x \<and> x \<noteq> i"
    using assms(1) by (simp add: routes_remove)
  show ?thesis
    unfolding upsert_def Let_def new_def i_def [symmetric] frame
    using R by (auto simp: routes_publish i_def)
qed

lemma fence_views:
  assumes "inst s i \<noteq> None"
  shows "snd (fence_existing i s)"
    "inst (fst (fence_existing i s)) = inst s"
    "fenced (fst (fence_existing i s)) = insert i (fenced s)"
    "pinned (fst (fence_existing i s)) = pinned s"
    "revision (fst (fence_existing i s)) =
       (revision s)(i \<mapsto> next_revision (is_next_route_revision s))"
    "is_next_route_revision (fst (fence_existing i s)) = next_revision (is_next_route_revision s)"
  using assms by (auto simp: fence_existing_def primitive_defs)

lemma fence_missing: "inst s i = None \<Longrightarrow> fence_existing i s = (s, False)"
  by (simp add: fence_existing_def)

lemma fence_tables [simp]: "tables_wf s \<Longrightarrow> tables_wf (fst (fence_existing i s))"
  by (simp add: fence_existing_def)

lemma fence_routes:
  "tables_wf s \<Longrightarrow> inst s i \<noteq> None \<Longrightarrow>
     routes (fst (fence_existing i s)) p k x \<longleftrightarrow> routes s p k x \<and> x \<noteq> i"
  by (auto simp: fence_existing_def routes_remove)

lemma upsert_fenced_views:
  assumes i_def: "i = im_instance_id m"
  shows "inst (upsert_fenced m s) = (inst s)(i \<mapsto> m)"
    "fenced (upsert_fenced m s) = insert i (fenced s)"
    "pinned (upsert_fenced m s) = pinned s"
    "revision (upsert_fenced m s) = (revision s)(i \<mapsto> next_revision (is_next_route_revision s))"
    "is_next_route_revision (upsert_fenced m s) = next_revision (is_next_route_revision s)"
  by (auto simp: upsert_fenced_def primitive_defs i_def)

lemma upsert_fenced_tables [simp]: "tables_wf s \<Longrightarrow> tables_wf (upsert_fenced m s)"
  by (simp add: upsert_fenced_def Let_def)

lemma upsert_fenced_routes:
  "tables_wf s \<Longrightarrow> routes (upsert_fenced m s) p k x \<longleftrightarrow>
     routes s p k x \<and> x \<noteq> im_instance_id m"
  by (simp add: upsert_fenced_def Let_def routes_remove)

lemma remove_frame:
  "fst (remove_instance i s) = (let s = remove_routes_for i (bump_route_revision i s) in
     s\<lparr>is_fenced_instances := removeAll i (is_fenced_instances s),
       is_pinned_fences := removeAll i (is_pinned_fences s),
       is_route_revisions := hm_remove (is_route_revisions s) i,
       is_instances := hm_remove (is_instances s) i\<rparr>)"
  by (simp add: remove_instance_def Let_def)

lemma remove_views:
  "inst (fst (remove_instance i s)) = (inst s)(i := None)"
  "fenced (fst (remove_instance i s)) = fenced s - {i}"
  "pinned (fst (remove_instance i s)) = pinned s - {i}"
  "revision (fst (remove_instance i s)) = (revision s)(i := None)"
  "is_next_route_revision (fst (remove_instance i s)) = next_revision (is_next_route_revision s)"
  by (auto simp: remove_frame primitive_defs)

lemma tables_upd_frame [simp]:
  "pair_routes_of (s\<lparr>is_fenced_instances := f, is_pinned_fences := g, is_route_revisions := r,
     is_instances := n\<rparr>) = pair_routes_of s"
  "name_routes_of (s\<lparr>is_fenced_instances := f, is_pinned_fences := g, is_route_revisions := r,
     is_instances := n\<rparr>) = name_routes_of s"
  "password_routes_of (s\<lparr>is_fenced_instances := f, is_pinned_fences := g, is_route_revisions := r,
     is_instances := n\<rparr>) = password_routes_of s"
  "pair_routes_of (s\<lparr>is_pinned_fences := g\<rparr>) = pair_routes_of s"
  "name_routes_of (s\<lparr>is_pinned_fences := g\<rparr>) = name_routes_of s"
  "password_routes_of (s\<lparr>is_pinned_fences := g\<rparr>) = password_routes_of s"
  by (auto simp: table_defs fun_eq_iff split: protocol.splits)

lemma routes_upd_frame [simp]:
  "routes (s\<lparr>is_pinned_fences := g\<rparr>) = routes s"
  "tables_wf (s\<lparr>is_pinned_fences := g\<rparr>) = tables_wf s"
  by (simp_all add: routes_def tables_wf_def fun_eq_iff split: route_key.splits)

lemma remove_tables [simp]: "tables_wf s \<Longrightarrow> tables_wf (fst (remove_instance i s))"
  using tables_wf_remove [of "bump_route_revision i s" i]
  by (simp add: remove_frame Let_def tables_wf_def del: tables_wf_remove)

lemma remove_routes:
  assumes "tables_wf s"
  shows "routes (fst (remove_instance i s)) p k x \<longleftrightarrow> routes s p k x \<and> x \<noteq> i"
proof -
  have "routes (fst (remove_instance i s)) p k x =
      routes (remove_routes_for i (bump_route_revision i s)) p k x"
    by (cases k) (simp_all add: remove_frame Let_def routes_def)
  then show ?thesis using assms by (simp add: routes_remove)
qed

section \<open>The specification of an operation\<close>

text \<open>An instance is published under the keys it claims while it is eligible and not fenced.\<close>

definition published ::
    "(str \<Rightarrow> str) \<Rightarrow> instance_state \<Rightarrow> protocol \<Rightarrow> route_key \<Rightarrow> str \<Rightarrow> bool" where
  "published digest s p k iid =
     (\<exists>m. inst s iid = Some m \<and> route_eligible m \<and> iid \<notin> fenced s \<and> claims digest m p k)"

text \<open>Every operation republishes one instance: it changes nothing of the others except that the
  instance takes over the keys it is published under, and it gives the instance a new revision.\<close>

definition republishes ::
    "(str \<Rightarrow> str) \<Rightarrow> str \<Rightarrow> instance_state \<Rightarrow> instance_state \<Rightarrow> bool" where
  "republishes digest i s t =
     (tables_wf t
      \<and> (\<forall>x. x \<noteq> i \<longrightarrow> inst t x = inst s x \<and> (x \<in> fenced t) = (x \<in> fenced s)
            \<and> (x \<in> pinned t) = (x \<in> pinned s) \<and> revision t x = revision s x)
      \<and> (\<forall>m. inst t i = Some m \<longrightarrow> im_instance_id m = i)
      \<and> (i \<in> pinned t \<longrightarrow> i \<in> fenced t) \<and> (i \<in> fenced t \<longrightarrow> inst t i \<noteq> None)
      \<and> (\<forall>p k x. routes t p k x \<longleftrightarrow> published digest t p k i \<and> x = i
            \<or> routes s p k x \<and> x \<noteq> i \<and> \<not> (published digest t p k i \<and> \<not> by_password k))
      \<and> is_next_route_revision t = next_revision (is_next_route_revision s)
      \<and> revision t i = (if inst t i = None then None
                        else Some (next_revision (is_next_route_revision s))))"

primrec op_id :: "store_op \<Rightarrow> str" where
  "op_id (Upsert m) = im_instance_id m"
| "op_id (UpsertFenced m) = im_instance_id m"
| "op_id (UpsertPreservingFence m) = im_instance_id m"
| "op_id (OpenRoutes m) = im_instance_id m"
| "op_id (Remove i) = i"
| "op_id (FenceRoutes i) = i"
| "op_id (PinRoutesFenced i) = i"

definition ids_ok :: "instance_state \<Rightarrow> bool" where
  "ids_ok s = (\<forall>iid m. inst s iid = Some m \<longrightarrow> im_instance_id m = iid)"

lemma republishesD:
  assumes "republishes digest i s t"
  shows "tables_wf t"
    "x \<noteq> i \<Longrightarrow> inst t x = inst s x" "x \<noteq> i \<Longrightarrow> x \<in> fenced t \<longleftrightarrow> x \<in> fenced s"
    "x \<noteq> i \<Longrightarrow> x \<in> pinned t \<longleftrightarrow> x \<in> pinned s" "x \<noteq> i \<Longrightarrow> revision t x = revision s x"
    "inst t i = Some m \<Longrightarrow> im_instance_id m = i"
    "i \<in> pinned t \<Longrightarrow> i \<in> fenced t" "i \<in> fenced t \<Longrightarrow> inst t i \<noteq> None"
    "routes t p k x \<longleftrightarrow> published digest t p k i \<and> x = i
       \<or> routes s p k x \<and> x \<noteq> i \<and> \<not> (published digest t p k i \<and> \<not> by_password k)"
    "is_next_route_revision t = next_revision (is_next_route_revision s)"
    "revision t i = (if inst t i = None then None
                     else Some (next_revision (is_next_route_revision s)))"
  using assms unfolding republishes_def by blast+

lemma upsert_republishes:
  assumes "tables_wf s"
  shows "republishes digest (im_instance_id m) s (upsert digest m s)"
proof -
  let ?i = "im_instance_id m"
  note v = upsert_views [OF refl, of digest m s]
  have pub: "published digest (upsert digest m s) p k ?i \<longleftrightarrow>
      ?i \<notin> pinned s \<and> route_eligible m \<and> claims digest m p k" for p k
    by (auto simp: published_def v)
  show ?thesis
    unfolding republishes_def pub using assms upsert_routes [OF assms refl refl, of digest m]
    by (auto simp: v)
qed

lemma upsert_fenced_republishes:
  assumes "tables_wf s"
  shows "republishes digest (im_instance_id m) s (upsert_fenced m s)"
  using assms
  by (auto simp: republishes_def published_def upsert_fenced_views [OF refl] upsert_fenced_routes)

lemma republishes_unpinned:
  "republishes digest i (s\<lparr>is_pinned_fences := removeAll i (is_pinned_fences s)\<rparr>) t \<Longrightarrow>
     republishes digest i s t"
  unfolding republishes_def by simp

lemma open_routes_republishes:
  assumes "tables_wf s"
  shows "republishes digest (im_instance_id m) s (open_routes digest m s)"
proof -
  let ?s = "s\<lparr>is_pinned_fences := removeAll (im_instance_id m) (is_pinned_fences s)\<rparr>"
  have "republishes digest (im_instance_id m) ?s (upsert digest m ?s)"
    using upsert_republishes [of ?s digest m] assms by simp
  then show ?thesis unfolding open_routes_def by (rule republishes_unpinned)
qed

lemma remove_republishes:
  assumes "tables_wf s"
  shows "republishes digest i s (fst (remove_instance i s))"
  using assms by (auto simp: republishes_def published_def remove_views remove_routes)

lemma fence_republishes:
  assumes "tables_wf s" "inst s i \<noteq> None" "ids_ok s"
  shows "republishes digest i s (fst (fence_existing i s))"
  using assms(1,3) fence_views [OF assms(2)] fence_routes [OF assms(1,2)] assms(2)
  by (auto simp: republishes_def published_def ids_ok_def)

lemma pin_republishes:
  assumes "tables_wf s" "inst s i \<noteq> None" "ids_ok s"
  shows "republishes digest i s (fst (pin_routes_fenced i s))"
proof -
  let ?t = "fst (fence_existing i s)"
  have "fst (pin_routes_fenced i s) = ?t\<lparr>is_pinned_fences := List.insert i (is_pinned_fences ?t)\<rparr>"
    using fence_views(1) [OF assms(2)] by (simp add: pin_routes_fenced_def case_prod_beta)
  moreover have "i \<in> fenced ?t" "\<And>p k. \<not> published digest ?t p k i"
    using fence_views [OF assms(2)] by (auto simp: published_def)
  ultimately show ?thesis
    using fence_republishes [OF assms, of digest] by (auto simp: republishes_def published_def)
qed

lemma apply_op_republishes:
  assumes "tables_wf s" "ids_ok s"
  shows "republishes digest (op_id op) s (apply_op digest op s)
    \<or> inst s (op_id op) = None \<and> apply_op digest op s = s"
proof (cases op)
  case (UpsertPreservingFence m)
  then show ?thesis
    using upsert_republishes upsert_fenced_republishes assms(1)
    by (auto simp: upsert_preserving_fence_def Let_def)
next
  case (FenceRoutes i)
  then show ?thesis
    using fence_republishes [OF assms(1) _ assms(2)] fence_missing [of s i]
    by (cases "inst s i = None") auto
next
  case (PinRoutesFenced i)
  then show ?thesis
    using pin_republishes [OF assms(1) _ assms(2)] fence_missing [of s i]
    by (cases "inst s i = None") (auto simp: pin_routes_fenced_def)
qed (use assms(1) upsert_republishes upsert_fenced_republishes open_routes_republishes
      remove_republishes in auto)

section \<open>The invariant\<close>

definition store_inv :: "(str \<Rightarrow> str) \<Rightarrow> instance_state \<Rightarrow> bool" where
  "store_inv digest s =
     (tables_wf s \<and> ids_ok s
      \<and> (\<forall>p k iid. routes s p k iid \<longrightarrow> published digest s p k iid)
      \<and> pinned s \<subseteq> fenced s \<and> (\<forall>iid \<in> fenced s. inst s iid \<noteq> None)
      \<and> (\<forall>iid. case revision s iid of None \<Rightarrow> inst s iid = None
            | Some n \<Rightarrow> inst s iid \<noteq> None \<and> n \<le> is_next_route_revision s))"

lemma published_other:
  assumes "republishes digest i s t" "x \<noteq> i"
  shows "published digest t p k x = published digest s p k x"
  using assms by (simp add: republishes_def published_def)

lemma republishes_inv:
  assumes "store_inv digest s" "republishes digest i s t"
    and "is_next_route_revision s < u64_max"
  shows "store_inv digest t"
proof -
  have other: "published digest t p k x = published digest s p k x" if "x \<noteq> i" for p k x
    by (rule published_other [OF assms(2) that])
  have nxt: "next_revision (is_next_route_revision s) = is_next_route_revision s + 1"
    using assms(3) by (simp add: next_revision_def)
  note R = republishesD [OF assms(2)]
  have I: "ids_ok s" "\<And>p k x. routes s p k x \<Longrightarrow> published digest s p k x" "pinned s \<subseteq> fenced s"
    "\<And>x. x \<in> fenced s \<Longrightarrow> inst s x \<noteq> None"
    "\<And>x. case revision s x of None \<Rightarrow> inst s x = None
       | Some n \<Rightarrow> inst s x \<noteq> None \<and> n \<le> is_next_route_revision s"
    using assms(1) unfolding store_inv_def by blast+
  show ?thesis
    unfolding store_inv_def
  proof (intro conjI allI ballI impI subsetI)
    show "tables_wf t" by (rule R(1))
    show "ids_ok t" using I(1) R(2,6) unfolding ids_ok_def by metis
    show "published digest t p k x" if "routes t p k x" for p k x
      using that I(2) other R(9) [of p k x] by (cases "x = i") auto
    show "x \<in> fenced t" if "x \<in> pinned t" for x
      using that I(3) R(3,4,7) by (cases "x = i") auto
    show "inst t x \<noteq> None" if "x \<in> fenced t" for x
      using that I(4) R(2,3,8) by (cases "x = i") auto
    show "case revision t x of None \<Rightarrow> inst t x = None
       | Some n \<Rightarrow> inst t x \<noteq> None \<and> n \<le> is_next_route_revision t" for x
      using I(5) [of x] R(2,5,10,11) nxt by (cases "x = i") (auto split: option.splits)
  qed
qed

lemma default_inv: "store_inv digest default_state"
  by (auto simp: store_inv_def ids_ok_def default_state_def tables_wf_def routes_def table_defs
      split: route_key.splits protocol.splits)

lemma from_instances_snoc:
  "from_instances digest (ms @ [m]) = upsert digest m (from_instances digest ms)"
  by (simp add: from_instances_def)

lemma from_instances_inv:
  "length ms \<le> u64_max \<Longrightarrow> store_inv digest (from_instances digest ms)
     \<and> is_next_route_revision (from_instances digest ms) = length ms"
proof (induction ms rule: rev_induct)
  case Nil
  then show ?case using default_inv by (simp add: from_instances_def default_state_def)
next
  case (snoc m ms)
  let ?s = "from_instances digest ms"
  have s: "store_inv digest ?s" "is_next_route_revision ?s = length ms" using snoc by auto
  have r: "republishes digest (im_instance_id m) ?s (upsert digest m ?s)"
    using upsert_republishes s(1) by (simp add: store_inv_def)
  have "is_next_route_revision ?s < u64_max" using snoc.prems s(2) by simp
  then show ?case
    using republishes_inv [OF s(1) r] republishesD(10) [OF r] s(2)
    by (simp add: from_instances_snoc next_revision_def)
qed

section \<open>The store as a machine\<close>

text \<open>It is loaded from storage at startup and then changed by operations, fewer than
  \<open>2 ^ 64 - 1\<close> of them.\<close>

definition store_init :: "(str \<Rightarrow> str) \<Rightarrow> instance_state \<Rightarrow> bool" where
  "store_init digest s = (\<exists>ms. length ms \<le> u64_max \<and> s = from_instances digest ms)"

definition store_step :: "(str \<Rightarrow> str) \<Rightarrow> instance_state \<Rightarrow> instance_state \<Rightarrow> bool" where
  "store_step digest s t =
     (is_next_route_revision s < u64_max \<and> (\<exists>op. t = apply_op digest op s))"

lemma apply_op_inv:
  assumes "store_inv digest s" "is_next_route_revision s < u64_max"
  shows "store_inv digest (apply_op digest op s)"
proof -
  have "tables_wf s" "ids_ok s" using assms(1) by (auto simp: store_inv_def)
  from apply_op_republishes [OF this, of digest op] show ?thesis
    using republishes_inv [OF assms(1) _ assms(2)] assms(1) by auto
qed

interpretation route_store: step_invariant "store_init digest" "store_step digest"
  "store_inv digest" for digest
  by unfold_locales (use from_instances_inv apply_op_inv in
      \<open>auto simp: store_init_def store_step_def\<close>)

section \<open>Soundness of lookups\<close>

text \<open>An instance serves a key: it is the one stored under its id, it claims the key, it is
  eligible and not fenced, and the revision that was handed out is current.\<close>

definition serves :: "(str \<Rightarrow> str) \<Rightarrow> instance_state \<Rightarrow> protocol \<Rightarrow> route_key \<Rightarrow>
    str \<Rightarrow> backend_endpoint \<Rightarrow> nat \<Rightarrow> bool" where
  "serves digest s p k iid endpoint revn =
     (\<exists>m. inst s iid = Some m \<and> im_instance_id m = iid \<and> endpoint = im_backend m
        \<and> route_eligible m \<and> claims digest m p k \<and> route_is_current s iid revn)"

definition requested :: "str option \<Rightarrow> str \<Rightarrow> bool" where
  "requested database d = (case database of Some (x # xs) \<Rightarrow> d = x # xs | _ \<Rightarrow> True)"

abbreviation serves_target where
  "serves_target digest s p k t \<equiv>
     serves digest s p k (rt_instance_id t) (rt_endpoint t) (rt_route_revision t)"

abbreviation serves_mariadb where
  "serves_mariadb digest s p k t \<equiv>
     serves digest s p k (mt_instance_id t) (mt_endpoint t) (mt_route_revision t)"

lemma route_serves:
  assumes "store_inv digest s" "routes s p k iid"
  obtains m where "inst s iid = Some m" "im_instance_id m = iid"
    "serves digest s p k iid (im_backend m) (route_revision s iid)"
proof -
  obtain m where m: "inst s iid = Some m" "route_eligible m" "iid \<notin> fenced s" "claims digest m p k"
    using assms unfolding store_inv_def published_def by blast
  have i: "im_instance_id m = iid" using assms(1) m(1) by (simp add: store_inv_def ids_ok_def)
  have "case revision s iid of None \<Rightarrow> inst s iid = None
     | Some n \<Rightarrow> inst s iid \<noteq> None \<and> n \<le> is_next_route_revision s"
    using assms(1) by (simp add: store_inv_def)
  then obtain n where "revision s iid = Some n" using m(1) by (auto split: option.splits)
  then have "serves digest s p k iid (im_backend m) (route_revision s iid)"
    using m i by (auto simp: serves_def route_is_current_def route_revision_def)
  then show ?thesis using that m(1) i by blast
qed

lemma database_route_found:
  assumes "tables_wf s" "resolve_database_route (pair_routes_of s p) u database = Found d iid"
  shows "routes s p (ByPair u d) iid \<and> requested database d"
proof -
  have wf: "hm_wf (pair_routes_of s p)" using assms(1) by (simp add: tables_wf_def)
  have "((u, d), iid) \<in> set (pair_routes_of s p)"
    if "filter (\<lambda>((u', d), iid). u' = u) (pair_routes_of s p) = [((a, d), iid)]" for a
    using that by (auto simp: filter_eq_Cons_iff)
  then show ?thesis
    using assms(2) wf
    by (auto simp: resolve_database_route_def routes_def requested_def hm_get_set
        split: option.splits list.splits prod.splits)
qed

lemma database_target_found:
  assumes "store_inv digest s"
    and "resolve_database_target s (pair_routes_of s p) u database build = Found d t"
  obtains iid m where "inst s iid = Some m" "im_instance_id m = iid" "t = build iid m"
    "requested database d"
    "serves digest s p (ByPair u d) iid (im_backend m) (route_revision s iid)"
proof -
  obtain iid m where f: "resolve_database_route (pair_routes_of s p) u database = Found d iid"
    "inst s iid = Some m" "t = build iid m"
    using assms(2)
    by (auto simp: resolve_database_target_def split: route_resolution.splits option.splits)
  have r: "routes s p (ByPair u d) iid" "requested database d"
    using database_route_found [OF _ f(1)] assms(1) by (auto simp: store_inv_def)
  show ?thesis using route_serves [OF assms(1) r(1)] that f r(2) by (metis option.inject)
qed

lemma plain_found:
  assumes "store_inv digest s"
    and "resolve_plain_route s (pair_routes_of s p) u database = Found d t"
  shows "serves_target digest s p (ByPair u d) t \<and> requested database d"
  using database_target_found [OF assms(1) assms(2) [unfolded resolve_plain_route_def]]
  by (metis make_target_def route_target.select_convs(1,3,5))

lemma mariadb_found:
  assumes "store_inv digest s"
    and "resolve_mariadb_route s (pair_routes_of s p) u database verifier = Found d t"
  shows "serves_mariadb digest s p (ByPair u d) t \<and> requested database d"
  using database_target_found [OF assms(1) assms(2) [unfolded resolve_mariadb_route_def]]
  by (metis mariadb_route_target.select_convs(1,3,8))

lemma key_found:
  assumes "store_inv digest s" "routes s p k iid" "route_target_for s iid = Some t"
  shows "serves_target digest s p k t"
proof -
  obtain m where m: "inst s iid = Some m" "im_instance_id m = iid"
    "serves digest s p k iid (im_backend m) (route_revision s iid)"
    by (rule route_serves [OF assms(1,2)])
  have "t = make_target s iid m" using assms(3) m(1) by (simp add: route_target_for_def)
  then have "rt_instance_id t = iid" "rt_endpoint t = im_backend m"
    "rt_route_revision t = route_revision s iid"
    using m(2) by (simp_all add: make_target_def)
  then show ?thesis using m(3) by (simp only:)
qed

lemma password_found:
  assumes "store_inv digest s"
    and "resolve_password_route s (password_routes_of s p) h = Some (u, t)"
  shows "serves_target digest s p (ByPassword h) t \<and>
    (\<exists>m. inst s (rt_instance_id t) = Some m \<and> im_username m = u)"
proof -
  obtain iid m where m: "hm_get (password_routes_of s p) h = Some [iid]" "inst s iid = Some m"
    "u = im_username m" "t = make_target s iid m"
    using assms(2) by (auto simp: resolve_password_route_def split: option.splits list.splits)
  then have r: "routes s p (ByPassword h) iid" by (simp add: routes_def)
  have t: "route_target_for s iid = Some t" using m by (simp add: route_target_for_def)
  have "rt_instance_id t = iid"
    using m(2,4) assms(1) by (simp add: make_target_def store_inv_def ids_ok_def)
  then show ?thesis using key_found [OF assms(1) r t] m(2,3) by simp
qed

section \<open>Sequences of operations\<close>

definition apply_ops ::
    "(str \<Rightarrow> str) \<Rightarrow> store_op list \<Rightarrow> instance_state \<Rightarrow> instance_state" where
  "apply_ops digest ops s = foldl (\<lambda>s op. apply_op digest op s) s ops"

lemma apply_ops_simps [simp]:
  "apply_ops digest [] s = s"
  "apply_ops digest (op # ops) s = apply_ops digest ops (apply_op digest op s)"
  by (simp_all add: apply_ops_def)

lemma apply_op_next:
  assumes "store_inv digest s" "is_next_route_revision s < u64_max"
  shows "is_next_route_revision s \<le> is_next_route_revision (apply_op digest op s)"
    "is_next_route_revision (apply_op digest op s) \<le> is_next_route_revision s + 1"
proof -
  have "tables_wf s" "ids_ok s" using assms(1) by (auto simp: store_inv_def)
  from apply_op_republishes [OF this, of digest op] assms(2)
  show "is_next_route_revision s \<le> is_next_route_revision (apply_op digest op s)"
    "is_next_route_revision (apply_op digest op s) \<le> is_next_route_revision s + 1"
    by (auto dest!: republishesD(10) simp: next_revision_def)
qed

text \<open>A revision is outdated for good: the instance has none, or a later one.\<close>

definition outdated :: "instance_state \<Rightarrow> str \<Rightarrow> nat \<Rightarrow> bool" where
  "outdated s i r = (r \<le> is_next_route_revision s \<and> (\<forall>n. revision s i = Some n \<longrightarrow> r < n))"

lemma apply_op_outdates:
  assumes "store_inv digest s" "is_next_route_revision s < u64_max"
    and "outdated s i r \<or> revision s i = Some r"
  shows "outdated (apply_op digest op s) i r
    \<or> op_id op \<noteq> i \<and> revision s i = Some r \<and> revision (apply_op digest op s) i = Some r"
proof -
  have wf: "tables_wf s" "ids_ok s" using assms(1) by (auto simp: store_inv_def)
  have rev: "case revision s i of None \<Rightarrow> inst s i = None
     | Some n \<Rightarrow> inst s i \<noteq> None \<and> n \<le> is_next_route_revision s"
    using assms(1) by (simp add: store_inv_def)
  then have le: "r \<le> is_next_route_revision s" using assms(3) by (auto simp: outdated_def)
  consider "republishes digest (op_id op) s (apply_op digest op s)"
    | "inst s (op_id op) = None" "apply_op digest op s = s"
    using apply_op_republishes [OF wf, of digest op] by auto
  then show ?thesis
  proof cases
    case 1
    note R = republishesD [OF 1]
    show ?thesis
      using assms(2,3) le R(5,10,11)
      by (cases "op_id op = i") (auto simp: outdated_def next_revision_def)
  next
    case 2
    then show ?thesis using assms(3) rev by (cases "op_id op = i") auto
  qed
qed

lemma apply_ops_outdate:
  assumes "store_inv digest s" "is_next_route_revision s + length ops \<le> u64_max"
    and "outdated s i r \<or> revision s i = Some r \<and> (\<exists>op \<in> set ops. op_id op = i)"
  shows "outdated (apply_ops digest ops s) i r"
  using assms
proof (induction ops arbitrary: s)
  case (Cons op ops)
  have lt: "is_next_route_revision s < u64_max" using Cons.prems(2) by simp
  have "store_inv digest (apply_op digest op s)" by (rule apply_op_inv [OF Cons.prems(1) lt])
  moreover have "is_next_route_revision (apply_op digest op s) + length ops \<le> u64_max"
    using apply_op_next(2) [OF Cons.prems(1) lt, of op] Cons.prems(2) by simp
  moreover have "outdated (apply_op digest op s) i r \<or>
      revision (apply_op digest op s) i = Some r \<and> (\<exists>op \<in> set ops. op_id op = i)"
    using apply_op_outdates [OF Cons.prems(1) lt, of i r op] Cons.prems(3)
    by (auto simp: outdated_def)
  ultimately show ?case using Cons.IH by simp
qed auto

fun reopens :: "str \<Rightarrow> store_op \<Rightarrow> bool" where
  "reopens i (OpenRoutes m) = (im_instance_id m = i)"
| "reopens i (Remove j) = (j = i)"
| "reopens i _ = False"

lemma apply_op_pinned:
  assumes "i \<in> pinned s" "\<not> reopens i op"
  shows "i \<in> pinned (apply_op digest op s)"
proof (cases op)
  case (UpsertPreservingFence m)
  then show ?thesis
    using assms(1) upsert_views(3) upsert_fenced_views(3)
    by (simp add: upsert_preserving_fence_def Let_def)
next
  case (OpenRoutes m)
  then show ?thesis using assms by (simp add: open_routes_def upsert_views(3) [OF refl])
next
  case (FenceRoutes j)
  then show ?thesis using assms(1) by (simp add: fence_existing_def primitive_defs)
next
  case (PinRoutesFenced j)
  then show ?thesis
    using assms(1) by (auto simp: pin_routes_fenced_def fence_existing_def primitive_defs)
qed (use assms in \<open>auto simp: upsert_views(3) [OF refl] upsert_fenced_views(3) [OF refl]
      remove_views\<close>)

lemma apply_ops_pinned:
  assumes "store_inv digest s" "is_next_route_revision s + length ops \<le> u64_max"
    and "i \<in> pinned s" "\<forall>op \<in> set ops. \<not> reopens i op"
  shows "store_inv digest (apply_ops digest ops s) \<and> i \<in> pinned (apply_ops digest ops s)"
  using assms
proof (induction ops arbitrary: s)
  case (Cons op ops)
  have lt: "is_next_route_revision s < u64_max" using Cons.prems(2) by simp
  show ?case
    using Cons.IH [of "apply_op digest op s"] Cons.prems apply_op_inv [OF Cons.prems(1) lt, of op]
      apply_op_next(2) [OF Cons.prems(1) lt, of op] apply_op_pinned [of i s op digest]
    by simp
qed auto

section \<open>Completeness of lookups\<close>

text \<open>The storage layer keeps the credentials of one protocol unique (unique indexes on the
  instance table); then the tables are exactly what the instances and fences determine.\<close>

definition unique_keys :: "(str \<Rightarrow> str) \<Rightarrow> instance_state \<Rightarrow> bool" where
  "unique_keys digest s =
     (\<forall>p k x y. \<not> by_password k \<longrightarrow> published digest s p k x \<longrightarrow> published digest s p k y \<longrightarrow> x = y)"

definition complete_inv :: "(str \<Rightarrow> str) \<Rightarrow> instance_state \<Rightarrow> bool" where
  "complete_inv digest s =
     (store_inv digest s \<and> (\<forall>p k x. routes s p k x \<longleftrightarrow> published digest s p k x))"

definition unique_init :: "(str \<Rightarrow> str) \<Rightarrow> instance_state \<Rightarrow> bool" where
  "unique_init digest s =
     (\<exists>ms. length ms \<le> u64_max \<and> distinct (map im_instance_id ms)
        \<and> s = from_instances digest ms \<and> unique_keys digest s)"

definition unique_step :: "(str \<Rightarrow> str) \<Rightarrow> instance_state \<Rightarrow> instance_state \<Rightarrow> bool" where
  "unique_step digest s t = (store_step digest s t \<and> unique_keys digest t)"

lemma republishes_complete:
  assumes "complete_inv digest s" "republishes digest i s t" "unique_keys digest t"
    and "is_next_route_revision s < u64_max"
  shows "complete_inv digest t"
proof -
  have s: "store_inv digest s" "\<And>p k x. routes s p k x \<longleftrightarrow> published digest s p k x"
    using assms(1) by (auto simp: complete_inv_def)
  have t: "store_inv digest t" by (rule republishes_inv [OF s(1) assms(2,4)])
  have "routes t p k x" if pub: "published digest t p k x" for p k x
  proof (cases "x = i")
    case True
    then show ?thesis using republishesD(9) [OF assms(2), of p k x] pub by simp
  next
    case False
    have "routes s p k x" using s(2) published_other [OF assms(2) False] pub by simp
    moreover have "\<not> (published digest t p k i \<and> \<not> by_password k)"
      using assms(3) pub False unfolding unique_keys_def by blast
    ultimately show ?thesis using republishesD(9) [OF assms(2), of p k x] False by simp
  qed
  then show ?thesis using t by (auto simp: complete_inv_def store_inv_def)
qed

lemma from_instances_dom:
  "inst (from_instances digest ms) x \<noteq> None \<Longrightarrow> x \<in> im_instance_id ` set ms"
  by (induction ms rule: rev_induct)
    (auto simp: from_instances_snoc upsert_views(1) [OF refl] split: if_splits,
     simp add: from_instances_def default_state_def)

lemma from_instances_complete:
  "length ms \<le> u64_max \<Longrightarrow> distinct (map im_instance_id ms) \<Longrightarrow>
     unique_keys digest (from_instances digest ms) \<Longrightarrow>
     complete_inv digest (from_instances digest ms)"
proof (induction ms rule: rev_induct)
  case Nil
  show ?case
    using default_inv
    by (auto simp: complete_inv_def from_instances_def store_inv_def published_def default_state_def)
next
  case (snoc m ms)
  let ?s = "from_instances digest ms" and ?i = "im_instance_id m"
  have s: "store_inv digest ?s" "is_next_route_revision ?s < u64_max"
    using from_instances_inv [of ms digest] snoc.prems(1) by auto
  have r: "republishes digest ?i ?s (upsert digest m ?s)"
    using upsert_republishes s(1) by (simp add: store_inv_def)
  have keep: "published digest (upsert digest m ?s) p k x" if "published digest ?s p k x" for p k x
  proof -
    have "inst ?s x \<noteq> None" using that by (auto simp: published_def)
    then have "x \<in> im_instance_id ` set ms" by (rule from_instances_dom)
    moreover have "?i \<notin> im_instance_id ` set ms" using snoc.prems(2) by simp
    ultimately have "x \<noteq> ?i" by blast
    then show ?thesis using published_other [OF r] that by simp
  qed
  have u: "unique_keys digest (upsert digest m ?s)"
    using snoc.prems(3) by (simp add: from_instances_snoc)
  then have "unique_keys digest ?s" using keep unfolding unique_keys_def by blast
  then have "complete_inv digest ?s" using snoc by simp
  from republishes_complete [OF this r u s(2)] show ?case by (simp add: from_instances_snoc)
qed

lemma apply_op_complete:
  assumes "complete_inv digest s" "unique_step digest s t"
  shows "complete_inv digest t"
proof -
  obtain op where t: "t = apply_op digest op s" "is_next_route_revision s < u64_max"
    "unique_keys digest t"
    using assms(2) by (auto simp: unique_step_def store_step_def)
  have "tables_wf s" "ids_ok s" using assms(1) by (auto simp: complete_inv_def store_inv_def)
  from apply_op_republishes [OF this, of digest op] show ?thesis
    using republishes_complete [OF assms(1) _ t(3,2)] assms(1) t(1) by auto
qed

interpretation unique_store: step_invariant "unique_init digest" "unique_step digest"
  "complete_inv digest" for digest
  by unfold_locales (use from_instances_complete apply_op_complete in
      \<open>auto simp: unique_init_def\<close>)

text \<open>What a lookup should answer, given the databases and instances a user can reach.\<close>

definition right_answer :: "(str \<times> str) set \<Rightarrow> str option \<Rightarrow> str route_resolution \<Rightarrow> bool" where
  "right_answer M database r =
     (case database of
        Some (x # xs) \<Rightarrow>
          (case r of Found d iid \<Rightarrow> d = x # xs \<and> (d, iid) \<in> M
           | NotFound \<Rightarrow> (\<forall>iid. (x # xs, iid) \<notin> M) | Ambiguous \<Rightarrow> False)
      | _ \<Rightarrow>
          (case r of Found d iid \<Rightarrow> M = {(d, iid)} | NotFound \<Rightarrow> M = {}
           | Ambiguous \<Rightarrow> (\<exists>a \<in> M. \<exists>b \<in> M. a \<noteq> b)))"

lemma by_user_right:
  assumes "hm_wf rs"
  shows "case filter (\<lambda>((u', d), iid). u' = u) rs of
      [] \<Rightarrow> {(d, iid). hm_get rs (u, d) = Some iid} = {}
    | [((u', d), iid)] \<Rightarrow> {(d, iid). hm_get rs (u, d) = Some iid} = {(d, iid)}
    | _ \<Rightarrow> (\<exists>a \<in> {(d, iid). hm_get rs (u, d) = Some iid}.
            \<exists>b \<in> {(d, iid). hm_get rs (u, d) = Some iid}. a \<noteq> b)"
proof -
  let ?f = "filter (\<lambda>((u', d), iid). u' = u) rs"
  have M: "{(d, iid). hm_get rs (u, d) = Some iid} = (\<lambda>((u', d), iid). (d, iid)) ` set ?f"
    using assms by (force simp: hm_get_set)
  have inj: "inj_on (\<lambda>((u', d), iid). (d, iid)) (set ?f)" by (auto simp: inj_on_def)
  have d: "distinct ?f" using assms by (simp add: hm_wf_def distinct_map)
  show ?thesis
  proof (cases ?f rule: list.exhaust [case_names Nil Cons])
    case Nil
    then show ?thesis unfolding M by simp
  next
    case (Cons x xs)
    show ?thesis
    proof (cases xs)
      case Nil
      then show ?thesis unfolding M Cons by (auto split: prod.splits)
    next
      case (Cons y ys)
      have "x \<noteq> y" "x \<in> set ?f" "y \<in> set ?f" using d \<open>?f = x # xs\<close> Cons by auto
      then have "(case x of ((u', d), iid) \<Rightarrow> (d, iid)) \<noteq> (case y of ((u', d), iid) \<Rightarrow> (d, iid))"
        using inj by (auto simp: inj_on_def)
      then show ?thesis
        unfolding M using \<open>?f = x # xs\<close> Cons by (auto split: prod.splits)
    qed
  qed
qed

lemma resolve_right:
  assumes "hm_wf rs"
  shows "right_answer {(d, iid). hm_get rs (u, d) = Some iid} database
    (resolve_database_route rs u database)"
proof (cases "\<exists>x xs. database = Some (x # xs)")
  case True
  then show ?thesis
    by (auto simp: right_answer_def resolve_database_route_def split: option.splits)
next
  case False
  define M where "M = {(d, iid). hm_get rs (u, d) = Some iid}"
  have "database = None \<or> database = Some []" using False by (metis list.exhaust not_None_eq)
  moreover have "case filter (\<lambda>((u', d), iid). u' = u) rs of [] \<Rightarrow> M = {}
      | [((u', d), iid)] \<Rightarrow> M = {(d, iid)} | _ \<Rightarrow> \<exists>a \<in> M. \<exists>b \<in> M. a \<noteq> b"
    using by_user_right [OF assms, of u] unfolding M_def .
  ultimately have "right_answer M database (resolve_database_route rs u database)"
    unfolding right_answer_def resolve_database_route_def
    by (cases "filter (\<lambda>((u', d), iid). u' = u) rs" rule: remdups_adj.cases)
      (elim disjE; simp split: prod.splits)+
  then show ?thesis unfolding M_def .
qed

lemma lookups_sound:
  assumes I: "store_inv digest s"
  shows "resolve_postgres s u db = Found d t \<Longrightarrow>
      serves_target digest s Postgres (ByPair u d) t \<and> requested db d"
    and "resolve_clickhouse s u db = Found d t \<Longrightarrow>
      serves_target digest s Clickhouse (ByPair u d) t \<and> requested db d"
    and "resolve_mysql s u db = Found d mt \<Longrightarrow>
      serves_mariadb digest s Mysql (ByPair u d) mt \<and> requested db d"
    and "resolve_mariadb s u db = Found d mt \<Longrightarrow>
      serves_mariadb digest s Mariadb (ByPair u d) mt \<and> requested db d"
    and "resolve_mongodb s u d = Some t \<Longrightarrow> serves_target digest s Mongodb (ByPair u d) t"
    and "resolve_redis s u = Some t \<Longrightarrow> serves_target digest s Redis (ByName u) t"
    and "resolve_valkey s u = Some t \<Longrightarrow> serves_target digest s Valkey (ByName u) t"
    and "resolve_qdrant s key = Some t \<Longrightarrow> serves_target digest s Qdrant (ByName key) t"
    and "resolve_redis_password s h = Some (u, t) \<Longrightarrow>
      serves_target digest s Redis (ByPassword h) t"
    and "resolve_valkey_password s h = Some (u, t) \<Longrightarrow>
      serves_target digest s Valkey (ByPassword h) t"
proof -
  note plain = plain_found [OF I] and maria = mariadb_found [OF I] and key = key_found [OF I]
    and pw = password_found [OF I]
  show "resolve_postgres s u db = Found d t \<Longrightarrow>
      serves_target digest s Postgres (ByPair u d) t \<and> requested db d"
    using plain [of Postgres] by (simp add: resolve_postgres_def pair_routes_of_def)
  show "resolve_clickhouse s u db = Found d t \<Longrightarrow>
      serves_target digest s Clickhouse (ByPair u d) t \<and> requested db d"
    using plain [of Clickhouse] by (simp add: resolve_clickhouse_def pair_routes_of_def)
  show "resolve_mysql s u db = Found d mt \<Longrightarrow>
      serves_mariadb digest s Mysql (ByPair u d) mt \<and> requested db d"
    using maria [of Mysql] by (simp add: resolve_mysql_def pair_routes_of_def)
  show "resolve_mariadb s u db = Found d mt \<Longrightarrow>
      serves_mariadb digest s Mariadb (ByPair u d) mt \<and> requested db d"
    using maria [of Mariadb] by (simp add: resolve_mariadb_def pair_routes_of_def)
  show "resolve_mongodb s u d = Some t \<Longrightarrow> serves_target digest s Mongodb (ByPair u d) t"
    using key [of Mongodb "ByPair u d"]
    by (auto simp: resolve_mongodb_def routes_def pair_routes_of_def Option.bind_eq_Some_conv)
  show "resolve_redis s u = Some t \<Longrightarrow> serves_target digest s Redis (ByName u) t"
    using key [of Redis "ByName u"]
    by (auto simp: resolve_redis_def routes_def name_routes_of_def Option.bind_eq_Some_conv)
  show "resolve_valkey s u = Some t \<Longrightarrow> serves_target digest s Valkey (ByName u) t"
    using key [of Valkey "ByName u"]
    by (auto simp: resolve_valkey_def routes_def name_routes_of_def Option.bind_eq_Some_conv)
  show "resolve_qdrant s key = Some t \<Longrightarrow> serves_target digest s Qdrant (ByName key) t"
    using key_found [OF I, of Qdrant "ByName key"]
    by (auto simp: resolve_qdrant_def routes_def name_routes_of_def Option.bind_eq_Some_conv)
  show "resolve_redis_password s h = Some (u, t) \<Longrightarrow>
      serves_target digest s Redis (ByPassword h) t"
    using pw [of Redis] by (auto simp: resolve_redis_password_def password_routes_of_def)
  show "resolve_valkey_password s h = Some (u, t) \<Longrightarrow>
      serves_target digest s Valkey (ByPassword h) t"
    using pw [of Valkey] by (auto simp: resolve_valkey_password_def password_routes_of_def)
qed

section \<open>Properties\<close>

text \<open>C2: whichever lookup the gateway makes in a reachable store, the instance it is sent to is
  the one stored under that id, runs the protocol, owns the user name and database (or route key,
  or password) the client presented, is eligible and not fenced, and the revision handed out with
  it is current; a requested database is never replaced by another one.\<close>

theorem routed_to_own_instance:
  assumes "reach (store_init digest) (store_step digest) s"
  shows "(resolve_postgres s u db = Found d t \<longrightarrow>
       serves_target digest s Postgres (ByPair u d) t \<and> requested db d)
    \<and> (resolve_clickhouse s u db = Found d t \<longrightarrow>
       serves_target digest s Clickhouse (ByPair u d) t \<and> requested db d)
    \<and> (resolve_mysql s u db = Found d mt \<longrightarrow>
       serves_mariadb digest s Mysql (ByPair u d) mt \<and> requested db d)
    \<and> (resolve_mariadb s u db = Found d mt \<longrightarrow>
       serves_mariadb digest s Mariadb (ByPair u d) mt \<and> requested db d)
    \<and> (resolve_mongodb s u d = Some t \<longrightarrow> serves_target digest s Mongodb (ByPair u d) t)
    \<and> (resolve_redis s u = Some t \<longrightarrow> serves_target digest s Redis (ByName u) t)
    \<and> (resolve_valkey s u = Some t \<longrightarrow> serves_target digest s Valkey (ByName u) t)
    \<and> (resolve_qdrant s key = Some t \<longrightarrow> serves_target digest s Qdrant (ByName key) t)
    \<and> (resolve_redis_password s h = Some (u, t) \<longrightarrow>
       serves_target digest s Redis (ByPassword h) t)
    \<and> (resolve_valkey_password s h = Some (u, t) \<longrightarrow>
       serves_target digest s Valkey (ByPassword h) t)"
  using lookups_sound [OF route_store.reach_inv [OF assms]] by simp

definition ex_instance :: instance_metadata where
  "ex_instance = \<lparr>im_instance_id = ascii ''i1'', im_deployment_mode = Shared,
     im_protocol = Postgres, im_status = Running, im_desired_state = DesiredRunning,
     im_disk_limit_blocked = False, im_backend = UnixSocket (ascii ''/s''),
     im_username = ascii ''app'', im_database = ascii ''db'', im_route_key_sha256 = None,
     im_mariadb_stage2 = None, im_mysql_stage2 = None, im_tenant_password = None,
     im_memory_mib = 1024, im_created_at = ascii ''t0''\<rparr>"

definition ex_store :: instance_state where
  "ex_store = from_instances (\<lambda>p. p) [ex_instance]"

definition ex_target :: route_target where
  "ex_target = \<lparr>rt_instance_id = ascii ''i1'', rt_instance_generation = ascii ''t0'',
     rt_endpoint = UnixSocket (ascii ''/s''), rt_connection_limit = Some 32,
     rt_route_revision = 1\<rparr>"

lemma ex_store_init: "store_init (\<lambda>p. p) ex_store"
  unfolding store_init_def ex_store_def by (intro exI [of _ "[ex_instance]"]) simp

lemma ex_reach: "reach (store_init (\<lambda>p. p)) (store_step (\<lambda>p. p)) ex_store"
  by (rule reach.reach_init) (rule ex_store_init)

lemmas ex_store_simps = ex_store_def from_instances_def upsert_def ex_instance_def default_state_def
  primitive_defs route_eligible_def publish_routes_def hm_insert_def hm_get_def
  retain_others_def remove_password_route_def next_revision_def

lemma ex_lookup: "resolve_postgres ex_store (ascii ''app'') None = Found (ascii ''db'') ex_target"
  by (simp add: ex_store_simps resolve_postgres_def resolve_plain_route_def
      resolve_database_target_def resolve_database_route_def make_target_def route_revision_def
      ex_target_def connection_limit_def max_connections_def)

theorem routed_to_own_instance_witness:
  "serves_target (\<lambda>p. p) ex_store Postgres (ByPair (ascii ''app'') (ascii ''db'')) ex_target"
  using routed_to_own_instance [OF ex_reach,
      of "ascii ''app''" None "ascii ''db''" ex_target] ex_lookup by simp

text \<open>C13: as long as the storage layer keeps credentials unique, the route tables implement their
  specification: a lookup finds exactly the eligible, unfenced instance that owns the requested
  database; without a database it finds the only one the user has, and reports when there is none
  or more than one.\<close>

theorem lookups_refine_instances:
  assumes "reach (unique_init digest) (unique_step digest) s"
    and "p \<in> {Postgres, Mariadb, Mysql, Mongodb, Clickhouse}"
  shows "right_answer {(d, iid). published digest s p (ByPair u d) iid} database
    (resolve_database_route (pair_routes_of s p) u database)"
proof -
  have I: "complete_inv digest s" by (rule unique_store.reach_inv [OF assms(1)])
  then have "hm_wf (pair_routes_of s p)"
    by (simp add: complete_inv_def store_inv_def tables_wf_def)
  moreover have "published digest s p (ByPair u d) iid \<longleftrightarrow>
      hm_get (pair_routes_of s p) (u, d) = Some iid" for d iid
  proof -
    have "published digest s p (ByPair u d) iid \<longleftrightarrow> routes s p (ByPair u d) iid"
      using I unfolding complete_inv_def by blast
    then show ?thesis by (simp add: routes_def)
  qed
  ultimately show ?thesis using resolve_right by simp
qed

lemma ex_published: "published (\<lambda>p. p) ex_store p k x \<longleftrightarrow>
    p = Postgres \<and> k = ByPair (ascii ''app'') (ascii ''db'') \<and> x = ascii ''i1''"
  by (auto simp: published_def claims_def ex_store_simps split: route_key.splits if_splits)

theorem lookups_refine_instances_witness:
  "right_answer {(ascii ''db'', ascii ''i1'')} None
     (resolve_database_route (pair_routes_of ex_store Postgres) (ascii ''app'') None)"
proof -
  have "unique_init (\<lambda>p. p) ex_store"
    unfolding unique_init_def
    by (intro exI [of _ "[ex_instance]"]) (auto simp: ex_store_def [symmetric] unique_keys_def
        ex_published)
  then have "reach (unique_init (\<lambda>p. p)) (unique_step (\<lambda>p. p)) ex_store" by (rule reach.reach_init)
  from lookups_refine_instances [OF this, of Postgres "ascii ''app''" None]
  show ?thesis by (simp add: ex_published)
qed

text \<open>C14: a connection that resolved a route notices every later change of that instance: once any
  operation on the instance has happened, the revision it holds is not current, whatever other
  operations come before and after (fewer than \<open>2 ^ 64\<close> in all).\<close>

theorem stale_route_detected:
  assumes "reach (store_init digest) (store_step digest) s"
    and "route_is_current s i r"
    and "op \<in> set ops" and "op_id op = i"
    and "is_next_route_revision s + length ops \<le> u64_max"
  shows "\<not> route_is_current (apply_ops digest ops s) i r"
proof -
  have "outdated (apply_ops digest ops s) i r"
    using apply_ops_outdate [OF route_store.reach_inv [OF assms(1)] assms(5), of i r] assms
    by (auto simp: route_is_current_def)
  then show ?thesis by (auto simp: outdated_def route_is_current_def)
qed

theorem stale_route_detected_witness:
  "\<not> route_is_current (apply_ops (\<lambda>p. p) [Upsert ex_instance] ex_store) (ascii ''i1'') 1"
proof -
  have "route_is_current ex_store (ascii ''i1'') 1" "is_next_route_revision ex_store = 1"
    by (simp_all add: route_is_current_def ex_store_simps)
  then show ?thesis
    using stale_route_detected [OF ex_reach, of "ascii ''i1''" 1
        "Upsert ex_instance" "[Upsert ex_instance]"]
    by (simp add: ex_instance_def)
qed

text \<open>C15: a pinned fence keeps an instance unreachable until the operation that owns it opens the
  routes again or the instance is removed: no other sequence of operations publishes a route to
  it or makes a revision of it current.\<close>

theorem pinned_fence_holds:
  assumes "reach (store_init digest) (store_step digest) s"
    and "i \<in> set (is_pinned_fences s)" and "\<forall>op \<in> set ops. \<not> reopens i op"
    and "is_next_route_revision s + length ops \<le> u64_max"
  shows "routes_fenced (apply_ops digest ops s) i
    \<and> \<not> routes (apply_ops digest ops s) p k i
    \<and> \<not> route_is_current (apply_ops digest ops s) i r"
proof -
  have "store_inv digest (apply_ops digest ops s)" "i \<in> pinned (apply_ops digest ops s)"
    using apply_ops_pinned [OF route_store.reach_inv [OF assms(1)] assms(4,2,3)] by auto
  then show ?thesis
    unfolding store_inv_def published_def routes_fenced_def route_is_current_def by blast
qed

definition ex_pinned :: instance_state where
  "ex_pinned = fst (pin_routes_fenced (ascii ''i1'') ex_store)"

theorem pinned_fence_holds_witness:
  "\<not> routes (apply_ops (\<lambda>p. p) [Upsert ex_instance] ex_pinned) Postgres
     (ByPair (ascii ''app'') (ascii ''db'')) (ascii ''i1'')"
proof -
  have "is_next_route_revision ex_store = 1" by (simp add: ex_store_simps)
  then have "store_step (\<lambda>p. p) ex_store ex_pinned"
    unfolding store_step_def ex_pinned_def
    by (auto intro: exI [of _ "PinRoutesFenced (ascii ''i1'')"])
  then have r: "reach (store_init (\<lambda>p. p)) (store_step (\<lambda>p. p)) ex_pinned"
    by (rule reach.reach_step [OF ex_reach])
  have "ascii ''i1'' \<in> set (is_pinned_fences ex_pinned)" "is_next_route_revision ex_pinned = 2"
    by (simp_all add: ex_pinned_def pin_routes_fenced_def fence_existing_def ex_store_simps)
  then show ?thesis
    using pinned_fence_holds [OF r, of "ascii ''i1''" "[Upsert ex_instance]"] by simp
qed

end
