(* ===== verification/UsageTree.thy ===== *)
theory UsageTree
  imports DiskScan "HOL-Library.Product_Lexorder"
begin

text \<open>
  The usage cache of the soft disk limiter (\<open>server/disk/soft/usage_tree.rs\<close>): a full scan fills
  it, a partial scan re-reads the directories below which the watcher saw changes and adjusts the
  sums of their ancestors by the differences.

  A failed operation returns an error and no cache: the source writes to the cache only after the
  last check has passed.
\<close>

section \<open>The cache and full scans\<close>

record usage_tree_cache =
  ut_root_identity :: root_identity
  ut_target_generation :: string
  ut_max_cached_directories :: nat
  ut_nodes :: nodes

datatype bounded_full_scan = Cached usage_tree_cache | DirectoryLimitExceeded

datatype reconcile_error = FullScanRequired string | Io scan_error

definition io_result :: "scan_error + 'a \<Rightarrow> reconcile_error + 'a" where
  "io_result r = (case r of Inl e \<Rightarrow> Inl (Io e) | Inr x \<Rightarrow> Inr x)"

definition open_root :: "errno + file_stat \<Rightarrow> scan_error + root_identity \<times> file_stat" where
  "open_root r = bind_result (os_result r) (\<lambda>stat.
     if st_kind stat \<noteq> Directory then Inl NotADirectory
     else Inr (identity_from_stat stat, stat))"

definition root_identity_of :: "errno + file_stat \<Rightarrow> scan_error + root_identity" where
  "root_identity_of r = bind_result (open_root r) (\<lambda>(identity, _). Inr identity)"

definition validate_complete_tree :: "nodes \<Rightarrow> scan_limits \<Rightarrow> scan_error + unit" where
  "validate_complete_tree nodes limits =
     bind_result (ok_or (hm_get nodes []) NoCachedRoot) (\<lambda>root.
     bind_result (ok_or (checked_add (sl_max_entries limits) 1) EntryLimitTooLarge)
       (\<lambda>maximum_nodes.
         if maximum_nodes < length nodes
           \<or> sl_max_entries limits < usage_entries (cd_total root)
         then Inl CacheExceedsEntryBound else Inr ()))"

definition scan_full_bounded ::
  "root_observation \<Rightarrow> string \<Rightarrow> scan_limits \<Rightarrow> nat \<Rightarrow> scan_error + bounded_full_scan" where
  "scan_full_bounded root target_generation limits max_cached_directories =
     (if max_cached_directories = 0 then Inr DirectoryLimitExceeded
      else bind_result (open_root (ro_open root)) (\<lambda>(opened_identity, root_stat).
        case scan_directory_tree (ro_contents root) root_stat [] 0 (budget_new limits) []
            max_cached_directories of
          Inl e \<Rightarrow> if e = CacheDirectoryLimit then Inr DirectoryLimitExceeded else Inl e
        | Inr (_, _, nodes) \<Rightarrow>
            bind_result (validate_complete_tree nodes limits) (\<lambda>_.
            bind_result (root_identity_of (ro_reopen root)) (\<lambda>again.
              if again \<noteq> opened_identity then Inl RootReplaced
              else Inr (Cached \<lparr>ut_root_identity = opened_identity,
                ut_target_generation = target_generation,
                ut_max_cached_directories = max_cached_directories, ut_nodes = nodes\<rparr>)))))"

definition nodes_usage :: "nodes \<Rightarrow> directory_usage" where
  "nodes_usage nodes = (case hm_get nodes [] of None \<Rightarrow> 0 | Some root \<Rightarrow> cd_total root)"

definition ut_usage :: "usage_tree_cache \<Rightarrow> directory_usage" where
  "ut_usage c = nodes_usage (ut_nodes c)"

definition directory_count :: "usage_tree_cache \<Rightarrow> nat" where
  "directory_count c = length (ut_nodes c)"

section \<open>Paths\<close>

text \<open>
  The components of a path as the standard library splits it: separators are collapsed, a dot is
  kept only as the first component of a relative path.
\<close>

datatype component = RootDir | CurDir | ParentDir | Normal string

fun split_slash :: "string \<Rightarrow> string list" where
  "split_slash [] = [[]]"
| "split_slash (c # cs) =
     (if c = CHR ''/'' then [] # split_slash cs
      else (case split_slash cs of [] \<Rightarrow> [[c]] | s # ss \<Rightarrow> (c # s) # ss))"

definition segment :: "string \<Rightarrow> component list" where
  "segment s = (if s = [] \<or> s = ''.'' then [] else if s = ''..'' then [ParentDir] else [Normal s])"

definition path_components :: "string \<Rightarrow> component list" where
  "path_components p =
     (let segments = split_slash p
      in if p \<noteq> [] \<and> hd p = CHR ''/'' then RootDir # concat (map segment segments)
         else (if hd segments = ''.'' then [CurDir] else segment (hd segments))
           @ concat (map segment (tl segments)))"

definition is_single_normal_component :: "string \<Rightarrow> bool" where
  "is_single_normal_component name =
     (case path_components name of [Normal _] \<Rightarrow> True | _ \<Rightarrow> False)"

definition normal_component :: "component \<Rightarrow> bool" where
  "normal_component c = (case c of Normal name \<Rightarrow> is_single_normal_component name | _ \<Rightarrow> False)"

definition validate_changed_path :: "string \<Rightarrow> reconcile_error + unit" where
  "validate_changed_path p =
     (if p = [] then Inl (FullScanRequired ''a dirty event names the scan root directly'')
      else if list_all normal_component (path_components p) then Inr ()
      else Inl (FullScanRequired ''a dirty path is not a clean root-relative path''))"

fun component_names :: "component list \<Rightarrow> path" where
  "component_names [] = []"
| "component_names (Normal name # cs) = name # component_names cs"
| "component_names (c # cs) = component_names cs"

definition unavailable_path_error :: "errno \<Rightarrow> bool" where
  "unavailable_path_error e = (e = NOENT \<or> e = STALE \<or> e = NOTDIR \<or> e = LOOP)"

datatype open_relative_error = Unavailable | OpenIo scan_error

text \<open>What the kernel answers while a path below the root is opened component by component.\<close>

record path_opening =
  op_dup :: "errno option"
  op_step :: "nat \<Rightarrow> errno option"

fun open_components ::
  "(nat \<Rightarrow> errno option) \<Rightarrow> nat \<Rightarrow> component list \<Rightarrow> open_relative_error + unit" where
  "open_components answer i [] = Inr ()"
| "open_components answer i (Normal name # cs) =
     (case answer i of
        None \<Rightarrow> open_components answer (i + 1) cs
      | Some e \<Rightarrow> if unavailable_path_error e then Inl Unavailable else Inl (OpenIo (Os e)))"
| "open_components answer i (c # cs) = Inl (OpenIo NotACleanPath)"

definition open_relative_directory :: "path_opening \<Rightarrow> path \<Rightarrow> open_relative_error + unit" where
  "open_relative_directory w relative_path =
     (case op_dup w of
        Some e \<Rightarrow> Inl (OpenIo (Os e))
      | None \<Rightarrow> open_components (op_step w) 0 (map Normal relative_path))"

section \<open>Planning a partial scan\<close>

text \<open>
  What the kernel answers during one partial scan.  The openings while planning are indexed by
  the position of the changed path, so a directory may be there for one changed path and gone for
  the next; every candidate is opened once more when it is staged.
\<close>

record tree_observation =
  to_open :: "errno + file_stat"
  to_plan :: "nat \<Rightarrow> path \<Rightarrow> path_opening"
  to_stage :: "path \<Rightarrow> path_opening"
  to_stat :: "path \<Rightarrow> errno + file_stat"
  to_contents :: "path \<Rightarrow> dir_contents"
  to_reopen :: "errno + file_stat"

function nearest_cached_existing_ancestor ::
  "nodes \<Rightarrow> (path \<Rightarrow> path_opening) \<Rightarrow> path \<Rightarrow> scan_budget \<Rightarrow>
    reconcile_error + path \<times> scan_budget"
  where
  "nearest_cached_existing_ancestor nodes openings candidate budget =
     bind_result (io_result (budget_check budget)) (\<lambda>budget.
       if candidate = [] then
         Inl (FullScanRequired ''no existing cached ancestor remains below the scan root'')
       else if hm_get nodes candidate \<noteq> None then
         (case open_relative_directory (openings candidate) candidate of
            Inr _ \<Rightarrow> Inr (candidate, budget)
          | Inl Unavailable \<Rightarrow>
              nearest_cached_existing_ancestor nodes openings (butlast candidate) budget
          | Inl (OpenIo e) \<Rightarrow> Inl (Io e))
       else nearest_cached_existing_ancestor nodes openings (butlast candidate) budget)"
  by pat_completeness auto
termination
  by (relation "measure (\<lambda>(_, _, candidate, _). length candidate)") auto

declare nearest_cached_existing_ancestor.simps [simp del]

fun nearest_ancestors ::
  "nodes \<Rightarrow> (nat \<Rightarrow> path \<Rightarrow> path_opening) \<Rightarrow> nat \<Rightarrow> string list \<Rightarrow> scan_budget \<Rightarrow>
    reconcile_error + path list \<times> scan_budget" where
  "nearest_ancestors nodes openings i [] budget = Inr ([], budget)"
| "nearest_ancestors nodes openings i (changed_path # changed_paths) budget =
     bind_result (io_result (budget_check budget)) (\<lambda>budget.
     bind_result (validate_changed_path changed_path) (\<lambda>_.
     bind_result (nearest_cached_existing_ancestor nodes (openings i)
         (component_names (path_components changed_path)) budget) (\<lambda>(candidate, budget).
     bind_result (nearest_ancestors nodes openings (i + 1) changed_paths budget)
       (\<lambda>(candidates, budget). Inr (candidate # candidates, budget)))))"

fun deduplicate :: "path list \<Rightarrow> path list \<Rightarrow> path list" where
  "deduplicate deduplicated [] = deduplicated"
| "deduplicate deduplicated (candidate # candidates) =
     (if list_ex (\<lambda>ancestor. prefix ancestor candidate) deduplicated
      then deduplicate deduplicated candidates
      else deduplicate (deduplicated @ [candidate]) candidates)"

definition plan_candidates ::
  "nodes \<Rightarrow> (nat \<Rightarrow> path \<Rightarrow> path_opening) \<Rightarrow> string list \<Rightarrow> scan_budget \<Rightarrow>
    reconcile_error + path list \<times> scan_budget" where
  "plan_candidates nodes openings changed_paths budget =
     bind_result (nearest_ancestors nodes openings 0 changed_paths budget)
       (\<lambda>(candidates, budget).
         Inr (deduplicate [] (sort_key (\<lambda>p. (length p, p)) candidates), budget))"

section \<open>Staging\<close>

definition stage_replacement ::
  "usage_tree_cache \<Rightarrow> tree_observation \<Rightarrow> path \<Rightarrow> nat \<Rightarrow> scan_budget \<Rightarrow>
    reconcile_error + nodes \<times> scan_budget" where
  "stage_replacement c obs candidate staged_directory_count budget =
     (case open_relative_directory (to_stage obs candidate) candidate of
        Inl Unavailable \<Rightarrow>
          Inl (FullScanRequired ''a dirty subtree changed while it was being scanned'')
      | Inl (OpenIo e) \<Rightarrow> Inl (Io e)
      | Inr _ \<Rightarrow>
          bind_result (io_result (os_result (to_stat obs candidate))) (\<lambda>stat.
          if identity_from_stat stat = ut_root_identity c \<and> candidate \<noteq> [] then
            Inl (FullScanRequired ''a dirty subtree unexpectedly resolves to the scan root'')
          else
            bind_result (ok_or (checked_sub (ut_max_cached_directories c) staged_directory_count)
                (FullScanRequired ''staging directory bound'')) (\<lambda>remaining.
            if remaining = 0 then Inl (FullScanRequired ''staging directory bound'')
            else
              (case scan_directory_tree (to_contents obs candidate) stat candidate
                  (length candidate) budget [] remaining of
                 Inl e \<Rightarrow>
                   if e = CacheDirectoryLimit then Inl (FullScanRequired ''staging directory bound'')
                   else Inl (Io e)
               | Inr (_, budget, replacement) \<Rightarrow> Inr (replacement, budget)))))"

fun stage_candidates ::
  "usage_tree_cache \<Rightarrow> tree_observation \<Rightarrow> path list \<Rightarrow> nat \<Rightarrow> scan_budget \<Rightarrow>
    reconcile_error + (path \<times> nodes) list" where
  "stage_candidates c obs [] staged_directory_count budget = Inr []"
| "stage_candidates c obs (candidate # candidates) staged_directory_count budget =
     bind_result (io_result (budget_check budget)) (\<lambda>budget.
     bind_result (stage_replacement c obs candidate staged_directory_count budget)
       (\<lambda>(replacement, budget).
     bind_result (ok_or (checked_add staged_directory_count (length replacement))
         (FullScanRequired ''the cumulative incremental cache directory count overflowed''))
       (\<lambda>staged_directory_count.
     bind_result (stage_candidates c obs candidates staged_directory_count budget)
       (\<lambda>staged. Inr ((candidate, replacement) # staged)))))"

section \<open>Differences of usage\<close>

datatype usage_delta =
  UsageDelta (delta_logical: int) (delta_physical: int) (delta_entries: int)

instantiation usage_delta :: ab_group_add
begin

definition zero_usage_delta :: usage_delta where
  "0 = UsageDelta 0 0 0"

definition plus_usage_delta :: "usage_delta \<Rightarrow> usage_delta \<Rightarrow> usage_delta" where
  "d + e = UsageDelta (delta_logical d + delta_logical e)
     (delta_physical d + delta_physical e) (delta_entries d + delta_entries e)"

definition uminus_usage_delta :: "usage_delta \<Rightarrow> usage_delta" where
  "- d = UsageDelta (- delta_logical d) (- delta_physical d) (- delta_entries d)"

definition minus_usage_delta :: "usage_delta \<Rightarrow> usage_delta \<Rightarrow> usage_delta" where
  "d - e = UsageDelta (delta_logical d - delta_logical e)
     (delta_physical d - delta_physical e) (delta_entries d - delta_entries e)"

instance
  by standard (auto simp: zero_usage_delta_def plus_usage_delta_def uminus_usage_delta_def
      minus_usage_delta_def)

end

definition as_delta :: "directory_usage \<Rightarrow> usage_delta" where
  "as_delta u = UsageDelta (int (logical_bytes u)) (int (physical_bytes u)) (int (usage_entries u))"

definition delta_between :: "directory_usage \<Rightarrow> directory_usage \<Rightarrow> usage_delta" where
  "delta_between old new = UsageDelta (int (logical_bytes new) - int (logical_bytes old))
     (int (physical_bytes new) - int (physical_bytes old))
     (int (usage_entries new) - int (usage_entries old))"

definition checked_add_i128 :: "int \<Rightarrow> int \<Rightarrow> int option" where
  "checked_add_i128 a b = (if - (2 ^ 127) \<le> a + b \<and> a + b < 2 ^ 127 then Some (a + b) else None)"

definition delta_add :: "usage_delta \<Rightarrow> usage_delta \<Rightarrow> reconcile_error + usage_delta" where
  "delta_add d e =
     bind_result (ok_or (checked_add_i128 (delta_logical d) (delta_logical e))
       (FullScanRequired ''logical usage delta overflow'')) (\<lambda>logical.
     bind_result (ok_or (checked_add_i128 (delta_physical d) (delta_physical e))
       (FullScanRequired ''physical usage delta overflow'')) (\<lambda>physical.
     bind_result (ok_or (checked_add_i128 (delta_entries d) (delta_entries e))
       (FullScanRequired ''entry usage delta overflow'')) (\<lambda>entries.
       Inr (UsageDelta logical physical entries))))"

definition apply_delta :: "nat \<Rightarrow> int \<Rightarrow> reconcile_error + nat" where
  "apply_delta v delta =
     bind_result (ok_or (checked_add_i128 (int v) delta)
       (FullScanRequired ''cached usage delta overflow'')) (\<lambda>updated.
       if 0 \<le> updated \<and> updated \<le> int u64_max then Inr (nat updated)
       else Inl (FullScanRequired ''cached usage would become negative or overflow''))"

definition delta_apply :: "usage_delta \<Rightarrow> directory_usage \<Rightarrow> reconcile_error + directory_usage" where
  "delta_apply d u =
     bind_result (apply_delta (logical_bytes u) (delta_logical d)) (\<lambda>logical.
     bind_result (apply_delta (physical_bytes u) (delta_physical d)) (\<lambda>physical.
     bind_result (apply_delta (usage_entries u) (delta_entries d)) (\<lambda>entries.
       Inr (DirectoryUsage logical physical entries))))"

section \<open>Validation of the cached tree\<close>

fun add_children ::
  "nodes \<Rightarrow> path \<Rightarrow> string list \<Rightarrow> directory_usage \<Rightarrow> reconcile_error + directory_usage" where
  "add_children nodes p [] calculated = Inr calculated"
| "add_children nodes p (child # children) calculated =
     (if \<not> is_single_normal_component child then
        Inl (FullScanRequired ''a cached child contains an unsafe path component'')
      else
        bind_result (ok_or (hm_get nodes (p @ [child]))
          (FullScanRequired ''a cached child is missing'')) (\<lambda>node.
        case add_usage calculated (cd_total node) of
          Inl _ \<Rightarrow>
            Inl (FullScanRequired ''cached directory aggregate arithmetic is invalid'')
        | Inr calculated \<Rightarrow> add_children nodes p children calculated))"

definition validate_cached_directory :: "nodes \<Rightarrow> path \<Rightarrow> reconcile_error + unit" where
  "validate_cached_directory nodes p =
     bind_result (ok_or (hm_get nodes p)
       (FullScanRequired ''a cached directory is missing'')) (\<lambda>node.
     bind_result (add_children nodes p (cd_children node) (cd_base node)) (\<lambda>calculated.
       if calculated \<noteq> cd_total node
       then Inl (FullScanRequired ''a cached directory aggregate is inconsistent'')
       else Inr ()))"

text \<open>
  The stack of pending directories has its top first, so the children are pushed in reverse.  A
  directory is collected at most once and has to be cached, so the loop ends.
\<close>

function collect_subtree_paths ::
  "nodes \<Rightarrow> path list \<Rightarrow> path list \<Rightarrow> reconcile_error + path list" where
  "collect_subtree_paths nodes [] collected = Inr collected"
| "collect_subtree_paths nodes (p # pending) collected =
     (if p \<in> set collected then
        Inl (FullScanRequired ''cached subtrees overlap or contain a cycle'')
      else (case hm_get nodes p of
          None \<Rightarrow> Inl (FullScanRequired ''a cached directory is missing'')
        | Some node \<Rightarrow>
            bind_result (validate_cached_directory nodes p) (\<lambda>_.
              if list_all is_single_normal_component (cd_children node)
              then collect_subtree_paths nodes
                (rev (map (\<lambda>child. p @ [child]) (cd_children node)) @ pending) (p # collected)
              else Inl (FullScanRequired
                ''cached child contains an unsafe path component''))))"
  by pat_completeness auto

termination
proof (relation "measures [\<lambda>(nodes, pending, collected). card (fst ` set nodes - set collected),
      \<lambda>(nodes, pending, collected). length pending]")
  fix nodes :: nodes and p pending collected node u
  assume p: "p \<notin> set collected" "hm_get nodes p = Some node"
  have "p \<in> fst ` set nodes - set collected"
    using p hm_get_SomeD [of nodes p node] by force
  then have "fst ` set nodes - set (p # collected) \<subset> fst ` set nodes - set collected"
    by auto
  then show "((nodes, rev (map (\<lambda>child. p @ [child]) (cd_children node)) @ pending, p # collected),
      nodes, p # pending, collected)
    \<in> measures [\<lambda>(nodes, pending, collected). card (fst ` set nodes - set collected),
        \<lambda>(nodes, pending, collected). length pending]"
    by (simp add: psubset_card_mono)
qed simp

section \<open>Committing\<close>

definition path_ancestors :: "path \<Rightarrow> path list" where
  "path_ancestors p = map (\<lambda>n. take n p) (rev [0..<length p])"

fun claim_paths :: "path \<Rightarrow> path list \<Rightarrow> path list \<Rightarrow> reconcile_error + path list" where
  "claim_paths candidate [] claimed = Inr claimed"
| "claim_paths candidate (p # ps) claimed =
     (if \<not> prefix candidate p \<or> p \<in> set claimed
      then Inl (FullScanRequired ''replacement subtrees overlap or contain an unrelated path'')
      else claim_paths candidate ps (p # claimed))"

type_synonym deltas = "(path \<times> usage_delta) list"

fun add_deltas ::
  "nodes \<Rightarrow> usage_delta \<Rightarrow> path list \<Rightarrow> deltas \<Rightarrow> reconcile_error + deltas" where
  "add_deltas nodes delta [] deltas = Inr deltas"
| "add_deltas nodes delta (ancestor # ancestors) deltas =
     (if hm_get nodes ancestor = None
      then Inl (FullScanRequired ''a cached ancestor is missing'')
      else
        bind_result (validate_cached_directory nodes ancestor) (\<lambda>_.
        bind_result (delta_add
            (case hm_get deltas ancestor of None \<Rightarrow> 0 | Some d \<Rightarrow> d) delta) (\<lambda>d.
          add_deltas nodes delta ancestors (hm_insert deltas ancestor d))))"

record commit_plan =
  cp_removed :: "path list"
  cp_claimed :: "path list"
  cp_deltas :: deltas

fun plan_commit ::
  "nodes \<Rightarrow> (path \<times> nodes) list \<Rightarrow> commit_plan \<Rightarrow> reconcile_error + commit_plan" where
  "plan_commit nodes [] plan = Inr plan"
| "plan_commit nodes ((candidate, replacement) # staged) plan =
     bind_result (ok_or (hm_get nodes candidate)
       (FullScanRequired ''a cached dirty subtree disappeared'')) (\<lambda>old.
     bind_result (ok_or (hm_get replacement candidate)
       (FullScanRequired ''a replacement scan omitted its subtree root'')) (\<lambda>new.
     bind_result (collect_subtree_paths nodes [candidate] (cp_removed plan)) (\<lambda>removed.
     bind_result (claim_paths candidate (map fst replacement) (cp_claimed plan)) (\<lambda>claimed.
     bind_result (add_deltas nodes (delta_between (cd_total old) (cd_total new))
         (path_ancestors candidate) (cp_deltas plan)) (\<lambda>deltas.
       plan_commit nodes staged
         \<lparr>cp_removed = removed, cp_claimed = claimed, cp_deltas = deltas\<rparr>)))))"

fun updated_totals ::
  "nodes \<Rightarrow> deltas \<Rightarrow> reconcile_error + (path \<times> directory_usage) list" where
  "updated_totals nodes [] = Inr []"
| "updated_totals nodes ((p, delta) # deltas) =
     bind_result (ok_or (hm_get nodes p)
       (FullScanRequired ''cached ancestor disappeared'')) (\<lambda>old.
     bind_result (delta_apply delta (cd_total old)) (\<lambda>updated.
     bind_result (updated_totals nodes deltas) (\<lambda>rest. Inr ((p, updated) # rest))))"

fun remove_paths :: "path list \<Rightarrow> nodes \<Rightarrow> nodes" where
  "remove_paths [] nodes = nodes"
| "remove_paths (p # ps) nodes = remove_paths ps (hm_remove nodes p)"

fun extend_nodes :: "nodes \<Rightarrow> nodes \<Rightarrow> nodes" where
  "extend_nodes [] nodes = nodes"
| "extend_nodes ((p, node) # replacement) nodes = extend_nodes replacement (hm_insert nodes p node)"

fun extend_staged :: "(path \<times> nodes) list \<Rightarrow> nodes \<Rightarrow> nodes" where
  "extend_staged [] nodes = nodes"
| "extend_staged ((_, replacement) # staged) nodes =
     extend_staged staged (extend_nodes replacement nodes)"

fun set_totals :: "(path \<times> directory_usage) list \<Rightarrow> nodes \<Rightarrow> nodes" where
  "set_totals [] nodes = nodes"
| "set_totals ((p, usage) # updated) nodes =
     set_totals updated (case hm_get nodes p of
         None \<Rightarrow> nodes
       | Some node \<Rightarrow> hm_insert nodes p (node\<lparr>cd_total := usage\<rparr>))"

definition commit_replacements ::
  "usage_tree_cache \<Rightarrow> (path \<times> nodes) list \<Rightarrow> scan_limits \<Rightarrow>
    reconcile_error + directory_usage \<times> usage_tree_cache" where
  "commit_replacements c staged limits =
     bind_result (plan_commit (ut_nodes c) staged
         \<lparr>cp_removed = [], cp_claimed = [], cp_deltas = []\<rparr>) (\<lambda>plan.
     bind_result (ok_or (Option.bind
           (checked_sub (length (ut_nodes c)) (length (cp_removed plan)))
           (\<lambda>count. checked_add count (length (cp_claimed plan))))
         (FullScanRequired ''cached directory count is inconsistent'')) (\<lambda>final_node_count.
     bind_result (ok_or (checked_add (sl_max_entries limits) 1) (Io EntryLimitTooLarge))
       (\<lambda>maximum_entry_nodes.
     if ut_max_cached_directories c < final_node_count then
       Inl (FullScanRequired ''the incremental cache directory bound was exceeded'')
     else if maximum_entry_nodes < final_node_count then Inl (Io CacheExceedsEntryBound)
     else
       bind_result (updated_totals (ut_nodes c) (cp_deltas plan)) (\<lambda>updated_ancestors.
       let final_usage = (case hm_get updated_ancestors [] of
             None \<Rightarrow> ut_usage c | Some u \<Rightarrow> u)
       in if sl_max_entries limits < usage_entries final_usage
          then Inl (Io CacheExceedsEntryBound)
          else Inr (final_usage, c\<lparr>ut_nodes := set_totals updated_ancestors
              (extend_staged staged (remove_paths (cp_removed plan) (ut_nodes c)))\<rparr>)))))"

definition reconcile ::
  "usage_tree_cache \<Rightarrow> tree_observation \<Rightarrow> string \<Rightarrow> string list \<Rightarrow> scan_limits \<Rightarrow>
    reconcile_error + directory_usage \<times> usage_tree_cache" where
  "reconcile c obs target_generation changed_paths limits =
     (if target_generation \<noteq> ut_target_generation c then
        Inl (FullScanRequired ''the target generation no longer matches the cached baseline'')
      else
        bind_result (io_result (open_root (to_open obs))) (\<lambda>(current_identity, _).
        if current_identity \<noteq> ut_root_identity c then
          Inl (FullScanRequired ''the data directory was replaced at the same pathname'')
        else if hm_get (ut_nodes c) [] = None then
          Inl (FullScanRequired ''the cached usage tree has no root node'')
        else if changed_paths = [] then Inr (ut_usage c, c)
        else
          bind_result (plan_candidates (ut_nodes c) (to_plan obs) changed_paths
              (budget_new limits)) (\<lambda>(candidates, budget).
          bind_result (stage_candidates c obs candidates 0 budget) (\<lambda>staged.
          bind_result (io_result (root_identity_of (to_reopen obs))) (\<lambda>again.
          if again \<noteq> ut_root_identity c then
            Inl (FullScanRequired
              ''the data directory was replaced during partial reconciliation'')
          else commit_replacements c staged limits)))))"

end
