(* ===== verification/DiskScanProps.thy ===== *)
theory DiskScanProps
  imports UsageTree
begin

text \<open>
  What the two scanners compute: the caching scanner builds exactly the nodes of the traversed
  tree, and the streaming scanner, given the same answers of the kernel and the same limits,
  arrives at the same sums.
\<close>

section \<open>What a traversal adds up to\<close>

definition stat_usage :: "file_stat \<Rightarrow> directory_usage" where
  "stat_usage st = DirectoryUsage 0 (nat (st_blocks st) * BYTES_PER_BLOCK) 0"

fun enters :: "dir_entry \<Rightarrow> bool" where
  "enters (EntryError err) = False"
| "enters (Entry name stat opening opened contents) =
     (\<not> dot_name name \<and> opening = None
      \<and> (case stat of Inl _ \<Rightarrow> False | Inr st \<Rightarrow> st_kind st = Directory))"

fun entry_own :: "dir_entry \<Rightarrow> directory_usage" where
  "entry_own (EntryError err) = 0"
| "entry_own (Entry name stat opening opened contents) =
     (if dot_name name then 0
      else DirectoryUsage 0 0 1 + (case stat of
          Inl _ \<Rightarrow> 0
        | Inr st \<Rightarrow> (case st_kind st of
              Directory \<Rightarrow> if opening = None then 0 else stat_usage st
            | RegularFile \<Rightarrow> stat_usage st + DirectoryUsage (nat (st_size st)) 0 0
            | OtherFile \<Rightarrow> stat_usage st)))"

fun entry_name :: "dir_entry \<Rightarrow> string" where
  "entry_name (EntryError err) = []"
| "entry_name (Entry name stat opening opened contents) = name"

definition child_names :: "dir_entry list \<Rightarrow> string list" where
  "child_names es = map entry_name (filter enters es)"

definition own_usage :: "file_stat \<Rightarrow> dir_entry list \<Rightarrow> directory_usage" where
  "own_usage st es = stat_usage st + sum_list (map entry_own es)"

fun inner_usage :: "dir_contents \<Rightarrow> directory_usage"
and entries_usage :: "dir_entry list \<Rightarrow> directory_usage"
and entry_usage :: "dir_entry \<Rightarrow> directory_usage" where
  "inner_usage (Unlistable e) = 0"
| "inner_usage (Listing es) = sum_list (map entry_own es) + entries_usage es"
| "entries_usage [] = 0"
| "entries_usage (e # es) = entry_usage e + entries_usage es"
| "entry_usage (EntryError err) = 0"
| "entry_usage (Entry name stat opening opened contents) =
     (if enters (Entry name stat opening opened contents)
      then stat_usage (projr stat) + inner_usage contents else 0)"

definition tree_usage :: "file_stat \<Rightarrow> dir_contents \<Rightarrow> directory_usage" where
  "tree_usage st c = stat_usage st + inner_usage c"

fun dir_nodes :: "dir_contents \<Rightarrow> file_stat \<Rightarrow> path \<Rightarrow> nodes"
and entries_nodes :: "dir_entry list \<Rightarrow> path \<Rightarrow> nodes"
and entry_nodes :: "dir_entry \<Rightarrow> path \<Rightarrow> nodes" where
  "dir_nodes (Unlistable e) st p =
     [(p, \<lparr>cd_base = stat_usage st, cd_total = stat_usage st, cd_children = []\<rparr>)]"
| "dir_nodes (Listing es) st p = entries_nodes es p
     @ [(p, \<lparr>cd_base = own_usage st es, cd_total = tree_usage st (Listing es),
          cd_children = fold insort_insert (child_names es) []\<rparr>)]"
| "entries_nodes [] p = []"
| "entries_nodes (e # es) p = entry_nodes e p @ entries_nodes es p"
| "entry_nodes (EntryError err) p = []"
| "entry_nodes (Entry name stat opening opened contents) p =
     (if enters (Entry name stat opening opened contents)
      then dir_nodes contents (projr stat) (p @ [name]) else [])"

section \<open>Checked arithmetic\<close>

lemma allocated_bytes_Inr:
  "allocated_bytes (st_blocks st) = Inr a \<Longrightarrow>
     DirectoryUsage 0 a 0 = stat_usage st \<and> a \<le> u64_max"
  by (auto simp: allocated_bytes_def stat_number_u64_def checked_mul_def stat_usage_def
      split: if_splits)

lemma add_logical_Inr:
  "add_logical u n = Inr v \<longleftrightarrow> v = u + DirectoryUsage n 0 0 \<and> logical_bytes u + n \<le> u64_max"
  by (auto simp: add_logical_def bind_result_Inr checked_add_Some usage_eq_iff)

lemma add_physical_Inr:
  "add_physical u n = Inr v \<longleftrightarrow> v = u + DirectoryUsage 0 n 0 \<and> physical_bytes u + n \<le> u64_max"
  by (auto simp: add_physical_def bind_result_Inr checked_add_Some usage_eq_iff)

lemma add_entries_Inr:
  "add_entries u n = Inr v \<longleftrightarrow> v = u + DirectoryUsage 0 0 n \<and> usage_entries u + n \<le> u64_max"
  by (auto simp: add_entries_def bind_result_Inr checked_add_Some usage_eq_iff)

lemma usage_split: "u + v = u + DirectoryUsage (logical_bytes v) 0 0
    + DirectoryUsage 0 (physical_bytes v) 0 + DirectoryUsage 0 0 (usage_entries v)"
  by (simp add: usage_eq_iff)

lemma add_usage_Inr: "add_usage u v = Inr w \<longleftrightarrow> w = u + v \<and> usage_fits (u + v)"
  unfolding usage_split [of u v]
  by (auto simp: add_usage_def bind_result_Inr add_logical_Inr add_physical_Inr add_entries_Inr
      usage_fits_def)

lemma budget_check_Inr:
  "budget_check b = Inr b' \<longleftrightarrow> sb_time b \<noteq> 0 \<and> b' = b\<lparr>sb_time := sb_time b - 1\<rparr>"
  by (auto simp: budget_check_def)

lemma visit_entry_Inr:
  "visit_entry b = Inr b' \<longleftrightarrow> b' = b\<lparr>sb_entries := sb_entries b + 1\<rparr>
     \<and> sb_entries b + 1 \<le> u64_max \<and> sb_entries b + 1 \<le> sl_max_entries (sb_limits b)"
  by (auto simp: visit_entry_def bind_result_Inr checked_add_Some)

lemmas scan_Inr = bind_result_Inr add_logical_Inr add_physical_Inr add_entries_Inr add_usage_Inr
  budget_check_Inr visit_entry_Inr

lemma insert_node_Inr:
  "insert_node p mx f = Inr (u, b, N) \<longleftrightarrow>
     u = fr_base f + fr_descendants f \<and> usage_fits u \<and> hm_get (fr_nodes f) p = None
     \<and> b = fr_budget f \<and> N = fr_nodes f @ [(p, \<lparr>cd_base = fr_base f, cd_total = u,
         cd_children = fr_children f\<rparr>)] \<and> length N \<le> mx"
  by (auto simp: insert_node_def scan_Inr Let_def hm_insert_new)

section \<open>The caching scanner\<close>

text \<open>How a part of a traversal changes the local variables of the loop.\<close>

definition frame_step :: "dir_entry list \<Rightarrow> path \<Rightarrow> frame \<Rightarrow> frame \<Rightarrow> bool" where
  "frame_step es p f f' \<longleftrightarrow>
     fr_base f' = fr_base f + sum_list (map entry_own es)
     \<and> fr_descendants f' = fr_descendants f + entries_usage es
     \<and> fr_children f' = fold insort_insert (child_names es) (fr_children f)
     \<and> fr_nodes f' = fr_nodes f @ entries_nodes es p
     \<and> sb_limits (fr_budget f') = sb_limits (fr_budget f)
     \<and> (hm_wf (fr_nodes f) \<longrightarrow> hm_wf (fr_nodes f'))"

lemma frame_step_Nil: "frame_step [] p f f"
  by (simp add: frame_step_def child_names_def)

lemma frame_step_Cons:
  "frame_step [e] p f f' \<Longrightarrow> frame_step es p f' f'' \<Longrightarrow> frame_step (e # es) p f f''"
  by (auto simp: frame_step_def child_names_def add.assoc)

lemma scan_tree_entries_step:
  assumes "\<And>e f f'. e \<in> set es \<Longrightarrow> scan_tree_entry e p d mx f = Inr f' \<Longrightarrow> frame_step [e] p f f'"
    and "scan_tree_entries es p d mx f = Inr f'"
  shows "frame_step es p f f'"
  using assms
proof (induction es arbitrary: f)
  case (Cons e es)
  from Cons.prems(2) obtain f1 where f1:
    "scan_tree_entry e p d mx (f\<lparr>fr_budget := (fr_budget f)\<lparr>sb_time := sb_time (fr_budget f) - 1\<rparr>\<rparr>)
      = Inr f1" "scan_tree_entries es p d mx f1 = Inr f'"
    by (auto simp: scan_Inr)
  have "frame_step [e] p (f\<lparr>fr_budget := (fr_budget f)\<lparr>sb_time := sb_time (fr_budget f) - 1\<rparr>\<rparr>) f1"
    using Cons.prems(1) [OF _ f1(1)] by simp
  then have "frame_step [e] p f f1" by (auto simp: frame_step_def)
  moreover have "frame_step es p f1 f'" using Cons.IH [OF _ f1(2)] Cons.prems(1) by simp
  ultimately show ?case by (rule frame_step_Cons)
qed (simp add: frame_step_Nil)

definition dir_step ::
  "dir_contents \<Rightarrow> file_stat \<Rightarrow> path \<Rightarrow> scan_budget \<Rightarrow> nodes \<Rightarrow> directory_usage \<Rightarrow> scan_budget \<Rightarrow>
    nodes \<Rightarrow> bool" where
  "dir_step c st p b N u b' N' \<longleftrightarrow>
     u = tree_usage st c \<and> N' = N @ dir_nodes c st p \<and> usage_fits u
     \<and> sb_limits b' = sb_limits b \<and> (hm_wf N \<longrightarrow> hm_wf N')"

lemma scan_tree_listing_step:
  assumes "\<And>e p d mx f f'. e \<in> set es \<Longrightarrow> scan_tree_entry e p d mx f = Inr f' \<Longrightarrow>
      frame_step [e] p f f'"
    and "scan_directory_tree (Listing es) st p d b N mx = Inr (u, b', N')"
  shows "dir_step (Listing es) st p b N u b' N' \<and> length N' \<le> mx"
proof -
  from assms(2) obtain a b1 f f' where f:
    "b1 = b\<lparr>sb_time := sb_time b - 1\<rparr>" "allocated_bytes (st_blocks st) = Inr a"
    "f = \<lparr>fr_base = DirectoryUsage 0 a 0, fr_descendants = 0, fr_children = [],
        fr_budget = b1, fr_nodes = N\<rparr>"
    "scan_tree_entries es p d mx f = Inr f'" "insert_node p mx f' = Inr (u, b', N')"
    by (auto simp: scan_Inr)
  have "frame_step es p f f'" by (rule scan_tree_entries_step [OF assms(1) f(4)])
  then show ?thesis
    using f(1,3,5) allocated_bytes_Inr [OF f(2)] hm_wf_snoc [of "fr_nodes f'" p]
    by (auto simp: frame_step_def insert_node_Inr dir_step_def tree_usage_def own_usage_def
        add.assoc)
qed

lemma usage_literal_plus: "DirectoryUsage a b c + DirectoryUsage a' b' c'
    = DirectoryUsage (a + a') (b + b') (c + c')"
  by (simp add: usage_eq_iff)

lemma scan_tree_entry_step:
  assumes "\<And>st p d b N mx u b' N'. scan_directory_tree contents st p d b N mx = Inr (u, b', N') \<Longrightarrow>
      dir_step contents st p b N u b' N'"
    and "scan_tree_entry (Entry name stat opening opened contents) p d mx f = Inr f'"
  shows "frame_step [Entry name stat opening opened contents] p f f'"
proof (cases "dot_name name")
  case True
  then show ?thesis using assms(2) by (auto simp: frame_step_def child_names_def)
next
  case False
  show ?thesis
  proof (cases stat)
    case (Inl err)
    then show ?thesis using assms(2) False
      by (auto simp: frame_step_def child_names_def scan_Inr split: if_splits)
  next
    case (Inr st)
    note [dest!] = allocated_bytes_Inr assms(1)
    show ?thesis
    proof (cases "st_kind st")
      case Directory
      then show ?thesis using assms(2) False Inr
        by (cases "opening") (auto simp: frame_step_def child_names_def scan_Inr dir_step_def
            tree_usage_def add.assoc split: if_splits)
    next
      case RegularFile
      then show ?thesis using assms(2) False Inr
        by (auto simp: frame_step_def child_names_def scan_Inr stat_number_u64_def add.assoc
            split: if_splits)
    next
      case OtherFile
      then show ?thesis using assms(2) False Inr
        by (auto simp: frame_step_def child_names_def scan_Inr add.assoc split: if_splits)
    qed
  qed
qed

lemma scan_directory_tree_steps:
  shows "scan_directory_tree c st p d b N mx = Inr (u, b', N') \<Longrightarrow>
      dir_step c st p b N u b' N' \<and> length N' \<le> mx"
    and "scan_tree_entry e p d mx f = Inr f' \<Longrightarrow> frame_step [e] p f f'"
proof (induction c and e arbitrary: st p d b N mx u b' N' and p d mx f f')
  case (Listing es)
  show ?case by (rule scan_tree_listing_step [OF Listing.IH Listing.prems])
next
  case (Entry name stat oping opened contents)
  show ?case by (rule scan_tree_entry_step [OF _ Entry.prems]) (simp add: Entry.IH)
qed (auto simp: scan_Inr frame_step_def child_names_def split: if_splits)

section \<open>The streaming scanner follows the caching scanner\<close>

lemma ensure_budget_Inr:
  "ensure_budget s = Inr s' \<longleftrightarrow> ds_time s \<noteq> 0 \<and> s' = s\<lparr>ds_time := ds_time s - 1\<rparr>"
  by (auto simp: ensure_budget_def)

lemma count_entry_Inr:
  "count_entry s = Inr s' \<longleftrightarrow> s' = s\<lparr>ds_usage := ds_usage s + DirectoryUsage 0 0 1\<rparr>
     \<and> usage_entries (ds_usage s) + 1 \<le> u64_max
     \<and> usage_entries (ds_usage s) + 1 \<le> sl_max_entries (ds_limits s)"
  by (auto simp: count_entry_def bind_result_Inr checked_add_Some plus_directory_usage_def)

lemma add_allocated_blocks_Inr:
  assumes "allocated_bytes (st_blocks st) = Inr a" "usage_fits (ds_usage s + stat_usage st)"
  shows "add_allocated_blocks (st_blocks st) s = Inr (s\<lparr>ds_usage := ds_usage s + stat_usage st\<rparr>)"
  using assms
  by (auto simp: allocated_bytes_def add_allocated_blocks_def stat_number_u64_def checked_mul_def
      stat_usage_def plus_directory_usage_def checked_add_def usage_fits_def split: if_splits)

lemma add_logical_size_Inr:
  assumes "stat_number_u64 sz NegativeSize = Inr n" "usage_fits (ds_usage s + DirectoryUsage n 0 0)"
  shows "add_logical_size sz s = Inr (s\<lparr>ds_usage := ds_usage s + DirectoryUsage n 0 0\<rparr>)"
  using assms
  by (auto simp: add_logical_size_def plus_directory_usage_def checked_add_def usage_fits_def)

definition in_step :: "directory_scanner \<Rightarrow> scan_budget \<Rightarrow> bool" where
  "in_step s b \<longleftrightarrow> ds_time s = sb_time b \<and> ds_limits s = sb_limits b
     \<and> usage_entries (ds_usage s) = sb_entries b"

text \<open>The streaming scanner adds \<open>w\<close> and ends with the budget of the caching scanner.\<close>

definition follows ::
  "directory_scanner \<Rightarrow> scan_budget \<Rightarrow> scan_error + directory_scanner \<Rightarrow> directory_usage \<Rightarrow> bool"
  where
  "follows s b r w \<longleftrightarrow> (usage_fits (ds_usage s + w) \<longrightarrow>
     (\<exists>s'. r = Inr s' \<and> ds_usage s' = ds_usage s + w \<and> in_step s' b))"

lemma scan_open_entries_follow:
  assumes "\<And>e f f' s. e \<in> set es \<Longrightarrow> scan_tree_entry e p d mx f = Inr f' \<Longrightarrow>
      in_step s (fr_budget f) \<Longrightarrow>
      follows s (fr_budget f') (scan_open_entry e d s) (entry_own e + entry_usage e)"
    and "scan_tree_entries es p d mx f = Inr f'" "in_step s (fr_budget f)"
  shows "follows s (fr_budget f') (scan_open_entries es d s)
      (sum_list (map entry_own es) + entries_usage es)"
  using assms
proof (induction es arbitrary: f s)
  case Nil
  then show ?case by (simp add: follows_def)
next
  case (Cons e es)
  define f0 where "f0 = f\<lparr>fr_budget := (fr_budget f)\<lparr>sb_time := sb_time (fr_budget f) - 1\<rparr>\<rparr>"
  define s0 where "s0 = s\<lparr>ds_time := ds_time s - 1\<rparr>"
  from Cons.prems(2) obtain f1 where f1:
    "scan_tree_entry e p d mx f0 = Inr f1" "scan_tree_entries es p d mx f1 = Inr f'"
    and time: "sb_time (fr_budget f) \<noteq> 0"
    by (auto simp: scan_Inr f0_def)
  have budget: "ensure_budget s = Inr s0"
    using time Cons.prems(3) by (simp add: ensure_budget_Inr in_step_def s0_def)
  have s0: "in_step s0 (fr_budget f0)" using Cons.prems(3) by (simp add: in_step_def f0_def s0_def)
  let ?w1 = "entry_own e + entry_usage e"
  let ?w = "sum_list (map entry_own es) + entries_usage es"
  have sum: "sum_list (map entry_own (e # es)) + entries_usage (e # es) = ?w1 + ?w"
    by (simp add: ac_simps)
  show ?case
    unfolding follows_def sum
  proof
    assume fit: "usage_fits (ds_usage s + (?w1 + ?w))"
    then have "usage_fits (ds_usage s0 + ?w1)"
      using usage_fits_plusD(1) [of "ds_usage s + ?w1" ?w] by (simp add: s0_def add.assoc)
    then obtain s1 where s1: "scan_open_entry e d s0 = Inr s1"
      "ds_usage s1 = ds_usage s + ?w1" "in_step s1 (fr_budget f1)"
      using Cons.prems(1) [OF _ f1(1) s0] by (auto simp: follows_def s0_def)
    have "follows s1 (fr_budget f') (scan_open_entries es d s1) ?w"
      using Cons.IH [OF _ f1(2) s1(3)] Cons.prems(1) by simp
    then show "\<exists>s'. scan_open_entries (e # es) d s = Inr s' \<and>
        ds_usage s' = ds_usage s + (?w1 + ?w) \<and> in_step s' (fr_budget f')"
      using fit budget s1 by (simp add: follows_def add.assoc)
  qed
qed

lemma scan_open_listing_follows:
  assumes "\<And>e p d mx f f' s. e \<in> set es \<Longrightarrow> scan_tree_entry e p d mx f = Inr f' \<Longrightarrow>
      in_step s (fr_budget f) \<Longrightarrow>
      follows s (fr_budget f') (scan_open_entry e d s) (entry_own e + entry_usage e)"
    and "scan_directory_tree (Listing es) st p d b N mx = Inr (u, b', N')" "in_step s b"
  shows "follows s b' (scan_open_directory (Listing es) d s) (inner_usage (Listing es))"
proof -
  define s0 where "s0 = s\<lparr>ds_time := ds_time s - 1\<rparr>"
  from assms(2) obtain a f f' where f: "sb_time b \<noteq> 0"
    "f = \<lparr>fr_base = DirectoryUsage 0 a 0, fr_descendants = 0, fr_children = [],
        fr_budget = b\<lparr>sb_time := sb_time b - 1\<rparr>, fr_nodes = N\<rparr>"
    "scan_tree_entries es p d mx f = Inr f'" "insert_node p mx f' = Inr (u, b', N')"
    by (auto simp: scan_Inr)
  have s0: "in_step s0 (fr_budget f)" using assms(3) f(2) by (simp add: in_step_def s0_def)
  have "follows s0 (fr_budget f') (scan_open_entries es d s0)
      (sum_list (map entry_own es) + entries_usage es)"
    by (rule scan_open_entries_follow [OF assms(1) f(3) s0])
  moreover have "ensure_budget s = Inr s0"
    using f(1) assms(3) by (simp add: ensure_budget_Inr in_step_def s0_def)
  ultimately show ?thesis using f(4) by (simp add: follows_def insert_node_Inr s0_def)
qed

lemma follows_count:
  assumes "visit_entry b = Inr b1" "in_step s b"
    and "\<And>s1. count_entry s = Inr s1 \<Longrightarrow> ds_usage s1 = ds_usage s + DirectoryUsage 0 0 1 \<Longrightarrow>
      in_step s1 b1 \<Longrightarrow> follows s1 b' (g s1) w"
  shows "follows s b' (bind_result (count_entry s) g) (DirectoryUsage 0 0 1 + w)"
proof -
  define s1 where "s1 = s\<lparr>ds_usage := ds_usage s + DirectoryUsage 0 0 1\<rparr>"
  have s1: "count_entry s = Inr s1" "in_step s1 b1"
    using assms(1,2) by (auto simp: count_entry_Inr visit_entry_Inr in_step_def s1_def)
  have u: "ds_usage s1 = ds_usage s + DirectoryUsage 0 0 1" by (simp add: s1_def)
  show ?thesis using assms(3) [OF s1(1) u s1(2)] s1(1) u by (simp add: follows_def add.assoc)
qed

lemma follows_blocks:
  assumes "allocated_bytes (st_blocks st) = Inr a" "in_step s b"
    and "\<And>s1. ds_limits s1 = ds_limits s \<Longrightarrow> ds_usage s1 = ds_usage s + stat_usage st \<Longrightarrow>
      in_step s1 b \<Longrightarrow> follows s1 b' (g s1) w"
  shows "follows s b' (bind_result (add_allocated_blocks (st_blocks st) s) g) (stat_usage st + w)"
  unfolding follows_def
proof
  define s1 where "s1 = s\<lparr>ds_usage := ds_usage s + stat_usage st\<rparr>"
  assume fit: "usage_fits (ds_usage s + (stat_usage st + w))"
  then have "usage_fits (ds_usage s + stat_usage st)"
    using usage_fits_plusD(1) [of "ds_usage s + stat_usage st" w] by (simp add: add.assoc)
  then have add: "add_allocated_blocks (st_blocks st) s = Inr s1"
    using add_allocated_blocks_Inr [OF assms(1)] by (simp add: s1_def)
  have "in_step s1 b" using assms(2) by (simp add: in_step_def s1_def stat_usage_def)
  then have "follows s1 b' (g s1) w" using assms(3) [of s1] by (simp add: s1_def)
  then show "\<exists>s'. bind_result (add_allocated_blocks (st_blocks st) s) g = Inr s' \<and>
      ds_usage s' = ds_usage s + (stat_usage st + w) \<and> in_step s' b'"
    using fit add by (simp add: follows_def s1_def add.assoc)
qed

lemma follows_same: "in_step s b \<Longrightarrow> follows s b (Inr s) 0"
  by (simp add: follows_def)

lemmas follows_count_only = follows_count [where w = 0, simplified add_0_right]
lemmas follows_blocks_only = follows_blocks [where w = 0, simplified add_0_right]

lemma follows_size:
  assumes "stat_number_u64 sz NegativeSize = Inr n" "in_step s b"
  shows "follows s b (add_logical_size sz s) (DirectoryUsage n 0 0)"
  using add_logical_size_Inr [OF assms(1)] assms(2) by (auto simp: follows_def in_step_def)

lemma scan_open_entry_follows:
  assumes "\<And>st p d b N mx u b' N' s.
      scan_directory_tree contents st p d b N mx = Inr (u, b', N') \<Longrightarrow> in_step s b \<Longrightarrow>
      follows s b' (scan_open_directory contents d s) (inner_usage contents)"
    and "scan_tree_entry (Entry name stat opening opened contents) p d mx f = Inr f'"
    and "in_step s (fr_budget f)"
  shows "follows s (fr_budget f') (scan_open_entry (Entry name stat opening opened contents) d s)
      (entry_own (Entry name stat opening opened contents)
        + entry_usage (Entry name stat opening opened contents))"
proof (cases "dot_name name")
  case True
  then show ?thesis using assms(2,3) by (simp add: follows_def)
next
  case False
  then obtain b1 where b1: "visit_entry (fr_budget f) = Inr b1"
    using assms(2) by (auto simp: bind_result_Inr)
  show ?thesis
  proof (cases stat)
    case (Inl err)
    have "fr_budget f' = b1" "transient_entry_error err"
      using assms(2) False Inl b1 by (auto simp: bind_result_Inr split: if_splits)
    then show ?thesis
      using False Inl
      by (auto simp del: One_nat_def intro!: follows_count_only [OF b1 assms(3)] follows_same)
  next
    case (Inr st)
    then obtain a where a: "allocated_bytes (st_blocks st) = Inr a"
      using assms(2) False b1 by (auto simp: bind_result_Inr)
    note step = follows_count [OF b1 assms(3)] follows_blocks [OF a]
    show ?thesis
    proof (cases "st_kind st")
      case Directory
      show ?thesis
      proof (cases "opening")
        case None
        then obtain u N' where sub: "scan_directory_tree contents st (p @ [name]) (d + 1) b1
            (fr_nodes f) mx = Inr (u, fr_budget f', N')" and depth: "d < sl_max_depth (sb_limits b1)"
          using assms(2) False Inr a b1 Directory by (auto simp: bind_result_Inr split: if_splits)
        show ?thesis
          using False Inr a Directory None depth assms(1) [OF sub]
          by (auto simp: add.assoc in_step_def simp del: One_nat_def intro!: step)
      next
        case (Some err)
        then have "fr_budget f' = b1" "transient_entry_error err" "d < sl_max_depth (sb_limits b1)"
          using assms(2) False Inr a b1 Directory by (auto simp: bind_result_Inr split: if_splits)
        then show ?thesis
          using False Inr a Directory Some
          by (auto simp: add.assoc in_step_def simp del: One_nat_def
              intro!: step(1) follows_blocks_only [OF a] follows_same)
      qed
    next
      case RegularFile
      then obtain n where n: "stat_number_u64 (st_size st) NegativeSize = Inr n"
        and b: "fr_budget f' = b1"
        using assms(2) False Inr a b1 by (auto simp: bind_result_Inr)
      then show ?thesis
        using False Inr a RegularFile follows_size [OF n]
        by (auto simp: add.assoc stat_number_u64_def simp del: One_nat_def split: if_splits
            intro!: step)
    next
      case OtherFile
      then have "fr_budget f' = b1"
        using assms(2) False Inr a b1 by (auto simp: bind_result_Inr)
      then show ?thesis
        using False Inr a OtherFile
        by (auto simp del: One_nat_def intro!: step(1) follows_blocks_only [OF a] follows_same)
    qed
  qed
qed

lemma scan_open_follows:
  shows "scan_directory_tree c st p d b N mx = Inr (u, b', N') \<Longrightarrow> in_step s b \<Longrightarrow>
      follows s b' (scan_open_directory c d s) (inner_usage c)"
    and "scan_tree_entry e p d mx f = Inr f' \<Longrightarrow> in_step s (fr_budget f) \<Longrightarrow>
      follows s (fr_budget f') (scan_open_entry e d s) (entry_own e + entry_usage e)"
proof (induction c and e arbitrary: st p d b N mx u b' N' s and p d mx f f' s)
  case (Listing es)
  show ?case by (rule scan_open_listing_follows [OF Listing.IH Listing.prems])
next
  case (Entry name stat oping opened contents)
  show ?case by (rule scan_open_entry_follows [OF Entry.IH Entry.prems])
qed (auto simp: scan_Inr follows_def split: if_splits)

section \<open>Both scanners measure the same\<close>

lemma scan_full_bounded_Cached:
  assumes "scan_full_bounded root gen limits mx = Inr (Cached c)"
  obtains st b u where "ro_open root = Inr st" "mx \<noteq> 0"
    "scan_directory_tree (ro_contents root) st [] 0 (budget_new limits) [] mx
      = Inr (u, b, ut_nodes c)"
    "directory_identity (ro_reopen root) = Inr (identity_from_stat st)"
    "ut_root_identity c = identity_from_stat st" "ut_target_generation c = gen"
    "ut_max_cached_directories c = mx"
  using assms
  by (auto simp: scan_full_bounded_def open_root_def os_result_def root_identity_of_def
      directory_identity_def bind_result_Inr split: if_splits sum.splits)

lemma scan_tree_root_total:
  assumes "scan_directory_tree c st p d b [] mx = Inr (u, b', N)"
  shows "\<exists>node. hm_get N p = Some node \<and> cd_total node = u"
proof (cases c)
  case (Listing es)
  then obtain f where "insert_node p mx f = Inr (u, b', N)"
    using assms by (auto simp: bind_result_Inr)
  then show ?thesis by (auto simp: insert_node_Inr hm_get_append) (simp add: hm_get_def)
qed (use assms in \<open>auto simp: bind_result_Inr\<close>)

text \<open>C22: the streaming scan of a data directory returns exactly the usage and the identity that a
  caching scan of the same traversal puts into the cache, whatever errors, vanishing entries and
  limits the traversal meets on the way: the two implementations of the measurement agree
  whenever the caching one succeeds.\<close>

theorem streaming_matches_cached:
  assumes "scan_full_bounded root gen limits mx = Inr (Cached c)"
  shows "scan_directory_with_id root limits = Inr (ut_usage c, ut_root_identity c)"
proof -
  from assms obtain st b u where c: "ro_open root = Inr st"
    "scan_directory_tree (ro_contents root) st [] 0 (budget_new limits) [] mx
      = Inr (u, b, ut_nodes c)"
    "directory_identity (ro_reopen root) = Inr (identity_from_stat st)"
    "ut_root_identity c = identity_from_stat st"
    by (rule scan_full_bounded_Cached)
  have u: "u = tree_usage st (ro_contents root)" "usage_fits u"
    using scan_directory_tree_steps(1) [OF c(2)] by (auto simp: dir_step_def)
  obtain a where a: "allocated_bytes (st_blocks st) = Inr a"
    using c(2) by (cases "ro_contents root") (auto simp: bind_result_Inr)
  define s where "s = \<lparr>ds_time = sl_timeout limits, ds_limits = limits,
      ds_usage = DirectoryUsage 0 a 0\<rparr>"
  have "in_step s (budget_new limits)" by (simp add: in_step_def s_def budget_new_def)
  then have "follows s b (scan_open_directory (ro_contents root) 0 s)
      (inner_usage (ro_contents root))"
    by (rule scan_open_follows(1) [OF c(2)])
  moreover have "ds_usage s = stat_usage st" using allocated_bytes_Inr [OF a] by (simp add: s_def)
  ultimately obtain s' where "scan_open_directory (ro_contents root) 0 s = Inr s'" "ds_usage s' = u"
    using u by (auto simp: follows_def tree_usage_def)
  moreover have "ut_usage c = u"
    using scan_tree_root_total [OF c(2)] by (auto simp: ut_usage_def nodes_usage_def)
  ultimately show ?thesis
    using c a by (simp add: scan_directory_with_id_def os_result_def s_def)
qed

text \<open>A data directory with a file, a vanished entry and a subdirectory that holds a file.\<close>

definition example_stat :: "file_type \<Rightarrow> nat \<Rightarrow> int \<Rightarrow> int \<Rightarrow> file_stat" where
  "example_stat kind ino blocks sz =
     \<lparr>st_dev = 1, st_ino = ino, st_kind = kind, st_blocks = blocks, st_size = sz\<rparr>"

definition example_file :: "string \<Rightarrow> nat \<Rightarrow> int \<Rightarrow> int \<Rightarrow> dir_entry" where
  "example_file name ino blocks sz =
     Entry name (Inr (example_stat RegularFile ino blocks sz)) None (Inl NOENT) (Listing [])"

definition example_subdir :: "string \<Rightarrow> nat \<Rightarrow> dir_entry list \<Rightarrow> dir_entry" where
  "example_subdir name ino es =
     Entry name (Inr (example_stat Directory ino 8 4096)) None
       (Inr (example_stat Directory ino 8 4096)) (Listing es)"

definition example_root :: "dir_entry list \<Rightarrow> root_observation" where
  "example_root es = \<lparr>ro_open = Inr (example_stat Directory 2 8 4096), ro_contents = Listing es,
     ro_reopen = Inr (example_stat Directory 2 8 4096)\<rparr>"

definition example_limits :: scan_limits where
  "example_limits = \<lparr>sl_timeout = 100, sl_max_entries = 10, sl_max_depth = 4\<rparr>"

lemmas example_defs = example_stat_def example_file_def example_subdir_def example_root_def
  example_limits_def

lemmas scan_defs = scan_full_bounded_def open_root_def os_result_def budget_new_def
  budget_check_def allocated_bytes_def stat_number_u64_def checked_mul_def visit_entry_def
  checked_add_def dot_name_def add_entries_def add_physical_def add_logical_def add_usage_def
  insert_node_def hm_get_def hm_insert_def identity_from_stat_def transient_entry_error_def
  validate_complete_tree_def root_identity_of_def insort_insert_key_def

theorem streaming_matches_cached_witness:
  "\<exists>c. scan_full_bounded (example_root [example_file ''a'' 3 8 7,
        Entry ''gone'' (Inl NOENT) None (Inl NOENT) (Listing []),
        example_subdir ''d'' 4 [example_file ''b'' 5 16 11]]) ''g'' example_limits 8
      = Inr (Cached c)
    \<and> scan_directory_with_id (example_root [example_file ''a'' 3 8 7,
        Entry ''gone'' (Inl NOENT) None (Inl NOENT) (Listing []),
        example_subdir ''d'' 4 [example_file ''b'' 5 16 11]]) example_limits
      = Inr (ut_usage c, ut_root_identity c)
    \<and> ut_usage c = DirectoryUsage 18 20480 4"
proof -
  let ?root = "example_root [example_file ''a'' 3 8 7,
      Entry ''gone'' (Inl NOENT) None (Inl NOENT) (Listing []),
      example_subdir ''d'' 4 [example_file ''b'' 5 16 11]]"
  obtain c where c: "scan_full_bounded ?root ''g'' example_limits 8 = Inr (Cached c)"
    "ut_usage c = DirectoryUsage 18 20480 4"
    by (simp add: example_defs scan_defs ut_usage_def nodes_usage_def zero_directory_usage_def)
  show ?thesis using c streaming_matches_cached [OF c(1)] by blast
qed

end
