(* ===== verification/UsageCache.thy ===== *)
theory UsageCache
  imports UsageTree Engine
begin

text \<open>
  The usage caches of all targets of the soft disk limiter (\<open>server/disk/soft/cache.rs\<close> and the
  scan worker of \<open>server/disk/soft/scan.rs\<close>).  Every target has a slot with at most one cache; a
  counter shared by all slots bounds the directories that are cached altogether.  A slot that
  cannot get its share gives up its cache and scans streaming from then on.

  A worker holds a reference to its slot while it scans, so a slot outlives its removal from the
  table of targets; what it holds is released when the last reference goes.
\<close>

section \<open>The shared counter\<close>

text \<open>
  The reservation reads the counter and tries to exchange it; every failed exchange reports the
  value it found.  \<open>seen\<close> lists the values the attempts before the last one worked with: they may
  be outdated.  The last attempt works with the counter itself.
\<close>

fun reserve_cached_directories :: "nat list \<Rightarrow> nat \<Rightarrow> nat \<Rightarrow> nat \<Rightarrow> bool \<times> nat" where
  "reserve_cached_directories [] additional limit counter =
     (if additional = 0 then (True, counter)
      else (case checked_add counter additional of
          None \<Rightarrow> (False, counter)
        | Some updated \<Rightarrow> if limit < updated then (False, counter) else (True, updated)))"
| "reserve_cached_directories (current # seen) additional limit counter =
     (if additional = 0 then (True, counter)
      else (case checked_add current additional of
          None \<Rightarrow> (False, counter)
        | Some updated \<Rightarrow>
            if limit < updated then (False, counter)
            else reserve_cached_directories seen additional limit counter))"

definition release_cached_directories :: "nat \<Rightarrow> nat \<Rightarrow> nat" where
  "release_cached_directories released counter =
     (if released = 0 then counter else sat_sub counter released)"

section \<open>Slots\<close>

record usage_tree_slot_state =
  us_cache :: "usage_tree_cache option"
  us_cached_directory_count :: nat
  us_streaming_only :: bool

definition slot_new :: usage_tree_slot_state where
  "slot_new = \<lparr>us_cache = None, us_cached_directory_count = 0, us_streaming_only = False\<rparr>"

definition switch_to_streaming ::
  "usage_tree_slot_state \<Rightarrow> nat \<Rightarrow> usage_tree_slot_state \<times> nat" where
  "switch_to_streaming state counter =
     (state\<lparr>us_cached_directory_count := 0, us_cache := None, us_streaming_only := True\<rparr>,
      release_cached_directories (us_cached_directory_count state) counter)"

definition resize_directory_accounting ::
  "nat list \<Rightarrow> nat \<Rightarrow> usage_tree_slot_state \<Rightarrow> nat \<Rightarrow> nat \<Rightarrow>
    bool \<times> usage_tree_slot_state \<times> nat" where
  "resize_directory_accounting seen limit state new_count counter =
     (let old_count = us_cached_directory_count state;
          (reserved, counter1) =
            (if old_count < new_count
             then reserve_cached_directories seen (new_count - old_count) limit counter
             else (True, counter))
      in if \<not> reserved then (False, switch_to_streaming state counter1)
         else
           let counter2 = (if new_count < old_count
             then release_cached_directories (old_count - new_count) counter1 else counter1)
           in (True, state\<lparr>us_cached_directory_count := new_count\<rparr>, counter2))"

definition install_cache ::
  "nat list \<Rightarrow> nat \<Rightarrow> usage_tree_slot_state \<Rightarrow> usage_tree_cache \<Rightarrow> nat \<Rightarrow>
    bool \<times> usage_tree_slot_state \<times> nat" where
  "install_cache seen limit state cache counter =
     (if us_streaming_only state then (False, state, counter)
      else (case resize_directory_accounting seen limit state (directory_count cache) counter of
          (False, state, counter) \<Rightarrow> (False, state, counter)
        | (True, state, counter) \<Rightarrow> (True, state\<lparr>us_cache := Some cache\<rparr>, counter)))"

definition account_reconciled_cache ::
  "nat list \<Rightarrow> nat \<Rightarrow> usage_tree_slot_state \<Rightarrow> nat \<Rightarrow> bool \<times> usage_tree_slot_state \<times> nat" where
  "account_reconciled_cache seen limit state counter =
     (case us_cache state of
        None \<Rightarrow> (False, state, counter)
      | Some cache \<Rightarrow>
          resize_directory_accounting seen limit state (directory_count cache) counter)"

definition slot_drop :: "usage_tree_slot_state \<Rightarrow> nat \<Rightarrow> nat" where
  "slot_drop state counter = release_cached_directories (us_cached_directory_count state) counter"

section \<open>The scan of a slot\<close>

datatype performed_scan_kind = PerformedFull | PerformedPartial

datatype hybrid_scan_request = RequestStreamingFull | RequestFull | RequestPartial "string list"

type_synonym scan_measurement = "directory_usage \<times> performed_scan_kind \<times> root_identity"

text \<open>What the kernel answers to the full scan, to the streaming scan and to the partial scan.\<close>

record scan_observation =
  so_full :: root_observation
  so_streaming :: root_observation
  so_partial :: tree_observation

definition streaming_full_scan ::
  "root_observation \<Rightarrow> scan_limits \<Rightarrow> scan_error + scan_measurement" where
  "streaming_full_scan root limits =
     bind_result (scan_directory_with_id root limits)
       (\<lambda>(usage, identity). Inr (usage, PerformedFull, identity))"

record cached_scan =
  cs_generation :: string
  cs_limits :: scan_limits
  cs_per_target_cache_limit :: nat
  cs_global_directory_limit :: nat

definition cached_scan_full ::
  "cached_scan \<Rightarrow> scan_observation \<Rightarrow> nat list \<Rightarrow> usage_tree_slot_state \<Rightarrow> nat \<Rightarrow>
    (scan_error + scan_measurement) \<times> usage_tree_slot_state \<times> nat" where
  "cached_scan_full cs obs seen state counter =
     (case scan_full_bounded (so_full obs) (cs_generation cs) (cs_limits cs)
         (cs_per_target_cache_limit cs) of
        Inl e \<Rightarrow> (Inl e, state, counter)
      | Inr (Cached replacement) \<Rightarrow>
          (case install_cache seen (cs_global_directory_limit cs) state replacement counter of
             (True, state, counter) \<Rightarrow>
               (Inr (case us_cache state of None \<Rightarrow> 0 | Some c \<Rightarrow> ut_usage c, PerformedFull,
                  ut_root_identity replacement), state, counter)
           | (False, state, counter) \<Rightarrow>
               (streaming_full_scan (so_streaming obs) (cs_limits cs), state, counter))
      | Inr DirectoryLimitExceeded \<Rightarrow>
          (streaming_full_scan (so_streaming obs) (cs_limits cs),
           switch_to_streaming state counter))"

definition cached_scan_partial ::
  "cached_scan \<Rightarrow> scan_observation \<Rightarrow> nat list \<Rightarrow> string list \<Rightarrow> usage_tree_slot_state \<Rightarrow> nat \<Rightarrow>
    (scan_error + scan_measurement) \<times> usage_tree_slot_state \<times> nat" where
  "cached_scan_partial cs obs seen relative_directories state counter =
     (case us_cache state of
        None \<Rightarrow> cached_scan_full cs obs seen state counter
      | Some existing \<Rightarrow>
          (case reconcile existing (so_partial obs) (cs_generation cs) relative_directories
              (cs_limits cs) of
             Inr (usage, cache) \<Rightarrow>
               (Inr (usage, PerformedPartial, ut_root_identity cache),
                snd (account_reconciled_cache seen (cs_global_directory_limit cs)
                  (state\<lparr>us_cache := Some cache\<rparr>) counter))
           | Inl (Io e) \<Rightarrow> (Inl e, state, counter)
           | Inl (FullScanRequired _) \<Rightarrow> cached_scan_full cs obs seen state counter))"

definition scan_worker ::
  "cached_scan \<Rightarrow> scan_observation \<Rightarrow> nat list \<Rightarrow> hybrid_scan_request \<Rightarrow>
    usage_tree_slot_state \<Rightarrow> nat \<Rightarrow>
    (scan_error + scan_measurement) \<times> usage_tree_slot_state \<times> nat" where
  "scan_worker cs obs seen request state counter =
     (if us_streaming_only state
      then (streaming_full_scan (so_streaming obs) (cs_limits cs), state, counter)
      else (case request of
          RequestStreamingFull \<Rightarrow>
            (streaming_full_scan (so_streaming obs) (cs_limits cs), state, counter)
        | RequestFull \<Rightarrow> cached_scan_full cs obs seen state counter
        | RequestPartial relative_directories \<Rightarrow>
            cached_scan_partial cs obs seen relative_directories state counter))"

section \<open>The table of targets\<close>

record target_fingerprint =
  tf_created_at :: string
  tf_protocol :: protocol
  tf_data_path :: string
  tf_limit_bytes :: nat

text \<open>
  A slot is known by a number.  \<open>ul_trees\<close> maps an instance to the fingerprint and the slot of
  its target, \<open>ul_workers\<close> lists the slots of the scans in progress.
\<close>

record usage_limiter =
  ul_trees :: "(string \<times> target_fingerprint \<times> nat) list"
  ul_slots :: "(nat \<times> usage_tree_slot_state) list"
  ul_workers :: "nat list"
  ul_next_slot :: nat
  ul_cached_directories :: nat
  ul_global_directories :: nat
  ul_per_target_directories :: nat

definition limiter_new :: "nat \<Rightarrow> nat \<Rightarrow> usage_limiter" where
  "limiter_new global_directories per_target_directories = \<lparr>ul_trees = [], ul_slots = [],
     ul_workers = [], ul_next_slot = 0, ul_cached_directories = 0,
     ul_global_directories = global_directories,
     ul_per_target_directories = per_target_directories\<rparr>"

definition slot_referenced :: "usage_limiter \<Rightarrow> nat \<Rightarrow> bool" where
  "slot_referenced l slot = (slot \<in> set (ul_workers l) \<or> slot \<in> snd ` snd ` set (ul_trees l))"

text \<open>A reference to a slot went away: the slot is dropped when it was the last one.\<close>

definition release_slot :: "nat \<Rightarrow> usage_limiter \<Rightarrow> usage_limiter" where
  "release_slot slot l =
     (if slot_referenced l slot then l
      else (case hm_get (ul_slots l) slot of
          None \<Rightarrow> l
        | Some state \<Rightarrow> l\<lparr>ul_slots := hm_remove (ul_slots l) slot,
            ul_cached_directories := slot_drop state (ul_cached_directories l)\<rparr>))"

definition new_usage_tree_state ::
  "string \<Rightarrow> target_fingerprint \<Rightarrow> usage_limiter \<Rightarrow> usage_limiter" where
  "new_usage_tree_state instance_id fingerprint l =
     l\<lparr>ul_slots := hm_insert (ul_slots l) (ul_next_slot l) slot_new,
       ul_trees := hm_insert (ul_trees l) instance_id (fingerprint, ul_next_slot l),
       ul_next_slot := ul_next_slot l + 1\<rparr>"

definition usage_tree_slot ::
  "string \<Rightarrow> target_fingerprint \<Rightarrow> usage_limiter \<Rightarrow> nat \<times> usage_limiter" where
  "usage_tree_slot instance_id fingerprint l =
     (case hm_get (ul_trees l) instance_id of
        None \<Rightarrow> (ul_next_slot l, new_usage_tree_state instance_id fingerprint l)
      | Some (target, slot) \<Rightarrow>
          if target \<noteq> fingerprint
          then (ul_next_slot l, release_slot slot (new_usage_tree_state instance_id fingerprint l))
          else (slot, l))"

definition evict_usage_cache :: "string \<Rightarrow> usage_limiter \<Rightarrow> usage_limiter" where
  "evict_usage_cache instance_id l =
     (case hm_get (ul_trees l) instance_id of
        None \<Rightarrow> l
      | Some (_, slot) \<Rightarrow> release_slot slot (l\<lparr>ul_trees := hm_remove (ul_trees l) instance_id\<rparr>))"

definition start_scan ::
  "string \<Rightarrow> target_fingerprint \<Rightarrow> usage_limiter \<Rightarrow> nat \<times> usage_limiter" where
  "start_scan instance_id fingerprint l =
     (let (slot, l) = usage_tree_slot instance_id fingerprint l
      in (slot, l\<lparr>ul_workers := slot # ul_workers l\<rparr>))"

definition per_target_cache_limit :: "usage_limiter \<Rightarrow> scan_limits \<Rightarrow> nat" where
  "per_target_cache_limit l limits =
     min (ul_per_target_directories l) (sat_add (sl_max_entries limits) 1)"

text \<open>The worker that holds a slot; a slot is alive as long as it is held.\<close>

definition run_scan ::
  "nat \<Rightarrow> string \<Rightarrow> scan_limits \<Rightarrow> scan_observation \<Rightarrow> nat list \<Rightarrow> hybrid_scan_request \<Rightarrow>
    usage_limiter \<Rightarrow> (scan_error + scan_measurement) \<times> usage_limiter" where
  "run_scan slot generation limits obs seen request l =
     (case hm_get (ul_slots l) slot of
        None \<Rightarrow> (streaming_full_scan (so_streaming obs) limits, l)
      | Some state \<Rightarrow>
          let (measured, state, counter) = scan_worker \<lparr>cs_generation = generation, cs_limits = limits,
                cs_per_target_cache_limit = per_target_cache_limit l limits,
                cs_global_directory_limit = ul_global_directories l\<rparr>
              obs seen request state (ul_cached_directories l)
          in (measured,
              l\<lparr>ul_slots := hm_insert (ul_slots l) slot state, ul_cached_directories := counter\<rparr>))"

definition finish_scan :: "nat \<Rightarrow> usage_limiter \<Rightarrow> usage_limiter" where
  "finish_scan slot l = release_slot slot (l\<lparr>ul_workers := remove1 slot (ul_workers l)\<rparr>)"

text \<open>The steps of the limiter; a worker may run at any time while it holds its slot.\<close>

inductive limiter_step :: "usage_limiter \<Rightarrow> usage_limiter \<Rightarrow> bool" where
  step_start: "limiter_step l (snd (start_scan instance_id fingerprint l))"
| step_run: "slot \<in> set (ul_workers l) \<Longrightarrow>
    limiter_step l (snd (run_scan slot generation limits obs seen request l))"
| step_finish: "slot \<in> set (ul_workers l) \<Longrightarrow> limiter_step l (finish_scan slot l)"
| step_evict: "limiter_step l (evict_usage_cache instance_id l)"

inductive_cases limiter_stepE: "limiter_step l l'"

definition limiter_init :: "usage_limiter \<Rightarrow> bool" where
  "limiter_init l \<longleftrightarrow> (\<exists>g p. l = limiter_new g p)"

end
