(* ===== verification/SoftLimiter.thy ===== *)
theory SoftLimiter
  imports Complex_Main "HOL-Library.Sublist" Bytes UsageCache
begin

text \<open>
  The decisions of the soft disk limiter (\<open>server/disk/soft/thresholds.rs\<close>, \<open>growth.rs\<close>,
  \<open>enforcement.rs\<close> and the enforcing half of \<open>scan.rs\<close>): when a measured usage stops an instance,
  when a stopped instance has recovered, and what happens when the usage cannot be measured.

  A floating-point number is a real number; every operation rounds its exact result by \<open>fp_round\<close>
  and the power function is \<open>fp_powf\<close>, both arguments of the model.  No value overflows: a usage
  is at most \<open>u64_max\<close> and an elapsed time at least the machine epsilon.  Instants and durations are
  numbers of nanoseconds.
\<close>

section \<open>Configuration and targets\<close>

record soft_disk_scanner_config =
  cf_scan_interval_seconds :: nat
  cf_use_inotify :: bool
  cf_full_scan_interval_seconds :: nat
  cf_inotify_debounce_milliseconds :: nat
  cf_max_dirty_paths_per_instance :: nat
  cf_max_concurrent_scans :: nat
  cf_max_cached_directories_global :: nat
  cf_max_entries_per_scan :: nat
  cf_scan_timeout_seconds :: nat
  cf_max_consecutive_scan_failures :: nat
  cf_safety_reserve_mib :: nat
  cf_recovery_percent :: nat
  cf_shutdown_grace_seconds :: nat

record soft_disk_target =
  tg_instance_id :: string
  tg_created_at :: string
  tg_protocol :: protocol
  tg_data_path :: string
  tg_limit_bytes :: nat
  tg_durable_blocked :: bool

definition target_fingerprint_of :: "soft_disk_target \<Rightarrow> target_fingerprint" where
  "target_fingerprint_of t = \<lparr>tf_created_at = tg_created_at t, tf_protocol = tg_protocol t,
     tf_data_path = tg_data_path t, tf_limit_bytes = tg_limit_bytes t\<rparr>"

text \<open>
  \<open>sha2\<close> and \<open>hex\<close> are the argument \<open>hex_sha256\<close>.  Every component of the digest is preceded by
  its length, a \<open>usize\<close> in eight bytes.
\<close>

fun length_prefixed :: "byte list list \<Rightarrow> byte list" where
  "length_prefixed [] = []"
| "length_prefixed (c # cs) = le_bytes 8 (length c) @ c @ length_prefixed cs"

definition scanner_fingerprint :: "(byte list \<Rightarrow> string) \<Rightarrow> soft_disk_target \<Rightarrow> string" where
  "scanner_fingerprint hex_sha256 t = hex_sha256 (length_prefixed
     [ascii (tg_created_at t), ascii (as_str (tg_protocol t)),
      ascii (tg_data_path t), le_bytes 8 (tg_limit_bytes t)])"

record soft_disk_snapshot =
  sn_usage :: directory_usage
  sn_limit_bytes :: nat
  sn_stop_threshold_bytes :: nat
  sn_recovery_threshold_bytes :: nat
  sn_growth_bytes_per_second :: real
  sn_peak_growth_bytes_per_second :: real
  sn_predicted_seconds_to_limit :: "nat option"
  sn_blocked :: bool
  sn_sampled_at :: nat

record tracker_state =
  tk_target :: target_fingerprint
  tk_snapshot :: soft_disk_snapshot
  tk_warned :: bool

record target_scan_failures =
  fl_target :: target_fingerprint
  fl_consecutive :: nat

definition mmap_writes_bypass_inotify :: "protocol \<Rightarrow> bool" where
  "mmap_writes_bypass_inotify p = (p = Qdrant)"

definition mib_to_bytes :: "nat \<Rightarrow> nat" where
  "mib_to_bytes mib = sat_mul mib (1024 * 1024)"

section \<open>Floating-point numbers\<close>

record floats =
  fp_round :: "real \<Rightarrow> real"
  fp_powf :: "real \<Rightarrow> real \<Rightarrow> real"

definition f64_epsilon :: real where
  "f64_epsilon = 1 / 2 ^ 52"

definition fp_mul :: "floats \<Rightarrow> real \<Rightarrow> real \<Rightarrow> real" where
  "fp_mul fp x y = fp_round fp (x * y)"

definition fp_add :: "floats \<Rightarrow> real \<Rightarrow> real \<Rightarrow> real" where
  "fp_add fp x y = fp_round fp (x + y)"

definition fp_div :: "floats \<Rightarrow> real \<Rightarrow> real \<Rightarrow> real" where
  "fp_div fp x y = fp_round fp (x / y)"

definition u64_as_f64 :: "floats \<Rightarrow> nat \<Rightarrow> real" where
  "u64_as_f64 fp n = fp_round fp (real n)"

definition f64_as_u64 :: "real \<Rightarrow> nat" where
  "f64_as_u64 x = (if x \<le> 0 then 0 else if real u64_max \<le> x then u64_max else nat \<lfloor>x\<rfloor>)"

definition f64_clamp :: "real \<Rightarrow> real \<Rightarrow> real \<Rightarrow> real" where
  "f64_clamp x lower upper = (if x < lower then lower else if upper < x then upper else x)"

definition as_secs_f64 :: "floats \<Rightarrow> nat \<Rightarrow> real" where
  "as_secs_f64 fp nanos = fp_round fp (real nanos / 1000000000)"

section \<open>Growth\<close>

definition growth_rate ::
  "floats \<Rightarrow> tracker_state option \<Rightarrow> nat \<Rightarrow> nat \<Rightarrow> nat \<Rightarrow> real" where
  "growth_rate fp previous bytes now base_scan_interval =
     (case previous of
        None \<Rightarrow> 0
      | Some p \<Rightarrow>
          let elapsed = as_secs_f64 fp (now - sn_sampled_at (tk_snapshot p))
          in if elapsed \<le> f64_epsilon then sn_growth_bytes_per_second (tk_snapshot p)
             else
               let instantaneous = fp_div fp (u64_as_f64 fp
                     (sat_sub bytes (physical_bytes (sn_usage (tk_snapshot p))))) elapsed;
                   elapsed_intervals = fp_div fp elapsed
                     (max (as_secs_f64 fp base_scan_interval) f64_epsilon);
                   previous_weight = f64_clamp (fp_powf fp (6 / 10) elapsed_intervals) 0 1
               in max (fp_add fp
                     (fp_mul fp (sn_growth_bytes_per_second (tk_snapshot p)) previous_weight)
                     (fp_mul fp instantaneous (fp_add fp 1 (- previous_weight))))
                   (fp_mul fp instantaneous (75 / 100)))"

section \<open>Thresholds\<close>

definition full_scan_interval_secs :: "soft_disk_scanner_config \<Rightarrow> protocol \<Rightarrow> nat" where
  "full_scan_interval_secs config protocol =
     (if cf_use_inotify config \<and> \<not> mmap_writes_bypass_inotify protocol
      then max (cf_full_scan_interval_seconds config) (cf_scan_interval_seconds config)
      else cf_scan_interval_seconds config)"

definition safety_reserve_bytes ::
  "floats \<Rightarrow> soft_disk_scanner_config \<Rightarrow> protocol \<Rightarrow> nat \<Rightarrow> real \<Rightarrow> nat" where
  "safety_reserve_bytes fp config protocol limit_bytes growth =
     (let maximum = limit_bytes div 5;
          configured = min (mib_to_bytes (cf_safety_reserve_mib config)) maximum;
          exposure_seconds = sat_add (sat_add (sat_add (full_scan_interval_secs config protocol)
            (cf_scan_timeout_seconds config)) (cf_shutdown_grace_seconds config)) 1;
          predicted = f64_as_u64 (f64_clamp (fp_mul fp growth (u64_as_f64 fp exposure_seconds))
            0 (u64_as_f64 fp maximum))
      in min (max configured predicted) maximum)"

definition thresholds ::
  "floats \<Rightarrow> soft_disk_scanner_config \<Rightarrow> protocol \<Rightarrow> nat \<Rightarrow> real \<Rightarrow> nat \<times> nat" where
  "thresholds fp config protocol limit_bytes growth =
     (let reserve = safety_reserve_bytes fp config protocol limit_bytes growth;
          stop_threshold = sat_sub limit_bytes reserve;
          configured_recovery = sat_mul limit_bytes (min (cf_recovery_percent config) 99) div 100;
          hysteresis_margin = max (limit_bytes div 20) 1
      in (stop_threshold, min configured_recovery (sat_sub stop_threshold hysteresis_margin)))"

definition predict_seconds_to_limit :: "floats \<Rightarrow> nat \<Rightarrow> nat \<Rightarrow> real \<Rightarrow> nat option" where
  "predict_seconds_to_limit fp current limit growth =
     (if limit \<le> current then Some 0
      else if growth \<le> 0 then None
      else Some (f64_as_u64 (of_int \<lceil>fp_div fp (u64_as_f64 fp (limit - current)) growth\<rceil>)))"

section \<open>Recording a sample\<close>

record soft_disk_limiter =
  lm_usage :: usage_limiter
  lm_states :: "(string \<times> tracker_state) list"
  lm_scan_failures :: "(string \<times> target_scan_failures) list"
  lm_capacity_outage_failures :: nat

abbreviation DEFAULT_MAX_CACHED_DIRECTORIES_PER_TARGET :: nat where
  "DEFAULT_MAX_CACHED_DIRECTORIES_PER_TARGET \<equiv> 4096"

definition soft_limiter_new :: "soft_disk_scanner_config \<Rightarrow> soft_disk_limiter" where
  "soft_limiter_new config =
     \<lparr>lm_usage = limiter_new (cf_max_cached_directories_global config)
        DEFAULT_MAX_CACHED_DIRECTORIES_PER_TARGET,
      lm_states = [], lm_scan_failures = [], lm_capacity_outage_failures = 0\<rparr>"

definition scan_interval :: "soft_disk_scanner_config \<Rightarrow> nat" where
  "scan_interval config = max (cf_scan_interval_seconds config) 1"

definition max_concurrent_scans :: "soft_disk_scanner_config \<Rightarrow> nat" where
  "max_concurrent_scans config = max (cf_max_concurrent_scans config) 1"

definition shutdown_grace :: "soft_disk_scanner_config \<Rightarrow> nat" where
  "shutdown_grace config = max (cf_shutdown_grace_seconds config) 1"

record sample_decision =
  dc_snapshot :: soft_disk_snapshot
  dc_warning :: bool
  dc_must_stop :: bool
  dc_already_blocked :: bool
  dc_recovered :: bool

definition previous_state :: "soft_disk_limiter \<Rightarrow> soft_disk_target \<Rightarrow> tracker_state option" where
  "previous_state l t =
     (case hm_get (lm_states l) (tg_instance_id t) of
        None \<Rightarrow> None
      | Some s \<Rightarrow> if tk_target s = target_fingerprint_of t then Some s else None)"

abbreviation WARNING_USAGE_PERCENT :: nat where "WARNING_USAGE_PERCENT \<equiv> 75"

definition record_sample ::
  "floats \<Rightarrow> soft_disk_scanner_config \<Rightarrow> soft_disk_target \<Rightarrow> directory_usage \<Rightarrow> nat \<Rightarrow>
    soft_disk_limiter \<Rightarrow> sample_decision \<times> soft_disk_limiter" where
  "record_sample fp config target usage now l =
     (let fingerprint = target_fingerprint_of target;
          previous = previous_state l target;
          growth = growth_rate fp previous (physical_bytes usage) now
            (max (cf_scan_interval_seconds config) 1 * 1000000000);
          peak = (case previous of
              None \<Rightarrow> growth
            | Some s \<Rightarrow> max (sn_peak_growth_bytes_per_second (tk_snapshot s)) growth);
          (stop_threshold, recovery_threshold) =
            thresholds fp config (tg_protocol target) (tg_limit_bytes target) growth;
          was_blocked = (tg_durable_blocked target
            \<or> (case previous of None \<Rightarrow> False | Some s \<Rightarrow> sn_blocked (tk_snapshot s)));
          recovered = (was_blocked \<and> physical_bytes usage < recovery_threshold);
          blocked = (if recovered then False
            else was_blocked \<or> stop_threshold \<le> physical_bytes usage);
          must_stop = (\<not> was_blocked \<and> blocked);
          predicted = predict_seconds_to_limit fp (physical_bytes usage) (tg_limit_bytes target)
            growth;
          near_limit = (sat_mul (tg_limit_bytes target) WARNING_USAGE_PERCENT div 100
            \<le> physical_bytes usage);
          warning_horizon = sat_mul (full_scan_interval_secs config (tg_protocol target)) 2;
          limit_reached_soon = (case predicted of None \<Rightarrow> False | Some s \<Rightarrow> s \<le> warning_horizon);
          warning_now = (\<not> blocked \<and> (near_limit \<or> limit_reached_soon));
          previously_warned = (case previous of None \<Rightarrow> False | Some s \<Rightarrow> tk_warned s);
          snapshot = \<lparr>sn_usage = usage, sn_limit_bytes = tg_limit_bytes target,
            sn_stop_threshold_bytes = stop_threshold,
            sn_recovery_threshold_bytes = recovery_threshold,
            sn_growth_bytes_per_second = growth, sn_peak_growth_bytes_per_second = peak,
            sn_predicted_seconds_to_limit = predicted, sn_blocked = blocked, sn_sampled_at = now\<rparr>
      in (\<lparr>dc_snapshot = snapshot, dc_warning = warning_now \<and> \<not> previously_warned,
           dc_must_stop = must_stop, dc_already_blocked = was_blocked \<and> \<not> recovered,
           dc_recovered = recovered\<rparr>,
          l\<lparr>lm_states := hm_insert (lm_states l) (tg_instance_id target)
            \<lparr>tk_target = fingerprint, tk_snapshot = snapshot, tk_warned = warning_now\<rparr>\<rparr>))"

definition blocked_scan_snapshot ::
  "floats \<Rightarrow> soft_disk_scanner_config \<Rightarrow> soft_disk_target \<Rightarrow> nat \<Rightarrow> soft_disk_limiter \<Rightarrow>
    soft_disk_snapshot \<times> soft_disk_limiter" where
  "blocked_scan_snapshot fp config target now l =
     (let fingerprint = target_fingerprint_of target;
          previous = previous_state l target;
          usage = (case previous of None \<Rightarrow> 0 | Some s \<Rightarrow> sn_usage (tk_snapshot s));
          growth = (case previous of
              None \<Rightarrow> 0 | Some s \<Rightarrow> sn_growth_bytes_per_second (tk_snapshot s));
          peak = (case previous of
              None \<Rightarrow> 0 | Some s \<Rightarrow> sn_peak_growth_bytes_per_second (tk_snapshot s));
          (stop_threshold, recovery_threshold) =
            thresholds fp config (tg_protocol target) (tg_limit_bytes target) growth;
          snapshot = \<lparr>sn_usage = usage, sn_limit_bytes = tg_limit_bytes target,
            sn_stop_threshold_bytes = stop_threshold,
            sn_recovery_threshold_bytes = recovery_threshold,
            sn_growth_bytes_per_second = growth, sn_peak_growth_bytes_per_second = peak,
            sn_predicted_seconds_to_limit = predict_seconds_to_limit fp (physical_bytes usage)
              (tg_limit_bytes target) growth,
            sn_blocked = True, sn_sampled_at = now\<rparr>
      in (snapshot, l\<lparr>lm_states := hm_insert (lm_states l) (tg_instance_id target)
            \<lparr>tk_target = fingerprint, tk_snapshot = snapshot, tk_warned = False\<rparr>\<rparr>))"

section \<open>Messages\<close>

text \<open>
  A formatted message is the list of its pieces: literal text and displayed strings, decimal
  numbers, and errors of the scanners.
\<close>

datatype message_part = Text string | Num nat | Cause scan_error

type_synonym message = "message_part list"

fun leading_text :: "message \<Rightarrow> string" where
  "leading_text (Text s # ps) = s @ leading_text ps"
| "leading_text _ = []"

definition is_capacity_outage :: "message \<Rightarrow> bool" where
  "is_capacity_outage error = prefix ''soft disk scanner capacity outage:'' (leading_text error)"

section \<open>The runtime\<close>

datatype soft_disk_block_reason =
    UsageThreshold
  | Unmeasurable nat message
  | ScannerCapacityOutage nat message

fun block_reason_as_str :: "soft_disk_block_reason \<Rightarrow> string" where
  "block_reason_as_str UsageThreshold = ''usage_threshold''"
| "block_reason_as_str (Unmeasurable _ _) = ''scan_unmeasurable''"
| "block_reason_as_str (ScannerCapacityOutage _ _) = ''scanner_capacity_outage''"

fun block_reason_scan_error :: "soft_disk_block_reason \<Rightarrow> message option" where
  "block_reason_scan_error UsageThreshold = None"
| "block_reason_scan_error (Unmeasurable _ error) = Some error"
| "block_reason_scan_error (ScannerCapacityOutage _ error) = Some error"

record soft_disk_limit_exceeded =
  le_snapshot :: soft_disk_snapshot
  le_reason :: soft_disk_block_reason

datatype stop_outcome = Graceful | Forced | SkippedStale

text \<open>
  What the runtime of the daemon answers when it is asked to persist the block of a target (it
  may find that the target is not current any more), to stop it within a grace period, to kill
  it, or to clear its block; and the calls made to it, in their order.
\<close>

datatype graceful_answer = GracefulTimeout | GracefulOk | GracefulFailed string

record soft_disk_runtime =
  rt_persist_disk_block :: "soft_disk_target \<Rightarrow> soft_disk_limit_exceeded \<Rightarrow> string + bool"
  rt_graceful_stop :: "soft_disk_target \<Rightarrow> nat \<Rightarrow> graceful_answer"
  rt_force_kill :: "soft_disk_target \<Rightarrow> string + unit"
  rt_clear_disk_blocked :: "soft_disk_target \<Rightarrow> string + unit"

datatype runtime_call =
    PersistDiskBlock soft_disk_target soft_disk_limit_exceeded
  | GracefulStop soft_disk_target nat
  | ForceKill soft_disk_target
  | ClearDiskBlocked soft_disk_target

definition runtime_result :: "string + 'a \<Rightarrow> message + 'a" where
  "runtime_result r = (case r of Inl e \<Rightarrow> Inl [Text e] | Inr x \<Rightarrow> Inr x)"

definition stop_with_kill_fallback ::
  "soft_disk_runtime \<Rightarrow> soft_disk_target \<Rightarrow> nat \<Rightarrow> (message + stop_outcome) \<times> runtime_call list" where
  "stop_with_kill_fallback rt target grace =
     (case rt_graceful_stop rt target grace of
        GracefulOk \<Rightarrow> (Inr Graceful, [GracefulStop target grace])
      | GracefulFailed graceful_error \<Rightarrow>
          (case rt_force_kill rt target of
             Inl kill_error \<Rightarrow> Inl [Text ''graceful stop failed ('', Text graceful_error,
               Text ''); force kill also failed ('', Text kill_error, Text '')'']
           | Inr _ \<Rightarrow> Inr Forced,
           [GracefulStop target grace, ForceKill target])
      | GracefulTimeout \<Rightarrow>
          (bind_result (runtime_result (rt_force_kill rt target)) (\<lambda>_. Inr Forced),
           [GracefulStop target grace, ForceKill target]))"

definition enforce_disk_stop ::
  "soft_disk_runtime \<Rightarrow> soft_disk_target \<Rightarrow> soft_disk_limit_exceeded \<Rightarrow> nat \<Rightarrow>
    (message + stop_outcome) \<times> runtime_call list" where
  "enforce_disk_stop rt target exceeded grace =
     (let persist = PersistDiskBlock target exceeded
      in case rt_persist_disk_block rt target exceeded of
           Inl e \<Rightarrow> (Inl [Text e], [persist])
         | Inr current \<Rightarrow>
             if \<not> current then (Inr SkippedStale, [persist])
             else let (r, calls) = stop_with_kill_fallback rt target grace in (r, persist # calls))"

section \<open>Enforcement\<close>

datatype scan_outcome =
    Healthy soft_disk_snapshot
  | Warning soft_disk_snapshot
  | Recovered soft_disk_snapshot
  | AlreadyBlocked soft_disk_snapshot
  | Stopped soft_disk_snapshot stop_outcome

text \<open>The operations answer a result, the calls they made to the runtime, and the limiter.\<close>

type_synonym 'a enforced = "(message + 'a) \<times> runtime_call list \<times> soft_disk_limiter"

definition stop_exceeded ::
  "soft_disk_scanner_config \<Rightarrow> soft_disk_runtime \<Rightarrow> soft_disk_target \<Rightarrow> soft_disk_snapshot \<Rightarrow>
    soft_disk_block_reason \<Rightarrow> (message + scan_outcome) \<times> runtime_call list" where
  "stop_exceeded config rt target snapshot reason =
     (let (r, calls) = enforce_disk_stop rt target
            \<lparr>le_snapshot = snapshot, le_reason = reason\<rparr> (shutdown_grace config)
      in (bind_result r (\<lambda>outcome. Inr (Stopped snapshot outcome)), calls))"

definition enforce_measured_usage ::
  "floats \<Rightarrow> soft_disk_scanner_config \<Rightarrow> soft_disk_runtime \<Rightarrow> soft_disk_target \<Rightarrow>
    directory_usage \<Rightarrow> nat \<Rightarrow> soft_disk_limiter \<Rightarrow> scan_outcome enforced" where
  "enforce_measured_usage fp config rt target usage now l =
     (let (decision, l) = record_sample fp config target usage now l;
          snapshot = dc_snapshot decision
      in if dc_recovered decision then
           (bind_result (runtime_result (rt_clear_disk_blocked rt target))
              (\<lambda>_. Inr (Recovered snapshot)), [ClearDiskBlocked target], l)
         else if \<not> dc_must_stop decision \<and> \<not> dc_already_blocked decision then
           (Inr (if dc_warning decision then Warning snapshot else Healthy snapshot), [], l)
         else
           let (r, calls) = stop_exceeded config rt target snapshot UsageThreshold
           in (r, calls, l))"

definition record_target_scan_failure ::
  "soft_disk_target \<Rightarrow> soft_disk_limiter \<Rightarrow> nat \<times> soft_disk_limiter" where
  "record_target_scan_failure target l =
     (let fingerprint = target_fingerprint_of target;
          before = (case hm_get (lm_scan_failures l) (tg_instance_id target) of
              None \<Rightarrow> 0
            | Some f \<Rightarrow> if fl_target f \<noteq> fingerprint then 0 else fl_consecutive f);
          consecutive = min (before + 1) 255
      in (consecutive, l\<lparr>lm_scan_failures := hm_insert (lm_scan_failures l) (tg_instance_id target)
            \<lparr>fl_target = fingerprint, fl_consecutive = consecutive\<rparr>\<rparr>))"

definition enforce_unmeasurable ::
  "floats \<Rightarrow> soft_disk_scanner_config \<Rightarrow> soft_disk_runtime \<Rightarrow> soft_disk_target \<Rightarrow> message \<Rightarrow> nat \<Rightarrow>
    soft_disk_limiter \<Rightarrow> scan_outcome enforced" where
  "enforce_unmeasurable fp config rt target error now l =
     (let (consecutive_failures, l) = record_target_scan_failure target l;
          threshold = max (cf_max_consecutive_scan_failures config) 1
      in if consecutive_failures < threshold then
           (Inl (error @ [Text ''; soft disk usage is unmeasurable ('', Num consecutive_failures,
              Text ''/'', Num threshold,
              Text '' consecutive failures before fail-closed stop)'']), [], l)
         else
           let (snapshot, l) = blocked_scan_snapshot fp config target now l;
               (r, calls) = stop_exceeded config rt target snapshot
                 (Unmeasurable consecutive_failures error)
           in (r, calls, l))"

definition enforce_capacity_outage ::
  "floats \<Rightarrow> soft_disk_scanner_config \<Rightarrow> soft_disk_runtime \<Rightarrow> soft_disk_target \<Rightarrow> message \<Rightarrow> nat \<Rightarrow>
    soft_disk_limiter \<Rightarrow> scan_outcome enforced" where
  "enforce_capacity_outage fp config rt target error now l =
     (let consecutive_failures = min (lm_capacity_outage_failures l + 1) 255;
          l = l\<lparr>lm_capacity_outage_failures := consecutive_failures\<rparr>;
          threshold = max (cf_max_consecutive_scan_failures config) 1
      in if consecutive_failures < threshold then
           (Inl (Text ''soft disk scanner capacity outage: '' # error
              @ [Text '' ('', Num consecutive_failures, Text ''/'', Num threshold,
                 Text '' global failures before fail-closed fleet stop)'']), [], l)
         else
           let (snapshot, l) = blocked_scan_snapshot fp config target now l;
               (r, calls) = stop_exceeded config rt target snapshot
                 (ScannerCapacityOutage consecutive_failures error)
           in (r, calls, l))"

section \<open>Scanning\<close>

datatype scan_failure = Capacity message | Measurement message

text \<open>
  What happens to a scan outside of this code: the answer of the semaphore, what becomes of the
  worker (it may still be running at the outer deadline, and one that panicked did not change its
  slot), how many readings of the clock are within the budget, what the kernel answers, and the
  values of the shared counter it sees.
\<close>

datatype permit_answer = PermitTimeout | PermitClosed | PermitGranted

datatype worker_answer = OuterDeadline | WorkerFailed string | WorkerDone

record scan_environment =
  se_permit :: permit_answer
  se_worker :: worker_answer
  se_clock :: nat
  se_observation :: scan_observation
  se_seen :: "nat list"

abbreviation (input) MAX_SCAN_DEPTH :: nat where "MAX_SCAN_DEPTH \<equiv> 128"
abbreviation (input) OUTER_SCAN_DEADLINE_SLACK :: nat where "OUTER_SCAN_DEADLINE_SLACK \<equiv> 1"

definition cache_allowed ::
  "soft_disk_scanner_config \<Rightarrow> soft_disk_target \<Rightarrow> hybrid_scan_request \<Rightarrow> bool" where
  "cache_allowed config target request =
     (cf_use_inotify config \<and> \<not> mmap_writes_bypass_inotify (tg_protocol target)
      \<and> request \<noteq> RequestStreamingFull)"

text \<open>The slot for the worker; a scan without cache evicts the one of the target.\<close>

definition scan_cache ::
  "soft_disk_scanner_config \<Rightarrow> soft_disk_target \<Rightarrow> hybrid_scan_request \<Rightarrow> usage_limiter \<Rightarrow>
    nat option \<times> usage_limiter" where
  "scan_cache config target request u =
     (if cache_allowed config target request
      then let (slot, u) = start_scan (tg_instance_id target) (target_fingerprint_of target) u
           in (Some slot, u)
      else (None, evict_usage_cache (tg_instance_id target) u))"

definition scan_limits_of :: "soft_disk_scanner_config \<Rightarrow> nat \<Rightarrow> scan_limits" where
  "scan_limits_of config clock = \<lparr>sl_timeout = clock,
     sl_max_entries = max (cf_max_entries_per_scan config) 1, sl_max_depth = MAX_SCAN_DEPTH\<rparr>"

definition spawn_worker ::
  "nat option \<Rightarrow> string \<Rightarrow> scan_limits \<Rightarrow> scan_environment \<Rightarrow> hybrid_scan_request \<Rightarrow> usage_limiter \<Rightarrow>
    (scan_error + scan_measurement) \<times> usage_limiter" where
  "spawn_worker cache generation limits env request u =
     (case cache of
        None \<Rightarrow> (streaming_full_scan (so_streaming (se_observation env)) limits, u)
      | Some slot \<Rightarrow>
          let (r, u) = run_scan slot generation limits (se_observation env) (se_seen env) request u
          in (r, finish_scan slot u))"

definition scan_hybrid ::
  "(byte list \<Rightarrow> string) \<Rightarrow> soft_disk_scanner_config \<Rightarrow> soft_disk_target \<Rightarrow> hybrid_scan_request \<Rightarrow>
    scan_environment \<Rightarrow> usage_limiter \<Rightarrow> (scan_failure + scan_measurement) \<times> usage_limiter" where
  "scan_hybrid hex_sha256 config target request env u =
     (let scan_timeout = max (cf_scan_timeout_seconds config) 1
      in case se_permit env of
        PermitTimeout \<Rightarrow> (Inl (Capacity [Text ''soft disk scan capacity was unavailable for '',
          Num scan_timeout, Text '' seconds'']), u)
      | PermitClosed \<Rightarrow> (Inl (Capacity [Text ''soft disk scan limiter closed'']), u)
      | PermitGranted \<Rightarrow>
          let generation = scanner_fingerprint hex_sha256 target;
              (cache, u) = scan_cache config target request u;
              limits = scan_limits_of config (se_clock env);
              outer_deadline = sat_add scan_timeout OUTER_SCAN_DEADLINE_SLACK
          in (case se_worker env of
            OuterDeadline \<Rightarrow> (Inl (Measurement [Text ''soft disk scan of '',
              Text (tg_data_path target), Text '' exceeded its outer '', Num outer_deadline,
              Text '' second deadline'']), u)
          | WorkerFailed error \<Rightarrow> (Inl (Measurement [Text ''soft disk scan worker failed for '',
              Text (tg_data_path target), Text '': '', Text error]),
              (case cache of None \<Rightarrow> u | Some slot \<Rightarrow> finish_scan slot u))
          | WorkerDone \<Rightarrow>
              let (r, u) = spawn_worker cache generation limits env request u
              in (case r of
                    Inl e \<Rightarrow> Inl (Measurement [Text ''failed to scan '',
                      Text (tg_data_path target), Text '': '', Cause e])
                  | Inr measurement \<Rightarrow> Inr measurement, u)))"

definition scan_with ::
  "(byte list \<Rightarrow> string) \<Rightarrow> soft_disk_scanner_config \<Rightarrow> soft_disk_target \<Rightarrow> hybrid_scan_request \<Rightarrow>
    scan_environment \<Rightarrow> soft_disk_limiter \<Rightarrow> (scan_failure + scan_measurement) \<times> soft_disk_limiter" where
  "scan_with hex_sha256 config target request env l =
     (let (measured, u) = scan_hybrid hex_sha256 config target request env (lm_usage l)
      in (measured, l\<lparr>lm_usage := u\<rparr>))"

section \<open>Scanning and enforcing\<close>

record hybrid_scan_execution =
  he_outcome :: scan_outcome
  he_performed :: performed_scan_kind
  he_measurement_succeeded :: bool
  he_root_identity :: "root_identity option"

definition unmeasured :: "scan_outcome \<Rightarrow> hybrid_scan_execution" where
  "unmeasured outcome = \<lparr>he_outcome = outcome, he_performed = PerformedFull,
     he_measurement_succeeded = False, he_root_identity = None\<rparr>"

definition forget_scan_failures :: "soft_disk_target \<Rightarrow> soft_disk_limiter \<Rightarrow> soft_disk_limiter" where
  "forget_scan_failures target l =
     l\<lparr>lm_scan_failures := hm_remove (lm_scan_failures l) (tg_instance_id target),
       lm_capacity_outage_failures := 0\<rparr>"

definition enforce_scan ::
  "floats \<Rightarrow> soft_disk_scanner_config \<Rightarrow> soft_disk_runtime \<Rightarrow> soft_disk_target \<Rightarrow>
    scan_failure + scan_measurement \<Rightarrow> nat \<Rightarrow> soft_disk_limiter \<Rightarrow> hybrid_scan_execution enforced" where
  "enforce_scan fp config rt target measured now l =
     (case measured of
        Inl (Capacity e) \<Rightarrow>
          (let (r, calls, l) = enforce_capacity_outage fp config rt target e now l
           in (bind_result r (\<lambda>outcome. Inr (unmeasured outcome)), calls, l))
      | Inl (Measurement e) \<Rightarrow>
          (let (r, calls, l) = enforce_unmeasurable fp config rt target e now l
           in (bind_result r (\<lambda>outcome. Inr (unmeasured outcome)), calls, l))
      | Inr (usage, performed, identity) \<Rightarrow>
          (let (r, calls, l) = enforce_measured_usage fp config rt target usage now
                 (forget_scan_failures target l)
           in (bind_result r (\<lambda>outcome. Inr \<lparr>he_outcome = outcome, he_performed = performed,
                 he_measurement_succeeded = True, he_root_identity = Some identity\<rparr>), calls, l)))"

definition scan_hybrid_and_enforce ::
  "(byte list \<Rightarrow> string) \<Rightarrow> floats \<Rightarrow> soft_disk_scanner_config \<Rightarrow> soft_disk_runtime \<Rightarrow> soft_disk_target \<Rightarrow>
    hybrid_scan_request \<Rightarrow> scan_environment \<Rightarrow> nat \<Rightarrow> soft_disk_limiter \<Rightarrow>
    hybrid_scan_execution enforced" where
  "scan_hybrid_and_enforce hex_sha256 fp config rt target request env now l =
     (let (measured, l) = scan_with hex_sha256 config target request env l
      in enforce_scan fp config rt target measured now l)"

definition scan_and_enforce ::
  "(byte list \<Rightarrow> string) \<Rightarrow> floats \<Rightarrow> soft_disk_scanner_config \<Rightarrow> soft_disk_runtime \<Rightarrow> soft_disk_target \<Rightarrow>
    scan_environment \<Rightarrow> nat \<Rightarrow> soft_disk_limiter \<Rightarrow> scan_outcome enforced" where
  "scan_and_enforce hex_sha256 fp config rt target env now l =
     (let (r, calls, l) = scan_hybrid_and_enforce hex_sha256 fp config rt target
            RequestStreamingFull env now l
      in (bind_result r (\<lambda>execution. Inr (he_outcome execution)), calls, l))"

definition failure_message :: "scan_failure \<Rightarrow> message" where
  "failure_message f = (case f of
     Capacity e \<Rightarrow> Text ''soft disk scanner capacity outage: '' # e | Measurement e \<Rightarrow> e)"

definition evict_target :: "string \<Rightarrow> soft_disk_limiter \<Rightarrow> soft_disk_limiter" where
  "evict_target instance_id l = l\<lparr>lm_usage := evict_usage_cache instance_id (lm_usage l)\<rparr>"

definition admit_start ::
  "floats \<Rightarrow> soft_disk_scanner_config \<Rightarrow> soft_disk_target \<Rightarrow> scan_failure + scan_measurement \<Rightarrow>
    nat \<Rightarrow> soft_disk_limiter \<Rightarrow> (message + soft_disk_snapshot) \<times> soft_disk_limiter" where
  "admit_start fp config target measured now l =
     (case measured of
        Inl f \<Rightarrow> (Inl (failure_message f), l)
      | Inr (usage, _, _) \<Rightarrow>
          (let (decision, l) = record_sample fp config target usage now
                 (forget_scan_failures target l);
               snapshot = dc_snapshot decision
           in if sn_blocked snapshot
              then (Inl [Text ''instance is blocked by the soft disk limiter: physical usage '',
                  Num (physical_bytes (sn_usage snapshot)),
                  Text '' bytes must fall below the recovery threshold '',
                  Num (sn_recovery_threshold_bytes snapshot),
                  Text '' bytes (configured limit '', Num (sn_limit_bytes snapshot),
                  Text '' bytes)''], l)
              else (Inr snapshot, l)))"

definition ensure_start_allowed ::
  "(byte list \<Rightarrow> string) \<Rightarrow> floats \<Rightarrow> soft_disk_scanner_config \<Rightarrow> soft_disk_target \<Rightarrow>
    scan_environment \<Rightarrow> nat \<Rightarrow> soft_disk_limiter \<Rightarrow> (message + soft_disk_snapshot) \<times> soft_disk_limiter" where
  "ensure_start_allowed hex_sha256 fp config target env now l =
     (let (measured, l) = scan_with hex_sha256 config target RequestStreamingFull env l
      in admit_start fp config target measured now (evict_target (tg_instance_id target) l))"

definition limiter_snapshot :: "soft_disk_target \<Rightarrow> soft_disk_limiter \<Rightarrow> soft_disk_snapshot option" where
  "limiter_snapshot target l = map_option tk_snapshot (previous_state l target)"

definition remove_target :: "string \<Rightarrow> soft_disk_limiter \<Rightarrow> soft_disk_limiter" where
  "remove_target instance_id l = evict_target instance_id
     (l\<lparr>lm_states := hm_remove (lm_states l) instance_id,
       lm_scan_failures := hm_remove (lm_scan_failures l) instance_id\<rparr>)"

datatype disk_limit_mode = FuseQuota | ProjectQuota | SoftScanner

definition fuse_quota_unsupported :: "protocol \<Rightarrow> bool" where
  "fuse_quota_unsupported p = (p = Qdrant)"

definition enforcement_required :: "disk_limit_mode \<Rightarrow> protocol \<Rightarrow> bool" where
  "enforcement_required global_mode p =
     (global_mode = SoftScanner \<or> global_mode = FuseQuota \<and> fuse_quota_unsupported p)"

end
