(* ===== verification/UsageNodes.thy ===== *)
theory UsageNodes
  imports DiskScanProps
begin

text \<open>
  Consistent trees of cached directories: every cached directory but the root is a child of its
  cached parent, and every total is the directory's own usage plus the totals of its children.  A
  scan builds such a tree, a subdirectory of the scanned tree gives the part of it below its path,
  and the totals are determined by what every directory contributes by itself.
\<close>

section \<open>Consistent trees\<close>

definition total_at :: "nodes \<Rightarrow> path \<Rightarrow> directory_usage" where
  "total_at N p = (case hm_get N p of None \<Rightarrow> 0 | Some nd \<Rightarrow> cd_total nd)"

definition cached :: "nodes \<Rightarrow> path \<Rightarrow> bool" where
  "cached N p \<longleftrightarrow> hm_get N p \<noteq> None"

definition node_consistent :: "nodes \<Rightarrow> path \<Rightarrow> cached_directory \<Rightarrow> bool" where
  "node_consistent N p nd \<longleftrightarrow> distinct (cd_children nd)
     \<and> (\<forall>x \<in> set (cd_children nd). cached N (p @ [x]))
     \<and> cd_total nd = cd_base nd + (\<Sum>x\<leftarrow>cd_children nd. total_at N (p @ [x]))"

definition subtree_wf :: "path \<Rightarrow> nodes \<Rightarrow> bool" where
  "subtree_wf r N \<longleftrightarrow> hm_wf N \<and> cached N r
     \<and> (\<forall>p nd. hm_get N p = Some nd \<longrightarrow> prefix r p \<and> node_consistent N p nd)
     \<and> (\<forall>p x. cached N (p @ [x]) \<longrightarrow> p @ [x] \<noteq> r \<longrightarrow>
          (\<exists>nd. hm_get N p = Some nd \<and> x \<in> set (cd_children nd)))"

lemma subtree_wfD:
  assumes "subtree_wf r N"
  shows "hm_wf N" "cached N r" "hm_get N p = Some nd \<Longrightarrow> prefix r p"
    "hm_get N p = Some nd \<Longrightarrow> node_consistent N p nd"
    "cached N (p @ [x]) \<Longrightarrow> p @ [x] \<noteq> r \<Longrightarrow>
      \<exists>nd. hm_get N p = Some nd \<and> x \<in> set (cd_children nd)"
  using assms unfolding subtree_wf_def by blast+

lemma subtree_wf_prefix: "subtree_wf r N \<Longrightarrow> cached N p \<Longrightarrow> prefix r p"
  by (auto simp: cached_def dest: subtree_wfD(3))

text \<open>Every directory between the root of a consistent tree and a cached directory is cached.\<close>

lemma subtree_wf_between:
  assumes "subtree_wf r N" "cached N (p @ q)" "prefix r p"
  shows "cached N p"
  using assms(2)
proof (induction q rule: rev_induct)
  case (snoc x q)
  have "p @ q @ [x] \<noteq> r" using assms(3) by (auto simp: prefix_def)
  then have "cached N (p @ q)"
    using subtree_wfD(5) [OF assms(1), of "p @ q" x] snoc.prems by (auto simp: cached_def)
  then show ?case by (rule snoc.IH)
qed simp

lemma subtree_wf_child:
  assumes "subtree_wf r N" "cached N (p @ x # q)" "prefix r p"
  shows "\<exists>nd. hm_get N p = Some nd \<and> x \<in> set (cd_children nd)"
proof -
  have "cached N (p @ [x])"
    using subtree_wf_between [OF assms(1), of "p @ [x]" q] assms(2,3) by simp
  moreover have "p @ [x] \<noteq> r" using assms(3) by (auto simp: prefix_def)
  ultimately show ?thesis using subtree_wfD(5) [OF assms(1)] by blast
qed

section \<open>A scan builds a consistent tree\<close>

lemma cached_iff: "cached N p \<longleftrightarrow> p \<in> fst ` set N"
proof -
  have "hm_get N p = None \<longleftrightarrow> p \<notin> fst ` set N"
    unfolding hm_get_def by (rule map_of_eq_None_iff)
  then show ?thesis by (simp add: cached_def)
qed

lemma distinct_roots:
  assumes "hm_wf (concat (map snd xs))" "\<And>x N. (x, N) \<in> set xs \<Longrightarrow> cached N (p @ [x])"
  shows "distinct (map fst xs)"
  using assms
proof (induction xs)
  case (Cons a xs)
  obtain x N where a: "a = (x, N)" by fastforce
  have d: "fst ` set N \<inter> fst ` set (concat (map snd xs)) = {}"
    and w: "hm_wf (concat (map snd xs))"
    using hm_wf_appendD [of N "concat (map snd xs)"] Cons.prems(1) by (simp_all add: a)
  have "x \<notin> fst ` set xs"
  proof
    assume "x \<in> fst ` set xs"
    then obtain M where M: "(x, M) \<in> set xs" by auto
    then have "cached M (p @ [x])" "cached N (p @ [x])" using Cons.prems(2) by (auto simp: a)
    moreover have "set M \<subseteq> set (concat (map snd xs))" using M by force
    ultimately show False using d unfolding cached_iff by blast
  qed
  then show ?case using Cons.IH [OF w] Cons.prems(2) by (simp add: a)
qed simp

text \<open>The nodes of a directory: those of its subdirectories, then its own.\<close>

definition joined :: "(string \<times> nodes) list \<Rightarrow> path \<Rightarrow> cached_directory \<Rightarrow> nodes" where
  "joined xs p nd = concat (map snd xs) @ [(p, nd)]"

lemma joined_get_root: "hm_wf (joined xs p nd) \<Longrightarrow> hm_get (joined xs p nd) p = Some nd"
  by (simp add: hm_get_set joined_def)

lemma joined_get_sub:
  assumes "hm_wf (joined xs p nd)" "(x, N) \<in> set xs" "subtree_wf (p @ [x]) N"
    and "hm_get N q = Some v"
  shows "hm_get (joined xs p nd) q = Some v"
proof -
  have "set N \<subseteq> set (joined xs p nd)" using assms(2) by (force simp: joined_def)
  then show ?thesis
    by (rule hm_get_subset [OF subtree_wfD(1) [OF assms(3)] assms(1) _ assms(4)])
qed

lemma joined_total_sub:
  assumes "hm_wf (joined xs p nd)" "(x, N) \<in> set xs" "subtree_wf (p @ [x]) N" "cached N q"
  shows "cached (joined xs p nd) q" "total_at (joined xs p nd) q = total_at N q"
  using joined_get_sub [OF assms(1-3), of q] assms(4) by (auto simp: cached_def total_at_def)

lemma joined_getE:
  assumes "hm_wf (joined xs p nd)" "\<And>x N. (x, N) \<in> set xs \<Longrightarrow> subtree_wf (p @ [x]) N"
    and "hm_get (joined xs p nd) q = Some v"
  obtains "q = p" "v = nd" | x N where "(x, N) \<in> set xs" "hm_get N q = Some v"
proof -
  have "(q, v) \<in> set (joined xs p nd)" using assms(1,3) by (simp add: hm_get_set)
  then consider "q = p" "v = nd" | x N where "(x, N) \<in> set xs" "(q, v) \<in> set N"
    by (auto simp: joined_def)
  then show thesis
    using that by cases (auto simp: hm_get_set subtree_wfD(1) [OF assms(2)])
qed

lemma joined_sum:
  assumes "hm_wf (joined xs p nd)" "\<And>x N. (x, N) \<in> set xs \<Longrightarrow> subtree_wf (p @ [x]) N"
    and "distinct (cd_children nd)" "set (cd_children nd) = fst ` set xs"
  shows "(\<Sum>(x, N)\<leftarrow>xs. total_at N (p @ [x]))
      = (\<Sum>x\<leftarrow>cd_children nd. total_at (joined xs p nd) (p @ [x]))"
proof -
  let ?T = "joined xs p nd"
  have dist: "distinct (map fst xs)"
    using distinct_roots [of xs p] hm_wf_appendD [of "concat (map snd xs)"] assms(1)
      subtree_wfD(2) [OF assms(2)] by (simp add: joined_def)
  have "total_at N (p @ [x]) = total_at ?T (p @ [x])" if "(x, N) \<in> set xs" for x N
    using joined_total_sub(2) [OF assms(1) that assms(2) [OF that] subtree_wfD(2)]
      assms(2) [OF that] by simp
  then have "(\<Sum>(x, N)\<leftarrow>xs. total_at N (p @ [x])) = (\<Sum>x\<leftarrow>map fst xs. total_at ?T (p @ [x]))"
    by (intro arg_cong [where f = sum_list]) (auto simp: map_eq_conv)
  also have "\<dots> = (\<Sum>x\<in>fst ` set xs. total_at ?T (p @ [x]))"
    by (simp only: sum_list_distinct_conv_sum_set [OF dist] set_map)
  finally show ?thesis using assms(3,4) by (simp add: sum_list_distinct_conv_sum_set)
qed

lemma joined_consistent:
  assumes "hm_wf (joined xs p nd)" "(x, N) \<in> set xs" "subtree_wf (p @ [x]) N"
    and "hm_get N q = Some v"
  shows "prefix p q \<and> node_consistent (joined xs p nd) q v"
proof -
  have "prefix (p @ [x]) q" "node_consistent N q v"
    using subtree_wfD(3,4) [OF assms(3,4)] by auto
  then show ?thesis
    using joined_total_sub [OF assms(1-3)]
    by (auto simp: node_consistent_def append_prefixD cong: map_cong)
qed

lemma joined_parent:
  assumes wf: "hm_wf (joined xs p nd)"
    and sub: "\<And>x N. (x, N) \<in> set xs \<Longrightarrow> subtree_wf (p @ [x]) N"
    and ch: "set (cd_children nd) = fst ` set xs"
    and c: "cached (joined xs p nd) (q @ [y])" "q @ [y] \<noteq> p"
  shows "\<exists>v. hm_get (joined xs p nd) q = Some v \<and> y \<in> set (cd_children v)"
proof -
  obtain v where v: "hm_get (joined xs p nd) (q @ [y]) = Some v" using c(1) by (auto simp: cached_def)
  obtain x N where x: "(x, N) \<in> set xs" "cached N (q @ [y])"
    by (rule joined_getE [OF wf sub v]) (use c(2) in \<open>auto simp: cached_def\<close>)
  show ?thesis
  proof (cases "q @ [y] = p @ [x]")
    case True
    then show ?thesis using joined_get_root [OF wf] ch x(1) by force
  next
    case False
    then show ?thesis
      using subtree_wfD(5) [OF sub [OF x(1)] x(2)] joined_get_sub [OF wf x(1) sub [OF x(1)]]
      by blast
  qed
qed

lemma subtree_wf_node:
  assumes wf: "hm_wf (joined xs p nd)"
    and sub: "\<And>x N. (x, N) \<in> set xs \<Longrightarrow> subtree_wf (p @ [x]) N"
    and ch: "distinct (cd_children nd)" "set (cd_children nd) = fst ` set xs"
    and total: "cd_total nd = cd_base nd + (\<Sum>(x, N)\<leftarrow>xs. total_at N (p @ [x]))"
  shows "subtree_wf p (joined xs p nd)"
proof -
  let ?T = "joined xs p nd"
  have "cached ?T (p @ [x])" if "x \<in> set (cd_children nd)" for x
    using that ch(2) joined_total_sub(1) [OF wf _ sub] subtree_wfD(2) [OF sub] by fastforce
  then have root: "node_consistent ?T p nd"
    using ch(1) total joined_sum [OF wf sub ch] by (simp add: node_consistent_def)
  have "prefix p q \<and> node_consistent ?T q v" if v: "hm_get ?T q = Some v" for q v
    by (rule joined_getE [OF wf sub v]) (use root joined_consistent [OF wf _ sub] in auto)
  then show ?thesis
    unfolding subtree_wf_def
    using wf joined_get_root [OF wf] joined_parent [OF wf sub ch(2)] by (simp add: cached_def)
qed

lemma fold_insort_insert:
  "distinct (fold insort_insert xs ys) = distinct ys"
  "set (fold insort_insert xs ys) = set xs \<union> set (ys :: 'a::linorder list)"
  by (induction xs arbitrary: ys)
    (auto simp: insort_insert_key_def distinct_insort set_insort_key)

lemma entry_nodes_not_entered: "\<not> enters e \<Longrightarrow> entry_nodes e p = []"
  by (cases e) (simp_all del: enters.simps)

lemma entry_usage_not_entered: "\<not> enters e \<Longrightarrow> entry_usage e = 0"
  by (cases e) (simp_all del: enters.simps)

lemmas entry_not_entered = entry_nodes_not_entered entry_usage_not_entered

lemma entries_nodes_conv:
  "entries_nodes es p
    = concat (map snd (map (\<lambda>e. (entry_name e, entry_nodes e p)) (filter enters es)))"
  by (induction es) (auto simp: entry_not_entered)

lemma entries_usage_conv: "entries_usage es = (\<Sum>e\<leftarrow>filter enters es. entry_usage e)"
  by (induction es) (auto simp: entry_not_entered)

lemma hm_wf_entry_nodes: "e \<in> set es \<Longrightarrow> hm_wf (entries_nodes es p) \<Longrightarrow> hm_wf (entry_nodes e p)"
  by (induction es) (auto dest: hm_wf_appendD)

lemma listing_nodes_wf:
  assumes ih: "\<And>e p. e \<in> set es \<Longrightarrow> enters e \<Longrightarrow> hm_wf (entry_nodes e p) \<Longrightarrow>
      subtree_wf (p @ [entry_name e]) (entry_nodes e p)
      \<and> total_at (entry_nodes e p) (p @ [entry_name e]) = entry_usage e"
    and wf: "hm_wf (dir_nodes (Listing es) st p)"
  shows "subtree_wf p (dir_nodes (Listing es) st p)"
proof -
  define xs where "xs = map (\<lambda>e. (entry_name e, entry_nodes e p)) (filter enters es)"
  have nodes: "entries_nodes es p = concat (map snd xs)"
    by (simp add: xs_def entries_nodes_conv)
  have parts: "subtree_wf (p @ [entry_name e]) (entry_nodes e p)
      \<and> total_at (entry_nodes e p) (p @ [entry_name e]) = entry_usage e"
    if e: "e \<in> set es" "enters e" for e
  proof (rule ih [OF e])
    show "hm_wf (entry_nodes e p)"
      using hm_wf_entry_nodes [OF e(1), of p] wf hm_wf_appendD by auto
  qed
  have "(\<Sum>(x, N)\<leftarrow>xs. total_at N (p @ [x])) = entries_usage es"
    using parts unfolding xs_def entries_usage_conv
    by (intro arg_cong [where f = sum_list]) auto
  then show ?thesis
    using wf parts unfolding dir_nodes.simps nodes joined_def [symmetric]
    by (intro subtree_wf_node)
      (auto simp: xs_def fold_insort_insert child_names_def tree_usage_def own_usage_def add.assoc
        image_image)
qed

lemma total_at_last: "hm_wf (M @ [(p, nd)]) \<Longrightarrow> total_at (M @ [(p, nd)]) p = cd_total nd"
  using hm_get_set [of "M @ [(p, nd)]" p nd] by (simp add: total_at_def)

lemma dir_nodes_wf:
  shows "hm_wf (dir_nodes c st p) \<Longrightarrow>
      subtree_wf p (dir_nodes c st p) \<and> total_at (dir_nodes c st p) p = tree_usage st c"
    and "enters e \<Longrightarrow> hm_wf (entry_nodes e p) \<Longrightarrow>
      subtree_wf (p @ [entry_name e]) (entry_nodes e p)
      \<and> total_at (entry_nodes e p) (p @ [entry_name e]) = entry_usage e"
proof (induction c and e arbitrary: st p and p)
  case (Unlistable e)
  then show ?case
    using subtree_wf_node [of "[]" p "\<lparr>cd_base = stat_usage st, cd_total = stat_usage st,
        cd_children = []\<rparr>"] total_at_last [of "[]" p]
    by (simp add: tree_usage_def joined_def)
next
  case (Listing es)
  then show ?case
    using listing_nodes_wf [OF Listing.IH Listing.prems] total_at_last [of "entries_nodes es p" p]
    by simp
next
  case (Entry name stat oping opened contents)
  then show ?case by (simp add: tree_usage_def)
qed simp

section \<open>Subdirectories of a traversal\<close>

text \<open>The directory a path leads to, among the directories the scanner enters.\<close>

fun entry_directory :: "dir_entry \<Rightarrow> file_stat \<times> dir_contents" where
  "entry_directory (Entry name stat opening opened contents) = (projr stat, contents)"

fun listing :: "dir_contents \<Rightarrow> dir_entry list" where
  "listing (Unlistable e) = []"
| "listing (Listing es) = es"

fun subdirectory :: "path \<Rightarrow> file_stat \<times> dir_contents \<Rightarrow> (file_stat \<times> dir_contents) option" where
  "subdirectory [] d = Some d"
| "subdirectory (x # q) d =
     (case find (\<lambda>e. enters e \<and> entry_name e = x) (listing (snd d)) of
        None \<Rightarrow> None
      | Some e \<Rightarrow> subdirectory q (entry_directory e))"

lemma entry_nodes_subset: "e \<in> set es \<Longrightarrow> set (entry_nodes e p) \<subseteq> set (entries_nodes es p)"
  by (induction es) auto

lemma entry_nodes_directory:
  "enters e \<Longrightarrow> entry_directory e = (st, c) \<Longrightarrow> entry_nodes e p = dir_nodes c st (p @ [entry_name e])"
  by (cases e) simp_all

lemma subdirectory_step:
  assumes "subdirectory (x # q) (st, c) = Some d"
  obtains e st1 c1 where "subdirectory q (st1, c1) = Some d"
    "dir_nodes c1 st1 (p @ [x]) = entry_nodes e p" "e \<in> set (listing c)"
proof -
  from assms obtain e where e: "find (\<lambda>e. enters e \<and> entry_name e = x) (listing c) = Some e"
    "subdirectory q (entry_directory e) = Some d"
    by (auto split: option.splits)
  then have x: "enters e" "entry_name e = x" "e \<in> set (listing c)"
    by (auto simp: find_Some_iff)
  obtain st1 c1 where d: "entry_directory e = (st1, c1)" by fastforce
  show thesis
    using that [of st1 c1 e] e(2) x entry_nodes_directory [OF x(1) d, of p] by (simp add: d)
qed

lemma dir_nodes_listing: "e \<in> set (listing c) \<Longrightarrow> set (entry_nodes e p) \<subseteq> set (dir_nodes c st p)"
  using entry_nodes_subset [of e "listing c" p] by (cases c) auto

lemma dir_nodes_listing_wf:
  "e \<in> set (listing c) \<Longrightarrow> hm_wf (dir_nodes c st p) \<Longrightarrow> hm_wf (entry_nodes e p)"
  using hm_wf_entry_nodes [of e "listing c" p] by (cases c) (auto dest: hm_wf_appendD)

lemma subdirectory_nodes:
  "subdirectory q (st, c) = Some (st', c') \<Longrightarrow> hm_wf (dir_nodes c st p) \<Longrightarrow>
     hm_wf (dir_nodes c' st' (p @ q)) \<and> set (dir_nodes c' st' (p @ q)) \<subseteq> set (dir_nodes c st p)"
proof (induction q arbitrary: st c p)
  case (Cons x q)
  from Cons.prems(1) obtain e st1 c1 where e: "subdirectory q (st1, c1) = Some (st', c')"
    "dir_nodes c1 st1 (p @ [x]) = entry_nodes e p" "e \<in> set (listing c)"
    by (rule subdirectory_step)
  show ?case
    using Cons.IH [OF e(1), of "p @ [x]"] dir_nodes_listing [OF e(3), of p st]
      dir_nodes_listing_wf [OF e(3) Cons.prems(2)] e(2) by auto
qed auto

text \<open>Two consistent trees of which one contains the other agree below the root of the smaller.\<close>

lemma subtree_agree:
  assumes "subtree_wf r N" "subtree_wf s M" "set M \<subseteq> set N"
  shows "hm_get N (s @ q) = hm_get M (s @ q)"
proof -
  note up = hm_get_subset [OF subtree_wfD(1) [OF assms(2)] subtree_wfD(1) [OF assms(1)] assms(3)]
  have s: "cached N s" using up subtree_wfD(2) [OF assms(2)] by (auto simp: cached_def)
  have "cached M (s @ q)" if "cached N (s @ q)"
    using that
  proof (induction q rule: rev_induct)
    case Nil
    then show ?case using subtree_wfD(2) [OF assms(2)] by simp
  next
    case (snoc x q)
    have r: "prefix r (s @ q)" using subtree_wf_prefix [OF assms(1) s] by (auto simp: prefix_def)
    then obtain nd where nd: "hm_get N (s @ q) = Some nd" "x \<in> set (cd_children nd)"
      using subtree_wf_child [OF assms(1), of "s @ q" x "[]"] snoc.prems by auto
    then have "cached M (s @ q)" using snoc.IH by (simp add: cached_def)
    then have "hm_get M (s @ q) = Some nd" using up nd(1) by (auto simp: cached_def)
    then have "node_consistent M (s @ q) nd" by (rule subtree_wfD(4) [OF assms(2)])
    then show ?case using nd(2) by (simp add: node_consistent_def)
  qed
  then show ?thesis
    using up [of "s @ q"] by (cases "hm_get M (s @ q)"; cases "hm_get N (s @ q)")
      (auto simp: cached_def)
qed

section \<open>The sums of a tree are determined by its own usages\<close>

text \<open>What a directory contributes by itself: its own usage and its subdirectories.\<close>

definition own_at :: "nodes \<Rightarrow> path \<Rightarrow> (directory_usage \<times> string list) option" where
  "own_at N p = map_option (\<lambda>nd. (cd_base nd, cd_children nd)) (hm_get N p)"

lemma own_at_cached: "own_at N p = own_at M p \<Longrightarrow> cached N p = cached M p"
  by (cases "hm_get N p"; cases "hm_get M p") (simp_all add: own_at_def cached_def)

lemma finite_depth: "\<exists>B. \<forall>p. cached N p \<longrightarrow> length p \<le> B"
proof -
  have "finite (length ` fst ` set N)" by simp
  then have "cached N p \<Longrightarrow> length p \<le> Max (length ` fst ` set N)" for p
    by (intro Max_ge) (auto simp: cached_iff)
  then show ?thesis by blast
qed

lemma totals_determined:
  assumes "subtree_wf r N" "subtree_wf r M" "\<And>p. own_at N p = own_at M p"
  shows "total_at N p = total_at M p"
proof -
  obtain B where B: "\<And>p. cached N p \<Longrightarrow> length p \<le> B" using finite_depth by blast
  show ?thesis
  proof (induction "Suc B - length p" arbitrary: p rule: less_induct)
    case less
    show ?case
    proof (cases "hm_get N p")
      case None
      then have "hm_get M p = None" using assms(3) [of p] by (simp add: own_at_def)
      with None show ?thesis by (simp add: total_at_def)
    next
      case (Some nd)
      then obtain nd' where nd': "hm_get M p = Some nd'" "cd_base nd' = cd_base nd"
        "cd_children nd' = cd_children nd"
        using assms(3) [of p] by (cases "hm_get M p") (auto simp: own_at_def)
      have "length p \<le> B" using B Some by (simp add: cached_def)
      then have "total_at N (p @ [x]) = total_at M (p @ [x])" for x
        by (intro less) simp
      then show ?thesis
        using subtree_wfD(4) [OF assms(1) Some] subtree_wfD(4) [OF assms(2) nd'(1)] Some nd'
        by (simp add: node_consistent_def total_at_def)
    qed
  qed
qed

lemma nodes_determined:
  assumes "subtree_wf r N" "subtree_wf r M" "\<And>p. own_at N p = own_at M p"
  shows "hm_get N p = hm_get M p"
  using totals_determined [OF assms, of p] assms(3) [of p]
  by (cases "hm_get N p"; cases "hm_get M p") (auto simp: own_at_def total_at_def)

end
