(* ===== verification/UsageCommit.thy ===== *)
theory UsageCommit
  imports UsageNodes
begin

text \<open>
  Committing staged replacements to the usage cache.  The plan of a commit removes exactly the
  cached directories below the candidates and adds to every ancestor the differences of the
  candidates below it; the nodes after the commit are again a consistent tree.
\<close>

section \<open>Collecting a cached subtree\<close>

definition below :: "nodes \<Rightarrow> path \<Rightarrow> path set" where
  "below N p = {q. cached N q \<and> prefix p q}"

lemma below_children:
  assumes "subtree_wf r N" "hm_get N p = Some nd"
  shows "below N p = insert p (\<Union>x\<in>set (cd_children nd). below N (p @ [x]))"
proof (intro set_eqI iffI)
  fix q assume q: "q \<in> below N p"
  then obtain s where s: "q = p @ s" by (auto simp: below_def prefix_def)
  show "q \<in> insert p (\<Union>x\<in>set (cd_children nd). below N (p @ [x]))"
  proof (cases s)
    case (Cons x t)
    have "prefix r p" by (rule subtree_wfD(3) [OF assms])
    then have "x \<in> set (cd_children nd)"
      using subtree_wf_child [OF assms(1), of p x t] assms(2) q s Cons by (auto simp: below_def)
    then show ?thesis using q s Cons by (force simp: below_def prefix_def)
  qed (simp add: s)
next
  fix q assume "q \<in> insert p (\<Union>x\<in>set (cd_children nd). below N (p @ [x]))"
  then show "q \<in> below N p"
    using assms(2) by (auto simp: below_def cached_def append_prefixD)
qed

lemma collect_subtree_paths_set:
  assumes "subtree_wf r N" "collect_subtree_paths N pending collected = Inr out"
  shows "set out = set collected \<union> (\<Union>p\<in>set pending. below N p)
    \<and> (distinct collected \<longrightarrow> distinct out)"
  using assms
proof (induction N pending collected rule: collect_subtree_paths.induct)
  case (2 N p pending collected)
  from 2(3) obtain nd where nd: "p \<notin> set collected" "hm_get N p = Some nd"
    "validate_cached_directory N p = Inr ()"
    "list_all is_single_normal_component (cd_children nd)"
    and rec: "collect_subtree_paths N (rev (map (\<lambda>x. p @ [x]) (cd_children nd)) @ pending)
      (p # collected) = Inr out"
    by (auto simp: bind_result_Inr split: if_splits option.splits)
  have "set out = set (p # collected)
      \<union> (\<Union>q\<in>set (rev (map (\<lambda>x. p @ [x]) (cd_children nd)) @ pending). below N q)
    \<and> (distinct (p # collected) \<longrightarrow> distinct out)"
    by (rule 2(1) [OF nd(1,2,4) 2(2) rec])
  then show ?case
    using below_children [OF 2(2) nd(2)] nd(1) by auto
qed simp

section \<open>Differences\<close>

lemma as_delta_plus: "as_delta (u + v) = as_delta u + as_delta v"
  by (simp add: as_delta_def plus_usage_delta_def)

lemma as_delta_zero [simp]: "as_delta 0 = 0"
  by (simp add: as_delta_def zero_usage_delta_def)

lemma as_delta_inject: "as_delta u = as_delta v \<longleftrightarrow> u = v"
  by (auto simp: as_delta_def usage_eq_iff)

lemma as_delta_sum_list: "as_delta (sum_list us) = (\<Sum>u\<leftarrow>us. as_delta u)"
  by (induction us) (simp_all add: as_delta_plus)

lemma delta_between_conv: "delta_between old new = as_delta new - as_delta old"
  by (simp add: delta_between_def as_delta_def minus_usage_delta_def)

lemma delta_add_Inr: "delta_add d e = Inr f \<Longrightarrow> f = d + e"
  by (auto simp: delta_add_def bind_result_Inr checked_add_i128_def plus_usage_delta_def
      split: if_splits)

lemma apply_delta_Inr: "apply_delta v d = Inr w \<Longrightarrow> int w = int v + d"
  by (auto simp: apply_delta_def bind_result_Inr checked_add_i128_def split: if_splits)

lemma delta_apply_Inr: "delta_apply d u = Inr v \<Longrightarrow> as_delta v = as_delta u + d"
  by (auto simp: delta_apply_def bind_result_Inr as_delta_def plus_usage_delta_def
      dest!: apply_delta_Inr)

section \<open>The plan of a commit\<close>

lemma set_path_ancestors: "set (path_ancestors p) = {a. strict_prefix a p}"
proof -
  have "a \<in> set (path_ancestors p) \<longleftrightarrow> strict_prefix a p" for a
  proof
    assume "a \<in> set (path_ancestors p)"
    then show "strict_prefix a p" by (auto simp: path_ancestors_def strict_prefix_def take_is_prefix)
  next
    assume a: "strict_prefix a p"
    then have "a = take (length a) p" "length a < length p"
      by (auto simp: strict_prefix_def prefix_def prefix_length_less)
    then show "a \<in> set (path_ancestors p)" unfolding path_ancestors_def by force
  qed
  then show ?thesis by blast
qed

lemma distinct_path_ancestors: "distinct (path_ancestors p)"
  by (auto simp: path_ancestors_def distinct_map inj_on_def) (metis length_take min.absorb4)

lemma add_deltas_get:
  assumes "add_deltas N d as ds = Inr ds'" "distinct as" "hm_wf ds"
  shows "hm_wf ds' \<and> (\<forall>a. hm_get ds' a =
    (if a \<in> set as then Some ((case hm_get ds a of None \<Rightarrow> 0 | Some e \<Rightarrow> e) + d) else hm_get ds a))"
  using assms
proof (induction as arbitrary: ds)
  case (Cons a as)
  from Cons.prems(1) obtain e where e:
    "delta_add (case hm_get ds a of None \<Rightarrow> 0 | Some d \<Rightarrow> d) d = Inr e"
    "add_deltas N d as (hm_insert ds a e) = Inr ds'"
    by (auto simp: bind_result_Inr split: if_splits)
  show ?case
    using Cons.IH [OF e(2)] Cons.prems(2,3) delta_add_Inr [OF e(1)] by auto
qed simp

lemma claim_paths_set:
  "claim_paths c ps claimed = Inr out \<Longrightarrow>
     set out = set claimed \<union> set ps \<and> set claimed \<inter> set ps = {}
     \<and> length out = length claimed + length ps \<and> (\<forall>p \<in> set ps. prefix c p)"
  by (induction ps arbitrary: claimed) (fastforce split: if_splits)+

definition delta_of :: "nodes \<Rightarrow> path \<times> nodes \<Rightarrow> usage_delta" where
  "delta_of N s = as_delta (total_at (snd s) (fst s)) - as_delta (total_at N (fst s))"

text \<open>The sum of the differences of the candidates that satisfy a condition.\<close>

definition delta_sum :: "nodes \<Rightarrow> (path \<times> nodes) list \<Rightarrow> (path \<Rightarrow> bool) \<Rightarrow> usage_delta" where
  "delta_sum N S P = (\<Sum>s\<leftarrow>S. if P (fst s) then delta_of N s else 0)"

lemma delta_sum_simps [simp]:
  "delta_sum N [] P = 0"
  "delta_sum N (s # S) P = (if P (fst s) then delta_of N s else 0) + delta_sum N S P"
  "delta_sum N (S @ S') P = delta_sum N S P + delta_sum N S' P"
  by (simp_all add: delta_sum_def)

definition plan_ok :: "nodes \<Rightarrow> (path \<times> nodes) list \<Rightarrow> commit_plan \<Rightarrow> bool" where
  "plan_ok N S plan \<longleftrightarrow>
     set (cp_removed plan) = (\<Union>s\<in>set S. below N (fst s)) \<and> distinct (cp_removed plan)
     \<and> set (cp_claimed plan) = (\<Union>s\<in>set S. fst ` set (snd s))
     \<and> length (cp_claimed plan) = (\<Sum>s\<leftarrow>S. length (snd s))
     \<and> hm_wf (cp_deltas plan)
     \<and> (\<forall>a. hm_get (cp_deltas plan) a =
          (if \<exists>s\<in>set S. strict_prefix a (fst s)
           then Some (delta_sum N S (strict_prefix a)) else None))
     \<and> (\<forall>s\<in>set S. cached N (fst s))"

lemma plan_commit_step:
  assumes "subtree_wf r N" "plan_ok N S plan"
    and "collect_subtree_paths N [c] (cp_removed plan) = Inr removed"
    and "claim_paths c (map fst R) (cp_claimed plan) = Inr claimed"
    and "add_deltas N (delta_of N (c, R)) (path_ancestors c) (cp_deltas plan) = Inr deltas"
    and "cached N c"
  shows "plan_ok N (S @ [(c, R)])
      \<lparr>cp_removed = removed, cp_claimed = claimed, cp_deltas = deltas\<rparr>"
proof -
  note plan = assms(2) [unfolded plan_ok_def]
  have none: "\<not> (\<exists>s\<in>set S. strict_prefix a (fst s)) \<Longrightarrow> delta_sum N S (strict_prefix a) = 0" for a
    by (induction S) auto
  have wf: "hm_wf (cp_deltas plan)" using plan by blast
  have "hm_get deltas a = (if \<exists>s\<in>set (S @ [(c, R)]). strict_prefix a (fst s)
      then Some (delta_sum N (S @ [(c, R)]) (strict_prefix a)) else None)" for a
    using add_deltas_get [OF assms(5) distinct_path_ancestors wf] plan none [of a]
    by (simp add: set_path_ancestors)
  moreover have "hm_wf deltas"
    using add_deltas_get [OF assms(5) distinct_path_ancestors wf] by blast
  ultimately show ?thesis
    using plan collect_subtree_paths_set [OF assms(1,3)] claim_paths_set [OF assms(4)] assms(6)
    by (auto simp: plan_ok_def)
qed

lemma plan_commit_ok:
  assumes "subtree_wf r N" "plan_commit N S' plan = Inr out" "plan_ok N S plan"
  shows "plan_ok N (S @ S') out"
  using assms(2,3)
proof (induction S' arbitrary: S plan)
  case (Cons s S')
  obtain c R where s: "s = (c, R)" by fastforce
  from Cons.prems(1) obtain old new removed claimed deltas where p:
    "hm_get N c = Some old" "hm_get R c = Some new"
    "collect_subtree_paths N [c] (cp_removed plan) = Inr removed"
    "claim_paths c (map fst R) (cp_claimed plan) = Inr claimed"
    "add_deltas N (delta_between (cd_total old) (cd_total new)) (path_ancestors c)
      (cp_deltas plan) = Inr deltas"
    "plan_commit N S' \<lparr>cp_removed = removed, cp_claimed = claimed, cp_deltas = deltas\<rparr> = Inr out"
    unfolding s by (auto simp: bind_result_Inr)
  have "delta_between (cd_total old) (cd_total new) = delta_of N (c, R)"
    using p(1,2) by (simp add: delta_between_conv delta_of_def total_at_def)
  then have "plan_ok N (S @ [(c, R)])
      \<lparr>cp_removed = removed, cp_claimed = claimed, cp_deltas = deltas\<rparr>"
    using plan_commit_step [OF assms(1) Cons.prems(2) p(3,4)] p(1,5) by (simp add: cached_def)
  from Cons.IH [OF p(6) this] show ?case by (simp add: s)
qed simp

lemma plan_ok_empty: "plan_ok N [] \<lparr>cp_removed = [], cp_claimed = [], cp_deltas = []\<rparr>"
  by (simp add: plan_ok_def)

lemma plan_commit_correct:
  "subtree_wf r N \<Longrightarrow>
     plan_commit N S \<lparr>cp_removed = [], cp_claimed = [], cp_deltas = []\<rparr> = Inr plan \<Longrightarrow>
     plan_ok N S plan"
  using plan_commit_ok [OF _ _ plan_ok_empty, of r N S plan] by simp

section \<open>The nodes after a commit\<close>

lemma remove_paths_get: "hm_get (remove_paths ps N) p = (if p \<in> set ps then None else hm_get N p)"
  by (induction ps N rule: remove_paths.induct) auto

lemma remove_paths_wf: "hm_wf N \<Longrightarrow> hm_wf (remove_paths ps N)"
  by (induction ps N rule: remove_paths.induct) auto

lemma extend_nodes_wf: "hm_wf N \<Longrightarrow> hm_wf (extend_nodes R N)"
  by (induction R N rule: extend_nodes.induct) auto

lemma extend_nodes_get:
  "hm_wf R \<Longrightarrow> hm_get (extend_nodes R N) p
     = (case hm_get R p of None \<Rightarrow> hm_get N p | Some nd \<Rightarrow> Some nd)"
proof (induction R N rule: extend_nodes.induct)
  case (2 p' node R N)
  have "hm_wf R" "p' \<notin> fst ` set R" using 2(2) by (auto simp: hm_wf_def)
  moreover from this(2) have "hm_get R p' = None" by (simp add: hm_get_None_iff)
  ultimately show ?case using 2(1) by (simp add: hm_get_Cons split: option.split)
qed simp

lemma extend_staged_wf: "hm_wf N \<Longrightarrow> hm_wf (extend_staged S N)"
  by (induction S N rule: extend_staged.induct) (auto intro: extend_nodes_wf)

lemma extend_staged_get_other:
  "\<forall>s\<in>set S. hm_wf (snd s) \<and> \<not> cached (snd s) p \<Longrightarrow> hm_get (extend_staged S N) p = hm_get N p"
  by (induction S N rule: extend_staged.induct) (auto simp: extend_nodes_get cached_def)

lemma extend_staged_get:
  assumes "\<forall>s\<in>set S. hm_wf (snd s)" "(c, R) \<in> set S" "cached R p"
    and "\<And>c' R'. (c', R') \<in> set S \<Longrightarrow> cached R' p \<Longrightarrow> R' = R"
  shows "hm_get (extend_staged S N) p = hm_get R p"
  using assms
proof (induction S N arbitrary: c rule: extend_staged.induct)
  case (2 c1 R1 S N)
  show ?case
  proof (cases "\<exists>s\<in>set S. cached (snd s) p")
    case True
    then obtain c' R' where "(c', R') \<in> set S" "cached R' p" by auto
    then have "(c', R) \<in> set S" using 2(5) by (metis list.set_intros(2))
    then have "hm_get (extend_staged S (extend_nodes R1 N)) p = hm_get R p"
    proof (rule 2(1) [rotated, OF _ 2(4)])
      show "\<And>c' R'. (c', R') \<in> set S \<Longrightarrow> cached R' p \<Longrightarrow> R' = R"
        using 2(5) by (meson list.set_intros(2))
    qed (use 2(2) in simp)
    then show ?thesis by simp
  next
    case False
    then have "(c, R) \<notin> set S" using 2(4) by auto
    then have "R1 = R" using 2(3) by simp
    moreover have "hm_get (extend_staged S (extend_nodes R1 N)) p = hm_get (extend_nodes R1 N) p"
      using False 2(2) by (intro extend_staged_get_other) auto
    ultimately show ?thesis using 2(2,4) by (auto simp: extend_nodes_get cached_def)
  qed
qed simp

lemma set_totals_wf: "hm_wf N \<Longrightarrow> hm_wf (set_totals us N)"
  by (induction us N rule: set_totals.induct) (auto split: option.splits)

lemma set_totals_get:
  "hm_wf us \<Longrightarrow> hm_get (set_totals us N) p = map_option
     (\<lambda>nd. case hm_get us p of None \<Rightarrow> nd | Some u \<Rightarrow> nd\<lparr>cd_total := u\<rparr>) (hm_get N p)"
proof (induction us N rule: set_totals.induct)
  case (2 p' u us N)
  have w: "hm_wf us" "p' \<notin> fst ` set us" using 2(2) by (auto simp: hm_wf_def)
  then have "hm_get us p' = None" by (simp add: hm_get_None_iff)
  then show ?case using 2(1) [OF w(1)] by (auto simp: hm_get_Cons split: option.splits)
qed (simp add: option.map_ident)

lemma updated_totals_get:
  "updated_totals N ds = Inr us \<Longrightarrow> map fst us = map fst ds \<and>
     (\<forall>p. hm_get ds p = None \<longrightarrow> hm_get us p = None) \<and>
     (\<forall>p d. hm_get ds p = Some d \<longrightarrow>
        (\<exists>u. hm_get us p = Some u \<and> as_delta u = as_delta (total_at N p) + d))"
proof (induction ds arbitrary: us)
  case (Cons a ds)
  obtain p d where a: "a = (p, d)" by fastforce
  from Cons.prems obtain old u us' where u: "hm_get N p = Some old"
    "delta_apply d (cd_total old) = Inr u" "updated_totals N ds = Inr us'" "us = (p, u) # us'"
    unfolding a by (auto simp: bind_result_Inr)
  have "as_delta u = as_delta (total_at N p) + d"
    using delta_apply_Inr [OF u(2)] u(1) by (simp add: total_at_def)
  then show ?case
    using Cons.IH [OF u(3)] unfolding a u(4) by (simp add: hm_get_Cons)
qed simp

section \<open>A commit keeps the tree consistent\<close>

text \<open>Staged replacements: consistent trees below candidates none of which is inside another.\<close>

definition staged_ok :: "(path \<times> nodes) list \<Rightarrow> bool" where
  "staged_ok S \<longleftrightarrow> distinct (map fst S)
     \<and> (\<forall>s\<in>set S. fst s \<noteq> [] \<and> subtree_wf (fst s) (snd s))
     \<and> (\<forall>s\<in>set S. \<forall>t\<in>set S. prefix (fst s) (fst t) \<longrightarrow> fst s = fst t)"

lemma staged_unique:
  assumes "staged_ok S" "s \<in> set S" "t \<in> set S" "prefix (fst s) p" "prefix (fst t) p"
  shows "s = t"
proof -
  have "prefix (fst s) (fst t) \<or> prefix (fst t) (fst s)"
    using assms(4,5) prefix_same_cases by blast
  then have "fst s = fst t" using assms(1-3) unfolding staged_ok_def by metis
  then show ?thesis using assms(1-3) by (auto simp: staged_ok_def distinct_map inj_on_def)
qed

definition covered :: "(path \<times> nodes) list \<Rightarrow> path \<Rightarrow> bool" where
  "covered S p \<longleftrightarrow> (\<exists>s\<in>set S. prefix (fst s) p)"

lemma covered_below:
  assumes "staged_ok S" "covered S p" "s \<in> set S"
  shows "\<not> strict_prefix p (fst s)"
proof
  assume p: "strict_prefix p (fst s)"
  obtain t where t: "t \<in> set S" "prefix (fst t) p" using assms(2) by (auto simp: covered_def)
  then have "prefix (fst t) (fst s)" using p prefix_order.trans strict_prefix_def by blast
  then have "fst t = fst s" using assms(1,3) t(1) by (auto simp: staged_ok_def)
  then show False using p t(2) by (auto simp: strict_prefix_def)
qed

lemma delta_sum_cong:
  "(\<And>s. s \<in> set S \<Longrightarrow> P (fst s) = Q (fst s)) \<Longrightarrow> delta_sum N S P = delta_sum N S Q"
  by (induction S) auto

lemma delta_sum_none: "(\<And>s. s \<in> set S \<Longrightarrow> \<not> P (fst s)) \<Longrightarrow> delta_sum N S P = 0"
  by (induction S) auto

lemma delta_sum_one:
  "distinct (map fst S) \<Longrightarrow> s \<in> set S \<Longrightarrow> (\<And>t. t \<in> set S \<Longrightarrow> P (fst t) = (fst t = fst s)) \<Longrightarrow>
     delta_sum N S P = delta_of N s"
proof (induction S)
  case (Cons t S)
  show ?case
  proof (cases "s = t")
    case True
    have "fst s \<noteq> fst t" if "s \<in> set S" for s
      using Cons.prems(1) that by (metis distinct.simps(2) image_eqI list.simps(9) set_map)
    then have "delta_sum N S P = 0" using Cons.prems(3) True by (intro delta_sum_none) simp
    then show ?thesis using Cons.prems(3) [of t] True by simp
  next
    case False
    then have s: "s \<in> set S" using Cons.prems(2) by simp
    then have "fst t \<noteq> fst s"
      using Cons.prems(1) by (metis distinct.simps(2) image_eqI list.simps(9) set_map)
    then have "\<not> P (fst t)" using Cons.prems(3) [of t] by simp
    then show ?thesis using Cons s by simp
  qed
qed simp

lemma sum_list_one:
  fixes d :: "'b::comm_monoid_add"
  assumes "distinct xs" "\<And>x. x \<in> set xs \<Longrightarrow> P x = (x = y)" "y \<in> set xs"
  shows "(\<Sum>x\<leftarrow>xs. if P x then d else 0) = d"
proof -
  have "(\<Sum>x\<leftarrow>xs. if P x then d else 0) = (\<Sum>x\<leftarrow>xs. if x = y then d else 0)"
    using assms(2) by (intro arg_cong [where f = sum_list]) auto
  then show ?thesis using assms(1,3) by (simp add: sum_list_distinct_conv_sum_set)
qed

lemma delta_sum_children:
  assumes "distinct ch"
    and "\<And>s. s \<in> set S \<Longrightarrow> prefix p (fst s) \<Longrightarrow> \<exists>x\<in>set ch. prefix (p @ [x]) (fst s)"
  shows "delta_sum N S (prefix p) = (\<Sum>x\<leftarrow>ch. delta_sum N S (prefix (p @ [x])))"
  using assms(2)
proof (induction S)
  case (Cons s S)
  let ?d = "\<lambda>q. if prefix q (fst s) then delta_of N s else 0"
  have "?d p = (\<Sum>x\<leftarrow>ch. ?d (p @ [x]))"
  proof (cases "prefix p (fst s)")
    case True
    then obtain y where y: "y \<in> set ch" "prefix (p @ [y]) (fst s)"
      using Cons.prems [of s] by auto
    then have "prefix (p @ [x]) (fst s) = (x = y)" for x by (auto simp: prefix_def)
    then show ?thesis using sum_list_one [OF assms(1) _ y(1), of "\<lambda>x. x = y" "delta_of N s"] True by simp
  next
    case False
    then have "\<not> prefix (p @ [x]) (fst s)" for x by (auto dest: append_prefixD)
    then show ?thesis using False by (simp add: sum_list_0)
  qed
  then show ?case using Cons by (simp add: sum_list_addf)
qed simp

text \<open>The tree before and after a successful commit.\<close>

definition committed ::
  "nodes \<Rightarrow> (path \<times> nodes) list \<Rightarrow> (path \<times> directory_usage) list \<Rightarrow> nodes \<Rightarrow> bool" where
  "committed N S us N' \<longleftrightarrow> (\<exists>plan. plan_ok N S plan \<and> updated_totals N (cp_deltas plan) = Inr us
     \<and> N' = set_totals us (extend_staged S (remove_paths (cp_removed plan) N)))"

lemma committed_totals:
  assumes "committed N S us N'"
  shows "hm_wf us"
    and "hm_get us p = None \<Longrightarrow> \<not> (\<exists>s\<in>set S. strict_prefix p (fst s))"
    and "hm_get us p = Some u \<Longrightarrow> (\<exists>s\<in>set S. strict_prefix p (fst s))
      \<and> as_delta u = as_delta (total_at N p) + delta_sum N S (strict_prefix p)"
proof -
  from assms obtain plan where p: "plan_ok N S plan" "updated_totals N (cp_deltas plan) = Inr us"
    by (auto simp: committed_def)
  note us = updated_totals_get [OF p(2)]
  note none = us [THEN conjunct2, THEN conjunct1, rule_format]
  note some = us [THEN conjunct2, THEN conjunct2, rule_format]
  have ds: "hm_get (cp_deltas plan) p = (if \<exists>s\<in>set S. strict_prefix p (fst s)
      then Some (delta_sum N S (strict_prefix p)) else None)"
    using p(1) unfolding plan_ok_def by blast
  show "hm_wf us" using us p(1) by (simp add: hm_wf_def plan_ok_def)
  show "\<not> (\<exists>s\<in>set S. strict_prefix p (fst s))" if "hm_get us p = None"
    using some [of p "delta_sum N S (strict_prefix p)"] ds that
    by (cases "\<exists>s\<in>set S. strict_prefix p (fst s)") simp_all
  show "(\<exists>s\<in>set S. strict_prefix p (fst s))
      \<and> as_delta u = as_delta (total_at N p) + delta_sum N S (strict_prefix p)"
    if u: "hm_get us p = Some u"
    using some [of p "delta_sum N S (strict_prefix p)"] none [of p] ds u
    by (cases "\<exists>s\<in>set S. strict_prefix p (fst s)") simp_all
qed

lemma committed_covered:
  assumes "committed N S us N'" "staged_ok S" "s \<in> set S" "prefix (fst s) p"
  shows "hm_get N' p = hm_get (snd s) p"
proof -
  from assms(1) obtain plan where p: "plan_ok N S plan"
    and N': "N' = set_totals us (extend_staged S (remove_paths (cp_removed plan) N))"
    by (auto simp: committed_def)
  have "covered S p" using assms(3,4) by (auto simp: covered_def)
  then have "hm_get us p = None"
    using committed_totals(3) [OF assms(1), of p] covered_below [OF assms(2)]
    by (cases "hm_get us p") auto
  then have get: "hm_get N' p = hm_get (extend_staged S (remove_paths (cp_removed plan) N)) p"
    by (simp add: N' set_totals_get [OF committed_totals(1) [OF assms(1)]] option.map_ident)
  have wf: "\<forall>s\<in>set S. hm_wf (snd s)"
    using assms(2) by (auto simp: staged_ok_def dest: subtree_wfD(1))
  have only: "t = s" if "t \<in> set S" "cached (snd t) p" for t
  proof -
    have "prefix (fst t) p"
      using subtree_wf_prefix [OF _ that(2)] assms(2) that(1) by (auto simp: staged_ok_def)
    then show ?thesis by (rule staged_unique [OF assms(2) that(1) assms(3) _ assms(4)])
  qed
  show ?thesis
  proof (cases "cached (snd s) p")
    case True
    have "hm_get (extend_staged S (remove_paths (cp_removed plan) N)) p = hm_get (snd s) p"
      using only by (intro extend_staged_get [OF wf _ True, of "fst s"])
        (use assms(3) in \<open>auto dest!: only\<close>)
    then show ?thesis by (simp add: get)
  next
    case False
    then have "\<forall>t\<in>set S. hm_wf (snd t) \<and> \<not> cached (snd t) p" using wf only by blast
    moreover have "p \<in> set (cp_removed plan) \<or> hm_get N p = None"
      using p assms(3,4) by (auto simp: plan_ok_def below_def cached_def)
    ultimately show ?thesis
      using False by (auto simp: get extend_staged_get_other remove_paths_get cached_def)
  qed
qed

lemma committed_uncovered_get:
  assumes "committed N S us N'" "staged_ok S" "\<not> covered S p"
  shows "hm_get N' p = map_option
      (\<lambda>nd. case hm_get us p of None \<Rightarrow> nd | Some u \<Rightarrow> nd\<lparr>cd_total := u\<rparr>) (hm_get N p)"
proof -
  from assms(1) obtain plan where p: "plan_ok N S plan"
    and N': "N' = set_totals us (extend_staged S (remove_paths (cp_removed plan) N))"
    by (auto simp: committed_def)
  have "\<forall>t\<in>set S. hm_wf (snd t) \<and> \<not> cached (snd t) p"
    using assms(2,3) by (auto simp: staged_ok_def covered_def dest: subtree_wfD(1) subtree_wf_prefix)
  moreover have "p \<notin> set (cp_removed plan)"
    using p assms(3) by (auto simp: plan_ok_def below_def covered_def)
  ultimately show ?thesis
    by (simp add: N' set_totals_get [OF committed_totals(1) [OF assms(1)]]
        extend_staged_get_other remove_paths_get)
qed

lemma committed_uncovered:
  assumes "committed N S us N'" "staged_ok S" "\<not> covered S p"
  shows "case hm_get N p of
      None \<Rightarrow> hm_get N' p = None
    | Some nd \<Rightarrow> \<exists>t. hm_get N' p = Some (nd\<lparr>cd_total := t\<rparr>)
        \<and> as_delta t = as_delta (cd_total nd) + delta_sum N S (strict_prefix p)"
proof (cases "hm_get us p")
  case None
  then have "delta_sum N S (strict_prefix p) = 0"
    using committed_totals(2) [OF assms(1)] by (intro delta_sum_none) auto
  then show ?thesis
    using None committed_uncovered_get [OF assms]
    by (auto split: option.split intro!: exI [where x = "cd_total _"])
next
  case (Some u)
  then show ?thesis
    using committed_totals(3) [OF assms(1) Some] committed_uncovered_get [OF assms]
    by (auto simp: total_at_def split: option.split)
qed

lemma committed_own:
  assumes "committed N S us N'" "staged_ok S" "\<not> covered S p"
  shows "own_at N' p = own_at N p"
  using committed_uncovered [OF assms] by (auto simp: own_at_def split: option.splits)

lemma committed_total:
  assumes "committed N S us N'" "staged_ok S" "cached N p"
    and "\<And>s. s \<in> set S \<Longrightarrow> \<not> strict_prefix (fst s) p"
  shows "cached N' p \<and> as_delta (total_at N' p) = as_delta (total_at N p) + delta_sum N S (prefix p)"
proof (cases "covered S p")
  case True
  then obtain s where s: "s \<in> set S" "fst s = p"
    using assms(4) by (auto simp: covered_def strict_prefix_def)
  have "prefix p (fst t) = (fst t = fst s)" if "t \<in> set S" for t
    using assms(2) s that unfolding staged_ok_def by (metis prefix_order.refl)
  then have "delta_sum N S (prefix p) = delta_of N s"
    using assms(2) s by (intro delta_sum_one) (auto simp: staged_ok_def)
  moreover have "hm_get N' p = hm_get (snd s) p"
    using committed_covered [OF assms(1,2) s(1)] s(2) by simp
  moreover have "cached (snd s) p" using assms(2) s by (auto simp: staged_ok_def dest: subtree_wfD(2))
  ultimately show ?thesis using s by (simp add: delta_of_def total_at_def cached_def)
next
  case False
  have "delta_sum N S (prefix p) = delta_sum N S (strict_prefix p)"
    using False by (intro delta_sum_cong) (auto simp: covered_def strict_prefix_def)
  then show ?thesis
    using committed_uncovered [OF assms(1,2) False] assms(3)
    by (auto simp: cached_def total_at_def split: option.splits)
qed

lemma committed_children:
  assumes N: "subtree_wf [] N" and c: "committed N S us N'" "staged_ok S"
    and p: "\<not> covered S p" "hm_get N p = Some nd"
  shows "\<And>x. x \<in> set (cd_children nd) \<Longrightarrow> cached N' (p @ [x])"
    and "as_delta (\<Sum>x\<leftarrow>cd_children nd. total_at N' (p @ [x]))
      = as_delta (\<Sum>x\<leftarrow>cd_children nd. total_at N (p @ [x])) + delta_sum N S (prefix p)"
proof -
  have nd: "node_consistent N p nd" by (rule subtree_wfD(4) [OF N p(2)])
  have "\<not> strict_prefix (fst s) (p @ [x])" if "s \<in> set S" for s x
    using p(1) that by (auto simp: covered_def strict_prefix_def prefix_snoc)
  then have child: "cached N' (p @ [x]) \<and> as_delta (total_at N' (p @ [x]))
      = as_delta (total_at N (p @ [x])) + delta_sum N S (prefix (p @ [x]))"
    if "x \<in> set (cd_children nd)" for x
    using committed_total [OF c] nd that by (auto simp: node_consistent_def)
  then show "\<And>x. x \<in> set (cd_children nd) \<Longrightarrow> cached N' (p @ [x])" by blast
  have "\<exists>x\<in>set (cd_children nd). prefix (p @ [x]) (fst s)" if s: "s \<in> set S" "prefix p (fst s)" for s
  proof -
    have "cached N (fst s)" using c(1) s(1) by (auto simp: committed_def plan_ok_def)
    moreover obtain q where "fst s = p @ q" using s(2) by (auto simp: prefix_def)
    moreover from this have "q \<noteq> []" using s(1) p(1) by (auto simp: covered_def)
    ultimately obtain x q where q: "fst s = p @ x # q" "cached N (fst s)"
      by (auto simp: neq_Nil_conv)
    then have "x \<in> set (cd_children nd)" using subtree_wf_child [OF N, of p x q] p(2) by auto
    then show ?thesis using q by (auto simp: prefix_def)
  qed
  then have "delta_sum N S (prefix p) = (\<Sum>x\<leftarrow>cd_children nd. delta_sum N S (prefix (p @ [x])))"
    using nd by (intro delta_sum_children) (auto simp: node_consistent_def)
  moreover have "(\<Sum>x\<leftarrow>cd_children nd. as_delta (total_at N' (p @ [x])))
      = (\<Sum>x\<leftarrow>cd_children nd. as_delta (total_at N (p @ [x])) + delta_sum N S (prefix (p @ [x])))"
    using child by (intro arg_cong [where f = sum_list]) auto
  ultimately show "as_delta (\<Sum>x\<leftarrow>cd_children nd. total_at N' (p @ [x]))
      = as_delta (\<Sum>x\<leftarrow>cd_children nd. total_at N (p @ [x])) + delta_sum N S (prefix p)"
    by (simp add: as_delta_sum_list sum_list_addf comp_def)
qed

lemma committed_consistent:
  assumes N: "subtree_wf [] N" and c: "committed N S us N'" "staged_ok S"
    and v: "hm_get N' p = Some v"
  shows "node_consistent N' p v"
proof (cases "covered S p")
  case True
  then obtain s where s: "s \<in> set S" "prefix (fst s) p" by (auto simp: covered_def)
  have same: "hm_get N' q = hm_get (snd s) q" if "prefix (fst s) q" for q
    by (rule committed_covered [OF c s(1) that])
  have "subtree_wf (fst s) (snd s)" using c(2) s(1) by (auto simp: staged_ok_def)
  then have "node_consistent (snd s) p v" using subtree_wfD(4) v same [OF s(2)] by metis
  moreover have "prefix (fst s) (p @ [x])" for x using s(2) by (simp add: prefix_prefix)
  ultimately show ?thesis using same by (simp add: node_consistent_def total_at_def cached_def)
next
  case False
  then obtain nd where nd: "hm_get N p = Some nd" "v = nd\<lparr>cd_total := cd_total v\<rparr>"
    "as_delta (cd_total v) = as_delta (cd_total nd) + delta_sum N S (strict_prefix p)"
    using committed_uncovered [OF c False] v by (auto split: option.splits)
  have "delta_sum N S (strict_prefix p) = delta_sum N S (prefix p)"
    using False by (intro delta_sum_cong) (auto simp: covered_def strict_prefix_def)
  then have "as_delta (cd_total v)
      = as_delta (cd_base nd + (\<Sum>x\<leftarrow>cd_children nd. total_at N' (p @ [x])))"
    using committed_children(2) [OF N c False nd(1)] nd(3) subtree_wfD(4) [OF N nd(1)]
    by (simp add: node_consistent_def as_delta_plus add.assoc)
  moreover have "cd_base v = cd_base nd" "cd_children v = cd_children nd"
    by (subst nd(2), simp)+
  ultimately show ?thesis
    using committed_children(1) [OF N c False nd(1)] subtree_wfD(4) [OF N nd(1)]
    by (simp add: node_consistent_def as_delta_inject)
qed

lemma committed_parent:
  assumes N: "subtree_wf [] N" and c: "committed N S us N'" "staged_ok S"
    and q: "cached N' (p @ [x])"
  shows "\<exists>v. hm_get N' p = Some v \<and> x \<in> set (cd_children v)"
proof (cases "covered S p")
  case True
  then obtain s where s: "s \<in> set S" "prefix (fst s) p" by (auto simp: covered_def)
  have wf: "subtree_wf (fst s) (snd s)" using c(2) s(1) by (auto simp: staged_ok_def)
  have "prefix (fst s) (p @ [x])" using s(2) by (simp add: prefix_prefix)
  then have "cached (snd s) (p @ [x])" using q committed_covered [OF c s(1)] by (simp add: cached_def)
  then show ?thesis
    using subtree_wf_child [OF wf, of p x "[]"] s(2) committed_covered [OF c s] by simp
next
  case False
  have "cached N (p @ [x])"
  proof (cases "covered S (p @ [x])")
    case True
    then obtain s where "s \<in> set S" "fst s = p @ [x]"
      using False by (auto simp: covered_def prefix_snoc)
    then show ?thesis using c(1) by (auto simp: committed_def plan_ok_def)
  next
    case u: False
    then show ?thesis using committed_uncovered [OF c u] q by (auto simp: cached_def split: option.splits)
  qed
  then obtain nd where "hm_get N p = Some nd" "x \<in> set (cd_children nd)"
    using subtree_wf_child [OF N, of p x "[]"] by auto
  then show ?thesis using committed_uncovered [OF c False] by auto
qed

lemma committed_wf:
  assumes N: "subtree_wf [] N" and c: "committed N S us N'" "staged_ok S"
  shows "subtree_wf [] N'"
proof -
  have "hm_wf N'"
    using c(1) subtree_wfD(1) [OF N]
    by (auto simp: committed_def intro!: set_totals_wf extend_staged_wf remove_paths_wf)
  moreover have "\<not> covered S []" using c(2) by (auto simp: covered_def staged_ok_def)
  then have "cached N' []"
    using committed_uncovered [OF c, of "[]"] subtree_wfD(2) [OF N]
    by (auto simp: cached_def)
  ultimately show ?thesis
    using committed_consistent [OF N c] committed_parent [OF N c] by (auto simp: subtree_wf_def)
qed

lemma length_nodes: "hm_wf (N :: nodes) \<Longrightarrow> length N = card {p. cached N p}"
  using distinct_card [of "map fst N"] by (simp add: hm_wf_def cached_iff [abs_def])

lemma committed_cached:
  assumes "committed N S us N'" "staged_ok S" "plan_ok N S plan" "cached N' p"
  shows "p \<in> ({p. cached N p} - set (cp_removed plan)) \<union> set (cp_claimed plan)"
proof (cases "covered S p")
  case True
  then obtain s where s: "s \<in> set S" "prefix (fst s) p" by (auto simp: covered_def)
  then have "cached (snd s) p" using assms(4) committed_covered [OF assms(1,2) s] by (simp add: cached_def)
  then show ?thesis using assms(3) s(1) by (auto simp: plan_ok_def cached_iff)
next
  case False
  then have "cached N p"
    using committed_uncovered_get [OF assms(1,2) False] assms(4) by (simp add: cached_def)
  then show ?thesis using False assms(3) by (auto simp: plan_ok_def below_def covered_def)
qed

section \<open>Committing the staged replacements\<close>

lemma commit_replacements_Inr:
  assumes wf: "subtree_wf [] (ut_nodes c)" and S: "staged_ok S"
    and "commit_replacements c S limits = Inr (u, c')"
  obtains us N' where "committed (ut_nodes c) S us N'" "c' = c\<lparr>ut_nodes := N'\<rparr>"
    "u = nodes_usage N'" "length N' \<le> ut_max_cached_directories c"
    "usage_entries u \<le> sl_max_entries limits"
proof -
  let ?N = "ut_nodes c"
  from assms(3) obtain plan count us where p:
    "plan_commit ?N S \<lparr>cp_removed = [], cp_claimed = [], cp_deltas = []\<rparr> = Inr plan"
    "count = length ?N - length (cp_removed plan) + length (cp_claimed plan)"
    "count \<le> ut_max_cached_directories c" "updated_totals ?N (cp_deltas plan) = Inr us"
    "u = (case hm_get us [] of None \<Rightarrow> ut_usage c | Some u \<Rightarrow> u)"
    "usage_entries u \<le> sl_max_entries limits"
    "c' = c\<lparr>ut_nodes := set_totals us (extend_staged S (remove_paths (cp_removed plan) ?N))\<rparr>"
    by (auto simp: commit_replacements_def bind_result_Inr Let_def bind_eq_Some_conv checked_sub_def
        checked_add_Some split: if_splits)
  define N' where "N' = set_totals us (extend_staged S (remove_paths (cp_removed plan) ?N))"
  have plan: "plan_ok ?N S plan" by (rule plan_commit_correct [OF wf p(1)])
  have com: "committed ?N S us N'" using plan p(4) by (auto simp: committed_def N'_def)
  have "\<not> covered S []" using S by (auto simp: covered_def staged_ok_def)
  then have u: "u = nodes_usage N'"
    using committed_uncovered_get [OF com S, of "[]"] p(5) subtree_wfD(2) [OF wf]
    by (auto simp: nodes_usage_def ut_usage_def cached_def split: option.split)
  have rem: "set (cp_removed plan) \<subseteq> {p. cached ?N p}" "distinct (cp_removed plan)"
    using plan by (auto simp: plan_ok_def below_def)
  have fin: "finite {p. cached ?N p}" by (simp add: cached_iff)
  have "length N' \<le> card (({p. cached ?N p} - set (cp_removed plan)) \<union> set (cp_claimed plan))"
    using length_nodes [OF subtree_wfD(1) [OF committed_wf [OF wf com S]]]
      committed_cached [OF com S plan] fin by (auto intro!: card_mono)
  also have "\<dots> \<le> card ({p. cached ?N p} - set (cp_removed plan)) + card (set (cp_claimed plan))"
    by (rule card_Un_le)
  also have "\<dots> \<le> count"
    using rem fin card_length [of "cp_claimed plan"] length_nodes [OF subtree_wfD(1) [OF wf]]
    by (simp add: p(2) card_Diff_subset distinct_card)
  finally have "length N' \<le> ut_max_cached_directories c" using p(3) by simp
  then show thesis using that [OF com _ u _ p(6)] p(7) by (simp add: N'_def)
qed

end
