(* ===== verification/UsageTreeProps.thy ===== *)
theory UsageTreeProps
  imports UsageCommit
begin

text \<open>
  Partial scans of the usage cache: the candidates of a partial scan cover every changed path and
  none of them lies inside another, so the commit applies; a partial scan leaves exactly the cache
  a full scan would have built.
\<close>

section \<open>Candidates and staging\<close>

lemma nearest_ancestor_prefix:
  "nearest_cached_existing_ancestor N w p b = Inr (q, b') \<Longrightarrow> q \<noteq> [] \<and> prefix q p"
proof (induction N w p b rule: nearest_cached_existing_ancestor.induct)
  case (1 N w p b)
  have "prefix q (butlast p) \<Longrightarrow> prefix q p" using prefixeq_butlast prefix_order.trans by blast
  then show ?case
    using 1 nearest_cached_existing_ancestor.simps [of N w p b]
    by (auto simp: bind_result_Inr split: if_splits sum.splits open_relative_error.splits)
qed

lemma nearest_ancestors_prefix:
  "nearest_ancestors N w i ps b = Inr (cs, b') \<Longrightarrow>
     [] \<notin> set cs \<and> (\<forall>p\<in>set ps. \<exists>q\<in>set cs. prefix q (component_names (path_components p)))"
  by (induction ps arbitrary: i b cs) (auto simp: bind_result_Inr dest!: nearest_ancestor_prefix)

definition antichain :: "path list \<Rightarrow> bool" where
  "antichain cs \<longleftrightarrow> distinct cs \<and> (\<forall>p\<in>set cs. \<forall>q\<in>set cs. prefix p q \<longrightarrow> p = q)"

lemma antichain_snoc:
  assumes "antichain ds" "\<not> list_ex (\<lambda>a. prefix a c) ds" "\<And>d. d \<in> set ds \<Longrightarrow> length d \<le> length c"
  shows "antichain (ds @ [c])"
proof -
  have "\<not> prefix a c" if "a \<in> set ds" for a using assms(2) that by (auto simp: list_ex_iff)
  moreover have "\<not> prefix c a" if a: "a \<in> set ds" for a
  proof
    assume "prefix c a"
    then have "c = a" using assms(3) [OF a] by (auto simp: prefix_def)
    then show False using assms(2) a by (auto simp: list_ex_iff)
  qed
  ultimately show ?thesis using assms(1) by (auto simp: antichain_def)
qed

lemma deduplicate_antichain:
  assumes "antichain ds" "sorted (map length cs)" "\<And>d c. d \<in> set ds \<Longrightarrow> c \<in> set cs \<Longrightarrow> length d \<le> length c"
  shows "antichain (deduplicate ds cs) \<and> set ds \<subseteq> set (deduplicate ds cs)
    \<and> set (deduplicate ds cs) \<subseteq> set ds \<union> set cs
    \<and> (\<forall>c\<in>set cs. \<exists>d\<in>set (deduplicate ds cs). prefix d c)"
  using assms
proof (induction ds cs rule: deduplicate.induct)
  case (2 ds c cs)
  show ?case
  proof (cases "list_ex (\<lambda>a. prefix a c) ds")
    case True
    then show ?thesis using 2 by (auto simp: list_ex_iff)
  next
    case False
    have "antichain (ds @ [c])" using 2(5) by (intro antichain_snoc [OF 2(3) False]) simp
    moreover have "length d \<le> length e" if "d \<in> set (ds @ [c])" "e \<in> set cs" for d e
      using 2(4,5) that by auto
    ultimately have "antichain (deduplicate (ds @ [c]) cs)
      \<and> set (ds @ [c]) \<subseteq> set (deduplicate (ds @ [c]) cs)
      \<and> set (deduplicate (ds @ [c]) cs) \<subseteq> set (ds @ [c]) \<union> set cs
      \<and> (\<forall>e\<in>set cs. \<exists>d\<in>set (deduplicate (ds @ [c]) cs). prefix d e)"
      using 2(2) [OF False] 2(4) by simp
    then show ?thesis using False by auto
  qed
qed simp

lemma sorted_lengths: "sorted (map length (sort_key (\<lambda>p :: path. (length p, p)) cs))"
proof -
  have "sorted (map (\<lambda>p :: path. (length p, p)) (sort_key (\<lambda>p. (length p, p)) cs))" by simp
  then show ?thesis
    by (auto simp: sorted_map less_eq_prod_def elim!: sorted_wrt_mono_rel [rotated])
qed

lemma plan_candidates_ok:
  assumes "plan_candidates N w ps b = Inr (cs, b')"
  shows "antichain cs \<and> [] \<notin> set cs
    \<and> (\<forall>p\<in>set ps. \<exists>q\<in>set cs. prefix q (component_names (path_components p)))"
proof -
  from assms obtain raw where raw: "nearest_ancestors N w 0 ps b = Inr (raw, b')"
    "cs = deduplicate [] (sort_key (\<lambda>p. (length p, p)) raw)"
    by (auto simp: plan_candidates_def bind_result_Inr)
  have "antichain cs \<and> set cs \<subseteq> set raw \<and> (\<forall>c\<in>set raw. \<exists>d\<in>set cs. prefix d c)"
    using deduplicate_antichain [OF _ sorted_lengths, of "[]" raw]
    by (auto simp: raw(2) antichain_def)
  then show ?thesis
    using nearest_ancestors_prefix [OF raw(1)] by (meson prefix_order.trans subsetD)
qed

lemma stage_replacement_Inr:
  assumes "stage_replacement c obs q n b = Inr (R, b')"
  obtains st where "open_relative_directory (to_stage obs q) q = Inr ()" "to_stat obs q = Inr st"
    "R = dir_nodes (to_contents obs q) st q" "hm_wf R" "subtree_wf q R"
proof -
  from assms obtain st mx u where s: "open_relative_directory (to_stage obs q) q = Inr ()"
    "to_stat obs q = Inr st"
    "scan_directory_tree (to_contents obs q) st q (length q) b [] mx = Inr (u, b', R)"
    unfolding stage_replacement_def io_result_def os_result_def
    by (auto elim!: bind_result_InrE split: sum.split_asm if_split_asm open_relative_error.split_asm
        prod.split_asm)
  have R: "R = dir_nodes (to_contents obs q) st q" "hm_wf R"
    using scan_directory_tree_steps(1) [OF s(3)] by (auto simp: dir_step_def)
  then show thesis using that [OF s(1,2) R] dir_nodes_wf(1) [of "to_contents obs q" st q] by simp
qed

lemma stage_candidates_Inr:
  "stage_candidates c obs cs n b = Inr S \<Longrightarrow> map fst S = cs \<and> (\<forall>s\<in>set S. subtree_wf (fst s) (snd s)
     \<and> (\<exists>st. open_relative_directory (to_stage obs (fst s)) (fst s) = Inr ()
         \<and> to_stat obs (fst s) = Inr st
         \<and> snd s = dir_nodes (to_contents obs (fst s)) st (fst s)))"
proof (induction cs arbitrary: n b S)
  case (Cons q cs)
  from Cons.prems obtain b0 R b' n' S' where s: "stage_replacement c obs q n b0 = Inr (R, b')"
    "stage_candidates c obs cs n' b' = Inr S'" "S = (q, R) # S'"
    by (auto simp: bind_result_Inr)
  show ?case
    using Cons.IH [OF s(2)] stage_replacement_Inr [OF s(1)] s(3) by (fastforce split: prod.splits)
qed simp

section \<open>Partial scans\<close>

text \<open>A cache is consistent when its nodes are, and it respects the bound it was created with.\<close>

definition cache_consistent :: "usage_tree_cache \<Rightarrow> bool" where
  "cache_consistent c \<longleftrightarrow> subtree_wf [] (ut_nodes c)
     \<and> directory_count c \<le> ut_max_cached_directories c"

definition changed_names :: "string \<Rightarrow> path" where
  "changed_names p = component_names (path_components p)"

lemma staged_ok_candidates:
  assumes "plan_candidates N w ps b = Inr (cs, b')" "stage_candidates c obs cs n b' = Inr S"
  shows "staged_ok S"
proof -
  have m: "map fst S = cs" using stage_candidates_Inr [OF assms(2)] by blast
  then have "fst s \<in> set cs" if "s \<in> set S" for s using that by force
  then show ?thesis
    using plan_candidates_ok [OF assms(1)] stage_candidates_Inr [OF assms(2)] m
    by (auto simp: staged_ok_def antichain_def)
qed

lemma reconcile_Inr:
  assumes "cache_consistent c" "reconcile c obs gen changed limits = Inr (u, c')"
  obtains (none) "changed = []" "u = ut_usage c" "c' = c"
  | (commit) S us N' where "committed (ut_nodes c) S us N'" "staged_ok S"
      "c' = c\<lparr>ut_nodes := N'\<rparr>" "u = ut_usage c'" "directory_count c' \<le> ut_max_cached_directories c"
      "\<forall>p\<in>set changed. \<exists>s\<in>set S. prefix (fst s) (changed_names p)"
      "\<forall>s\<in>set S. \<exists>st. open_relative_directory (to_stage obs (fst s)) (fst s) = Inr ()
         \<and> to_stat obs (fst s) = Inr st \<and> snd s = dir_nodes (to_contents obs (fst s)) st (fst s)"
proof (cases "changed = []")
  case True
  have "u = ut_usage c \<and> c' = c"
    using assms(2) True by (auto simp: reconcile_def bind_result_Inr split: if_splits)
  then show thesis using True by (intro none) simp_all
next
  case False
  with assms(2) obtain cs b' S where s:
    "plan_candidates (ut_nodes c) (to_plan obs) changed (budget_new limits) = Inr (cs, b')"
    "stage_candidates c obs cs 0 b' = Inr S" "commit_replacements c S limits = Inr (u, c')"
    by (auto simp: reconcile_def bind_result_Inr split: if_splits)
  have S: "staged_ok S" by (rule staged_ok_candidates [OF s(1,2)])
  have wf: "subtree_wf [] (ut_nodes c)" using assms(1) by (simp add: cache_consistent_def)
  obtain us N' where N': "committed (ut_nodes c) S us N'" "c' = c\<lparr>ut_nodes := N'\<rparr>"
    "u = nodes_usage N'" "length N' \<le> ut_max_cached_directories c"
    by (rule commit_replacements_Inr [OF wf S s(3)])
  have "set cs = fst ` set S" using stage_candidates_Inr [OF s(2)] by force
  then have "\<forall>p\<in>set changed. \<exists>s\<in>set S. prefix (fst s) (changed_names p)"
    using plan_candidates_ok [OF s(1)] by (simp add: changed_names_def)
  then show thesis
    using commit [OF N'(1) S N'(2)] N'(2-4) stage_candidates_Inr [OF s(2)]
    by (simp add: ut_usage_def directory_count_def)
qed

lemma scan_full_bounded_consistent:
  assumes "scan_full_bounded root gen limits mx = Inr (Cached c)"
  obtains st where "cache_consistent c" "ro_open root = Inr st" "ut_max_cached_directories c = mx"
    "hm_wf (dir_nodes (ro_contents root) st [])" "ut_nodes c = dir_nodes (ro_contents root) st []"
proof -
  from assms obtain st b u where c: "ro_open root = Inr st"
    "scan_directory_tree (ro_contents root) st [] 0 (budget_new limits) [] mx
      = Inr (u, b, ut_nodes c)" "ut_max_cached_directories c = mx"
    by (rule scan_full_bounded_Cached)
  have N: "ut_nodes c = dir_nodes (ro_contents root) st []" "hm_wf (ut_nodes c)"
    "length (ut_nodes c) \<le> mx"
    using scan_directory_tree_steps(1) [OF c(2)] by (auto simp: dir_step_def)
  then have "cache_consistent c"
    using dir_nodes_wf(1) [of "ro_contents root" st "[]"] c(3)
    by (simp add: cache_consistent_def directory_count_def)
  then show thesis using that c(1,3) N by simp
qed

text \<open>The caches of the limiter: a full scan creates one, successful partial scans update it.\<close>

definition cache_start :: "usage_tree_cache \<Rightarrow> bool" where
  "cache_start c \<longleftrightarrow> (\<exists>root gen limits mx. scan_full_bounded root gen limits mx = Inr (Cached c))"

inductive cache_step :: "usage_tree_cache \<Rightarrow> usage_tree_cache \<Rightarrow> bool" where
  "reconcile c obs gen changed limits = Inr (u, c') \<Longrightarrow> cache_step c c'"

inductive_cases cache_stepE: "cache_step c c'"

lemma reconcile_consistent:
  assumes "cache_consistent c" "reconcile c obs gen changed limits = Inr (u, c')"
  shows "cache_consistent c' \<and> u = ut_usage c'"
proof (rule reconcile_Inr [OF assms])
  fix S us N' assume S: "committed (ut_nodes c) S us N'" "staged_ok S" "c' = c\<lparr>ut_nodes := N'\<rparr>"
    "u = ut_usage c'" "directory_count c' \<le> ut_max_cached_directories c"
  have "subtree_wf [] N'"
    using assms(1) by (intro committed_wf [OF _ S(1,2)]) (simp add: cache_consistent_def)
  then show ?thesis using S(3-5) by (simp add: cache_consistent_def)
qed (use assms(1) in simp_all)

interpretation caching: step_invariant cache_start cache_step cache_consistent
  by unfold_locales
    (auto simp: cache_start_def elim!: cache_stepE elim: scan_full_bounded_consistent
      dest: reconcile_consistent)

text \<open>C23: every cache that a full scan and any number of partial scans after it produce is
  consistent: the total of every directory is its own usage plus the totals of its cached
  subdirectories, every cached directory but the root hangs below its cached parent, and the
  cache holds no more directories than the bound it was created with.\<close>

theorem cache_stays_consistent:
  assumes "reach cache_start cache_step c"
  shows "cache_consistent c"
  using assms by (rule caching.reach_inv)

text \<open>Every directory the staging opens is the directory at that path of the given tree.\<close>

definition reads_tree :: "tree_observation \<Rightarrow> file_stat \<Rightarrow> dir_contents \<Rightarrow> bool" where
  "reads_tree obs st d \<longleftrightarrow> (\<forall>q st'. open_relative_directory (to_stage obs q) q = Inr () \<longrightarrow>
     to_stat obs q = Inr st' \<longrightarrow> subdirectory q (st, d) = Some (st', to_contents obs q))"

text \<open>C3: a partial scan is as good as a full one.  Suppose a consistent cache differs from a full
  scan of the present tree at most below the changed paths (a directory elsewhere has the same
  files and the same subdirectories), and the directories the partial scan opens are those of the
  present tree.  If the partial scan succeeds, it returns exactly the usage of the full scan, and
  afterwards the cache holds exactly the nodes the full scan would have put there.\<close>

theorem reconcile_equals_rescan:
  assumes "cache_consistent c" "reconcile c obs gen changed limits = Inr (u, c')"
    and "scan_full_bounded root gen limits' mx = Inr (Cached full)"
    and "ro_open root = Inr st" "reads_tree obs st (ro_contents root)"
    and "\<forall>p. (\<forall>d\<in>set changed. \<not> prefix (changed_names d) p) \<longrightarrow>
      own_at (ut_nodes c) p = own_at (ut_nodes full) p"
  shows "u = ut_usage full \<and> (\<forall>p. hm_get (ut_nodes c') p = hm_get (ut_nodes full) p)"
proof -
  let ?F = "ut_nodes full"
  have F: "subtree_wf [] ?F" "?F = dir_nodes (ro_contents root) st []"
    "hm_wf (dir_nodes (ro_contents root) st [])"
    using assms(4) by (rule_tac scan_full_bounded_consistent [OF assms(3)],
        simp add: cache_consistent_def)+
  have wf: "subtree_wf [] (ut_nodes c)" using assms(1) by (simp add: cache_consistent_def)
  show ?thesis
  proof (rule reconcile_Inr [OF assms(1,2)])
    assume n: "changed = []" "u = ut_usage c" "c' = c"
    then have "hm_get (ut_nodes c) p = hm_get ?F p" for p
      using assms(6) by (intro nodes_determined [OF wf F(1)]) simp
    then show ?thesis using n by (simp add: ut_usage_def nodes_usage_def)
  next
    fix S us N' assume S: "committed (ut_nodes c) S us N'" "staged_ok S" "c' = c\<lparr>ut_nodes := N'\<rparr>"
      "u = ut_usage c'" "\<forall>p\<in>set changed. \<exists>s\<in>set S. prefix (fst s) (changed_names p)"
      "\<forall>s\<in>set S. \<exists>st. open_relative_directory (to_stage obs (fst s)) (fst s) = Inr ()
         \<and> to_stat obs (fst s) = Inr st \<and> snd s = dir_nodes (to_contents obs (fst s)) st (fst s)"
    have "own_at N' p = own_at ?F p" for p
    proof (cases "covered S p")
      case True
      then obtain s where s: "s \<in> set S" "prefix (fst s) p" by (auto simp: covered_def)
      have "subtree_wf (fst s) (snd s)" using S(2) s(1) by (simp add: staged_ok_def)
      moreover have "set (snd s) \<subseteq> set ?F"
        using S(6) s(1) assms(5) subdirectory_nodes [OF _ F(3)] F(2) unfolding reads_tree_def
        by fastforce
      ultimately have "hm_get ?F p = hm_get (snd s) p"
        using subtree_agree [OF F(1)] s(2) by (auto simp: prefix_def)
      then show ?thesis using committed_covered [OF S(1,2) s] by (simp add: own_at_def)
    next
      case False
      then have "\<not> prefix (changed_names d) p" if "d \<in> set changed" for d
        using S(5) that unfolding covered_def by (meson prefix_order.trans)
      then show ?thesis using assms(6) committed_own [OF S(1,2) False] by simp
    qed
    then have "hm_get N' p = hm_get ?F p" for p
      by (intro nodes_determined [OF committed_wf [OF wf S(1,2)] F(1)]) simp
    then show ?thesis using S(3,4) by (simp add: ut_usage_def nodes_usage_def)
  qed
qed

section \<open>An example\<close>

text \<open>The answers of a file system that does not change during a partial scan.\<close>

definition stable_opening :: "file_stat \<Rightarrow> dir_contents \<Rightarrow> path \<Rightarrow> path_opening" where
  "stable_opening st d q = \<lparr>op_dup = None,
     op_step = (\<lambda>i. if subdirectory (take (i + 1) q) (st, d) = None then Some NOENT else None)\<rparr>"

definition stable_observation :: "file_stat \<Rightarrow> dir_contents \<Rightarrow> tree_observation" where
  "stable_observation st d = \<lparr>to_open = Inr st, to_plan = (\<lambda>i. stable_opening st d),
     to_stage = stable_opening st d,
     to_stat = (\<lambda>q. case subdirectory q (st, d) of None \<Rightarrow> Inl NOENT | Some (st', _) \<Rightarrow> Inr st'),
     to_contents = (\<lambda>q. case subdirectory q (st, d) of None \<Rightarrow> Listing [] | Some (_, d') \<Rightarrow> d'),
     to_reopen = Inr st\<rparr>"

lemma stable_reads_tree: "reads_tree (stable_observation st d) st d"
  by (auto simp: reads_tree_def stable_observation_def split: option.splits)

definition example_before :: "dir_entry list" where
  "example_before = [example_file ''a'' 3 8 7, example_subdir ''d'' 4 [example_file ''b'' 5 16 11],
     example_subdir ''e'' 6 [example_file ''x'' 7 8 1]]"

definition example_after :: "dir_entry list" where
  "example_after = [example_file ''a'' 3 8 7, example_subdir ''d'' 4 [example_file ''b'' 5 24 20,
       example_subdir ''s'' 8 [example_file ''y'' 9 8 2]],
     example_subdir ''e'' 6 [example_file ''x'' 7 8 1]]"

lemmas reconcile_defs = reconcile_def io_result_def plan_candidates_def validate_changed_path_def
  path_components_def segment_def is_single_normal_component_def normal_component_def
  nearest_cached_existing_ancestor.simps open_relative_directory_def stable_opening_def
  stable_observation_def stage_replacement_def checked_sub_def commit_replacements_def
  validate_cached_directory_def path_ancestors_def delta_between_def delta_add_def
  checked_add_i128_def delta_apply_def apply_delta_def zero_usage_delta_def hm_remove_def
  ut_usage_def nodes_usage_def zero_directory_usage_def

definition example_cache :: usage_tree_cache where
  "example_cache = \<lparr>ut_root_identity = \<lparr>ri_device = 1, ri_inode = 2\<rparr>,
     ut_target_generation = ''g'', ut_max_cached_directories = 8, ut_nodes = [
      ([''d''], \<lparr>cd_base = DirectoryUsage 11 12288 1, cd_total = DirectoryUsage 11 12288 1,
        cd_children = []\<rparr>),
      ([''e''], \<lparr>cd_base = DirectoryUsage 1 8192 1, cd_total = DirectoryUsage 1 8192 1,
        cd_children = []\<rparr>),
      ([], \<lparr>cd_base = DirectoryUsage 7 8192 3, cd_total = DirectoryUsage 19 28672 5,
        cd_children = [''d'', ''e'']\<rparr>)]\<rparr>"

definition example_rescanned :: usage_tree_cache where
  "example_rescanned = \<lparr>ut_root_identity = \<lparr>ri_device = 1, ri_inode = 2\<rparr>,
     ut_target_generation = ''g'', ut_max_cached_directories = 8, ut_nodes = [
      ([''d'', ''s''], \<lparr>cd_base = DirectoryUsage 2 8192 1, cd_total = DirectoryUsage 2 8192 1,
        cd_children = []\<rparr>),
      ([''d''], \<lparr>cd_base = DirectoryUsage 20 16384 2, cd_total = DirectoryUsage 22 24576 3,
        cd_children = [''s'']\<rparr>),
      ([''e''], \<lparr>cd_base = DirectoryUsage 1 8192 1, cd_total = DirectoryUsage 1 8192 1,
        cd_children = []\<rparr>),
      ([], \<lparr>cd_base = DirectoryUsage 7 8192 3, cd_total = DirectoryUsage 30 40960 7,
        cd_children = [''d'', ''e'']\<rparr>)]\<rparr>"

lemma example_scan_before:
  "scan_full_bounded (example_root example_before) ''g'' example_limits 8
    = Inr (Cached example_cache)"
  by (simp add: example_before_def example_cache_def example_defs scan_defs
      zero_directory_usage_def less_char_def less_eq_char_def)

lemma example_scan_after:
  "scan_full_bounded (example_root example_after) ''g'' example_limits 8
    = Inr (Cached example_rescanned)"
  by (simp add: example_after_def example_rescanned_def example_defs scan_defs
      zero_directory_usage_def less_char_def less_eq_char_def)

lemma example_reconcile:
  "\<exists>c'. reconcile example_cache (stable_observation (example_stat Directory 2 8 4096)
      (Listing example_after)) ''g'' [''d''] example_limits = Inr (DirectoryUsage 30 40960 7, c')"
  by (simp add: example_after_def example_cache_def example_defs scan_defs reconcile_defs
      less_char_def less_eq_char_def Let_def)

theorem cache_stays_consistent_witness:
  "\<exists>c. reach cache_start cache_step c \<and> cache_consistent c
    \<and> ut_usage c = DirectoryUsage 30 40960 7"
proof -
  have r: "reach cache_start cache_step example_cache"
    using example_scan_before by (intro reach_init) (auto simp: cache_start_def)
  obtain c' where c': "reconcile example_cache (stable_observation
      (example_stat Directory 2 8 4096) (Listing example_after)) ''g'' [''d''] example_limits
      = Inr (DirectoryUsage 30 40960 7, c')"
    using example_reconcile by blast
  have "reach cache_start cache_step c'" by (rule reach_step [OF r cache_step.intros [OF c']])
  moreover have "ut_usage c' = DirectoryUsage 30 40960 7"
    using reconcile_consistent [OF caching.reach_inv [OF r] c'] by simp
  ultimately show ?thesis using cache_stays_consistent by blast
qed

lemma example_unchanged:
  "(\<forall>d\<in>set [''d'']. \<not> prefix (changed_names d) p) \<Longrightarrow>
     own_at (ut_nodes example_cache) p = own_at (ut_nodes example_rescanned) p"
  by (auto simp: own_at_def example_cache_def example_rescanned_def hm_get_def changed_names_def
      path_components_def segment_def)

theorem reconcile_equals_rescan_witness:
  "\<exists>c'. reconcile example_cache (stable_observation (example_stat Directory 2 8 4096)
        (Listing example_after)) ''g'' [''d''] example_limits = Inr (DirectoryUsage 30 40960 7, c')
    \<and> DirectoryUsage 30 40960 7 = ut_usage example_rescanned
    \<and> (\<forall>p. hm_get (ut_nodes c') p = hm_get (ut_nodes example_rescanned) p)"
proof -
  obtain c' where c': "reconcile example_cache (stable_observation
      (example_stat Directory 2 8 4096) (Listing example_after)) ''g'' [''d''] example_limits
      = Inr (DirectoryUsage 30 40960 7, c')"
    using example_reconcile by blast
  have "cache_consistent example_cache"
    by (rule scan_full_bounded_consistent [OF example_scan_before])
  then show ?thesis
    using reconcile_equals_rescan [OF _ c' example_scan_after, of "example_stat Directory 2 8 4096"]
      example_unchanged stable_reads_tree c' by (simp add: example_root_def)
qed

end
