(* ===== verification/UsageCacheProps.thy ===== *)
theory UsageCacheProps
  imports UsageCache UsageTreeProps
begin

text \<open>
  The books of the usage caches: every slot accounts for exactly the directories it caches, the
  shared counter is the sum of the slots that are alive, and neither exceeds its bound.
\<close>

section \<open>The books of the slots\<close>

text \<open>A slot accounts for exactly the directories its cache holds, at most \<open>B\<close> of them.\<close>

definition slot_ok :: "nat \<Rightarrow> usage_tree_slot_state \<Rightarrow> bool" where
  "slot_ok B s \<longleftrightarrow> us_cached_directory_count s =
     (case us_cache s of None \<Rightarrow> 0 | Some c \<Rightarrow> directory_count c)
   \<and> (\<forall>c. us_cache s = Some c \<longrightarrow> cache_consistent c \<and> ut_max_cached_directories c \<le> B)"

text \<open>One slot changed and the shared counter with it.\<close>

definition accounted :: "nat \<Rightarrow> nat \<Rightarrow> nat \<Rightarrow> nat \<Rightarrow> usage_tree_slot_state \<times> nat \<Rightarrow> bool" where
  "accounted limit others n counter r \<longleftrightarrow> (counter = others + n \<and> counter \<le> limit \<longrightarrow>
     snd r = others + us_cached_directory_count (fst r) \<and> snd r \<le> limit)"

lemma reserve_ok:
  "reserve_cached_directories seen additional limit counter = (ok, counter') \<Longrightarrow>
     counter \<le> limit \<Longrightarrow>
     (if ok then counter' = counter + additional \<and> counter' \<le> limit else counter' = counter)"
  by (induction seen additional limit counter rule: reserve_cached_directories.induct)
    (auto simp: checked_add_Some split: if_splits option.splits)

lemma switch_accounted:
  "accounted limit others (us_cached_directory_count s) counter (switch_to_streaming s counter)"
  by (auto simp: accounted_def switch_to_streaming_def release_cached_directories_def sat_sub_def)

lemma switch_slot_ok: "slot_ok B (fst (switch_to_streaming s counter))"
  by (simp add: switch_to_streaming_def slot_ok_def)

lemma resize_ok:
  assumes "resize_directory_accounting seen limit s n counter = (ok, s', counter')"
  shows "accounted limit others (us_cached_directory_count s) counter (s', counter')
    \<and> (if ok then s' = s\<lparr>us_cached_directory_count := n\<rparr> else slot_ok B s')"
proof -
  let ?old = "us_cached_directory_count s"
  obtain r c1 where r: "reserve_cached_directories seen (n - ?old) limit counter = (r, c1)"
    by fastforce
  show ?thesis
    using assms r reserve_ok [OF r] switch_accounted [of limit others s counter]
      switch_slot_ok [of B s c1]
    by (auto simp: resize_directory_accounting_def Let_def accounted_def
        release_cached_directories_def sat_sub_def split: if_splits)
qed

lemma install_ok:
  assumes "install_cache seen limit s c counter = (ok, s', counter')" "slot_ok B s"
    and "cache_consistent c" "ut_max_cached_directories c \<le> B"
  shows "accounted limit others (us_cached_directory_count s) counter (s', counter')
    \<and> slot_ok B s'"
proof (cases "us_streaming_only s")
  case True
  then show ?thesis using assms(1,2) by (auto simp: install_cache_def accounted_def)
next
  case False
  obtain b s1 c1 where r:
    "resize_directory_accounting seen limit s (directory_count c) counter = (b, s1, c1)"
    by (metis prod_cases3)
  show ?thesis
    using assms(1,3,4) False r resize_ok [OF r, of others B]
    by (cases b) (auto simp: install_cache_def accounted_def slot_ok_def)
qed

lemma account_ok:
  assumes "account_reconciled_cache seen limit s counter = (ok, s', counter')"
    and "us_cache s = Some c" "cache_consistent c" "ut_max_cached_directories c \<le> B"
  shows "accounted limit others (us_cached_directory_count s) counter (s', counter')
    \<and> slot_ok B s'"
  using resize_ok [of seen limit s "directory_count c" counter ok s' counter' others B] assms
  by (auto simp: account_reconciled_cache_def slot_ok_def split: if_splits)

lemma cached_scan_full_ok:
  assumes "cached_scan_full cs obs seen s counter = (r, s', counter')" "slot_ok B s"
    and "cs_per_target_cache_limit cs \<le> B" "cs_global_directory_limit cs = limit"
  shows "accounted limit others (us_cached_directory_count s) counter (s', counter')
    \<and> slot_ok B s'"
proof (cases "scan_full_bounded (so_full obs) (cs_generation cs) (cs_limits cs)
    (cs_per_target_cache_limit cs)")
  case (Inl e)
  then show ?thesis using assms(1,2) by (simp add: cached_scan_full_def accounted_def)
next
  case (Inr b)
  show ?thesis
  proof (cases b)
    case (Cached c)
    obtain ok s1 c1 where i: "install_cache seen limit s c counter = (ok, s1, c1)"
      by (metis prod_cases3)
    have "cache_consistent c" "ut_max_cached_directories c \<le> B"
      using assms(3) Inr Cached by (auto elim: scan_full_bounded_consistent)
    then show ?thesis
      using install_ok [OF i assms(2), of others] assms(1,4) Inr Cached i
      by (cases ok) (auto simp: cached_scan_full_def)
  next
    case DirectoryLimitExceeded
    then show ?thesis
      using assms(1) Inr switch_accounted [of limit others s counter] switch_slot_ok [of B s counter]
      by (auto simp: cached_scan_full_def)
  qed
qed

lemma scan_worker_ok:
  assumes "scan_worker cs obs seen request s counter = (r, s', counter')" "slot_ok B s"
    and "cs_per_target_cache_limit cs \<le> B" "cs_global_directory_limit cs = limit"
  shows "accounted limit others (us_cached_directory_count s) counter (s', counter')
    \<and> slot_ok B s'"
proof -
  have same: ?thesis if "s' = s" "counter' = counter" using that assms(2) by (simp add: accounted_def)
  have full: ?thesis if "cached_scan_full cs obs seen s counter = (r, s', counter')"
    by (rule cached_scan_full_ok [OF that assms(2-4)])
  have part: ?thesis if p: "cached_scan_partial cs obs seen ds s counter = (r, s', counter')" for ds
  proof (cases "us_cache s")
    case None
    then show ?thesis using p full by (simp add: cached_scan_partial_def)
  next
    case (Some c)
    show ?thesis
    proof (cases "reconcile c (so_partial obs) (cs_generation cs) ds (cs_limits cs)")
      case (Inl e)
      then show ?thesis using p Some full same by (cases e) (simp_all add: cached_scan_partial_def)
    next
      case (Inr uc)
      obtain u c' where uc: "uc = (u, c')" by fastforce
      have c: "cache_consistent c" "ut_max_cached_directories c \<le> B"
        using assms(2) Some by (auto simp: slot_ok_def)
      have "ut_max_cached_directories c' = ut_max_cached_directories c"
        by (rule reconcile_Inr [OF c(1) Inr [unfolded uc]]) simp_all
      then have c': "cache_consistent c'" "ut_max_cached_directories c' \<le> B"
        using reconcile_consistent [OF c(1) Inr [unfolded uc]] c(2) by auto
      obtain ok where "account_reconciled_cache seen limit (s\<lparr>us_cache := Some c'\<rparr>) counter
          = (ok, s', counter')"
        using p Some Inr uc assms(4) by (auto simp: cached_scan_partial_def) (metis prod.collapse)
      from account_ok [OF this _ c', of others] show ?thesis by simp
    qed
  qed
  show ?thesis
    using assms(1) same full part
    by (cases request) (auto simp: scan_worker_def split: if_splits)
qed

section \<open>The bound on all caches\<close>

definition slot_sum :: "(nat \<times> usage_tree_slot_state) list \<Rightarrow> nat" where
  "slot_sum slots = (\<Sum>s\<leftarrow>slots. us_cached_directory_count (snd s))"

lemma slot_sum_split:
  assumes "hm_wf slots" "hm_get slots i = Some s"
  shows "slot_sum slots = slot_sum (hm_remove slots i) + us_cached_directory_count s"
    and "slot_sum (hm_insert slots i s') = slot_sum (hm_remove slots i) + us_cached_directory_count s'"
proof -
  have "slot_sum slots = slot_sum (hm_remove slots i) + us_cached_directory_count s
      \<and> slot_sum (hm_insert slots i s')
        = slot_sum (hm_remove slots i) + us_cached_directory_count s'"
    using assms
  proof (induction slots)
    case (Cons a slots)
    obtain j t where a: "a = (j, t)" by fastforce
    have w: "hm_wf slots" "j \<notin> fst ` set slots" using Cons.prems(1) by (auto simp: a hm_wf_def)
    have "AList.delete j slots = slots" using w(2) by (rule delete_id)
    then show ?case
      using Cons.IH [OF w(1)] Cons.prems(2)
      by (auto simp: a hm_get_Cons slot_sum_def hm_insert_def hm_remove_def split: if_splits)
  qed simp
  then show "slot_sum slots = slot_sum (hm_remove slots i) + us_cached_directory_count s"
    "slot_sum (hm_insert slots i s') = slot_sum (hm_remove slots i) + us_cached_directory_count s'"
    by auto
qed

definition limiter_inv :: "usage_limiter \<Rightarrow> bool" where
  "limiter_inv l \<longleftrightarrow> hm_wf (ul_slots l)
     \<and> ul_cached_directories l = slot_sum (ul_slots l)
     \<and> ul_cached_directories l \<le> ul_global_directories l
     \<and> (\<forall>i s. hm_get (ul_slots l) i = Some s \<longrightarrow>
          i < ul_next_slot l \<and> slot_ok (ul_per_target_directories l) s)"

lemma limiter_inv_trees: "limiter_inv (l\<lparr>ul_trees := ts, ul_workers := ws\<rparr>) = limiter_inv l"
  by (simp add: limiter_inv_def)

lemma release_slot_inv:
  assumes "limiter_inv l"
  shows "limiter_inv (release_slot slot l)"
proof (cases "slot_referenced l slot \<or> hm_get (ul_slots l) slot = None")
  case True
  then show ?thesis using assms by (auto simp: release_slot_def)
next
  case False
  then obtain s where s: "hm_get (ul_slots l) slot = Some s" by auto
  have "hm_wf (ul_slots l)" using assms by (simp add: limiter_inv_def)
  note sum = slot_sum_split(1) [OF this s]
  show ?thesis
    using assms False s sum
    by (auto simp: release_slot_def limiter_inv_def slot_drop_def release_cached_directories_def
        sat_sub_def)
qed

lemma new_slot_inv:
  assumes "limiter_inv l"
  shows "limiter_inv (new_usage_tree_state instance_id fingerprint l)"
proof -
  have "hm_get (ul_slots l) (ul_next_slot l) = None"
    using assms by (cases "hm_get (ul_slots l) (ul_next_slot l)") (auto simp: limiter_inv_def)
  then have "slot_sum (hm_insert (ul_slots l) (ul_next_slot l) slot_new) = slot_sum (ul_slots l)"
    by (simp add: hm_insert_new slot_sum_def slot_new_def)
  moreover have "slot_ok B slot_new" for B by (simp add: slot_ok_def slot_new_def)
  ultimately show ?thesis
    using assms by (auto simp: limiter_inv_def new_usage_tree_state_def less_SucI)
qed

lemma usage_tree_slot_inv:
  "limiter_inv l \<Longrightarrow> limiter_inv (snd (usage_tree_slot instance_id fingerprint l))"
  by (auto simp: usage_tree_slot_def intro: release_slot_inv new_slot_inv split: option.split)

lemma run_scan_inv:
  assumes "limiter_inv l"
  shows "limiter_inv (snd (run_scan slot gen limits obs seen request l))"
proof (cases "hm_get (ul_slots l) slot")
  case None
  then show ?thesis using assms by (simp add: run_scan_def)
next
  case (Some s)
  let ?cs = "\<lparr>cs_generation = gen, cs_limits = limits,
      cs_per_target_cache_limit = per_target_cache_limit l limits,
      cs_global_directory_limit = ul_global_directories l\<rparr>"
  obtain r s' c' where r: "scan_worker ?cs obs seen request s (ul_cached_directories l)
      = (r, s', c')" by (metis prod_cases3)
  have wf: "hm_wf (ul_slots l)" and s: "slot_ok (ul_per_target_directories l) s"
    using assms Some by (auto simp: limiter_inv_def)
  have "accounted (ul_global_directories l) (slot_sum (hm_remove (ul_slots l) slot))
      (us_cached_directory_count s) (ul_cached_directories l) (s', c')
    \<and> slot_ok (ul_per_target_directories l) s'"
    by (rule scan_worker_ok [OF r s]) (simp_all add: per_target_cache_limit_def)
  then show ?thesis
    using assms Some r slot_sum_split [OF wf Some]
    by (auto simp: run_scan_def limiter_inv_def accounted_def)
qed

lemma limiter_step_inv:
  assumes "limiter_inv l" "limiter_step l l'"
  shows "limiter_inv l'"
  using assms(2)
proof cases
  case (step_start instance_id fingerprint)
  then show ?thesis
    using usage_tree_slot_inv [OF assms(1), of instance_id fingerprint]
    by (auto simp: start_scan_def limiter_inv_def Let_def split: prod.split)
next
  case (step_finish slot)
  have "limiter_inv (l\<lparr>ul_workers := remove1 slot (ul_workers l)\<rparr>)"
    using assms(1) by (simp add: limiter_inv_def)
  then show ?thesis using step_finish by (simp add: finish_scan_def release_slot_inv)
next
  case (step_evict instance_id)
  have "limiter_inv (l\<lparr>ul_trees := hm_remove (ul_trees l) instance_id\<rparr>)"
    using assms(1) by (simp add: limiter_inv_def)
  then show ?thesis
    using assms(1) step_evict by (auto simp: evict_usage_cache_def release_slot_inv split: option.split)
qed (use assms(1) run_scan_inv in auto)

lemma limiter_init_inv: "limiter_init l \<Longrightarrow> limiter_inv l"
  by (auto simp: limiter_init_def limiter_new_def limiter_inv_def slot_sum_def)

interpretation usage_books: step_invariant limiter_init limiter_step limiter_inv
  by unfold_locales (auto intro: limiter_init_inv limiter_step_inv)

definition cached_directories_of :: "usage_tree_slot_state \<Rightarrow> nat" where
  "cached_directories_of s = (case us_cache s of None \<Rightarrow> 0 | Some c \<Rightarrow> directory_count c)"

text \<open>C12: whatever scans run concurrently, however targets are replaced and evicted meanwhile and
  however outdated the values are with which a reservation was attempted, the caches of all slots
  that are still alive together never hold more directories than the global bound, no single one
  holds more than the bound per target, and the shared counter is exactly their sum.\<close>

theorem usage_cache_bounded:
  assumes "reach limiter_init limiter_step l"
  shows "(\<Sum>(i, s)\<leftarrow>ul_slots l. cached_directories_of s) = ul_cached_directories l
    \<and> ul_cached_directories l \<le> ul_global_directories l
    \<and> (\<forall>(i, s)\<in>set (ul_slots l). cached_directories_of s \<le> ul_per_target_directories l)"
proof -
  have inv: "limiter_inv l" by (rule usage_books.reach_inv [OF assms])
  then have ok: "slot_ok (ul_per_target_directories l) s" if "(i, s) \<in> set (ul_slots l)" for i s
    using that hm_get_set [of "ul_slots l" i s] by (auto simp: limiter_inv_def)
  have count: "cached_directories_of s = us_cached_directory_count s"
    if "(i, s) \<in> set (ul_slots l)" for i s
    using ok [OF that] by (simp add: slot_ok_def cached_directories_of_def)
  then have "(\<Sum>(i, s)\<leftarrow>ul_slots l. cached_directories_of s) = slot_sum (ul_slots l)"
    unfolding slot_sum_def by (intro arg_cong [where f = sum_list]) auto
  moreover have "cached_directories_of s \<le> ul_per_target_directories l"
    if "(i, s) \<in> set (ul_slots l)" for i s
    using ok [OF that]
    by (force simp: slot_ok_def cached_directories_of_def cache_consistent_def split: option.split)
  ultimately show ?thesis using inv by (auto simp: limiter_inv_def)
qed

definition example_fingerprint :: target_fingerprint where
  "example_fingerprint = \<lparr>tf_created_at = ''t'', tf_protocol = Postgres, tf_data_path = ''/d'',
     tf_limit_bytes = 1000000\<rparr>"

definition example_scan_observation :: scan_observation where
  "example_scan_observation = \<lparr>so_full = example_root example_before,
     so_streaming = example_root example_before,
     so_partial = stable_observation (example_stat Directory 2 8 4096) (Listing example_after)\<rparr>"

theorem usage_cache_bounded_witness:
  "\<exists>l. reach limiter_init limiter_step l \<and> ul_cached_directories l = 3
    \<and> ul_global_directories l = 10
    \<and> (\<Sum>(i, s)\<leftarrow>ul_slots l. cached_directories_of s) = 3"
proof -
  define l0 where "l0 = snd (start_scan ''i'' example_fingerprint (limiter_new 10 8))"
  define l1 where "l1 = snd (run_scan 0 ''g'' example_limits example_scan_observation [4]
    RequestFull l0)"
  have l0: "ul_slots l0 = [(0, slot_new)]" "ul_workers l0 = [0]" "ul_cached_directories l0 = 0"
    "ul_global_directories l0 = 10" "ul_per_target_directories l0 = 8"
    by (simp_all add: l0_def start_scan_def usage_tree_slot_def limiter_new_def
        new_usage_tree_state_def hm_insert_def)
  have "reach limiter_init limiter_step (limiter_new 10 8)"
    by (rule reach_init) (auto simp: limiter_init_def)
  then have "reach limiter_init limiter_step l0"
    unfolding l0_def by (rule reach_step) (rule step_start)
  then have r: "reach limiter_init limiter_step l1"
    unfolding l1_def by (rule reach_step) (rule step_run, simp add: l0)
  have "per_target_cache_limit l0 example_limits = 8"
    by (simp add: per_target_cache_limit_def l0 example_limits_def sat_add_def)
  then have "ul_cached_directories l1 = 3" "ul_global_directories l1 = 10"
    by (simp_all add: l1_def run_scan_def l0 hm_get_Cons scan_worker_def slot_new_def
        cached_scan_full_def example_scan_observation_def example_scan_before install_cache_def
        directory_count_def example_cache_def resize_directory_accounting_def checked_add_def)
  then show ?thesis using usage_cache_bounded [OF r] r by auto
qed

end
