(* ===== verification/SoftLimiterProps.thy ===== *)
theory SoftLimiterProps
  imports SoftLimiter UsageCacheProps
begin

text \<open>
  What the soft disk limiter promises, whatever the measured growth and however floating-point
  operations round: usage at the limit always leads to a stop, a stop needs usage near the limit,
  a block has hysteresis, and a usage that cannot be measured is treated like an exceeded one.
\<close>

section \<open>Thresholds\<close>

lemma safety_reserve_le: "safety_reserve_bytes fp config protocol limit growth \<le> limit div 5"
  by (simp add: safety_reserve_bytes_def Let_def)

lemma thresholds_bounds:
  assumes "thresholds fp config protocol limit growth = (stop, recovery)"
  shows "limit - limit div 5 \<le> stop" "stop \<le> limit"
    "recovery \<le> stop - max (limit div 20) 1"
proof -
  obtain reserve where r: "reserve \<le> limit div 5" "stop = limit - reserve"
    "recovery \<le> stop - max (limit div 20) 1"
    using assms safety_reserve_le [of fp config protocol limit growth]
    unfolding thresholds_def Let_def sat_sub_def prod.inject
    by (metis min.cobounded2)
  then show "limit - limit div 5 \<le> stop" "stop \<le> limit"
    "recovery \<le> stop - max (limit div 20) 1"
    using diff_le_mono2 [OF r(1), of limit] by simp_all
qed

text \<open>Whether the target was blocked before a sample.\<close>

definition was_blocked :: "soft_disk_target \<Rightarrow> soft_disk_limiter \<Rightarrow> bool" where
  "was_blocked target l \<longleftrightarrow> tg_durable_blocked target
     \<or> (\<exists>s. limiter_snapshot target l = Some s \<and> sn_blocked s)"

lemma record_sample_snapshot:
  assumes "record_sample fp config target usage now l = (d, l')"
  shows "limiter_snapshot target l' = Some (dc_snapshot d)"
  using assms
  by (auto simp: record_sample_def Let_def limiter_snapshot_def previous_state_def
      split: prod.splits)

lemma record_sample_decision:
  assumes "record_sample fp config target usage now l = (d, l')"
  obtains growth where
    "thresholds fp config (tg_protocol target) (tg_limit_bytes target) growth
      = (sn_stop_threshold_bytes (dc_snapshot d), sn_recovery_threshold_bytes (dc_snapshot d))"
    "sn_usage (dc_snapshot d) = usage"
    "dc_recovered d \<longleftrightarrow> was_blocked target l
      \<and> physical_bytes usage < sn_recovery_threshold_bytes (dc_snapshot d)"
    "sn_blocked (dc_snapshot d) \<longleftrightarrow> (if was_blocked target l
      then sn_recovery_threshold_bytes (dc_snapshot d) \<le> physical_bytes usage
      else sn_stop_threshold_bytes (dc_snapshot d) \<le> physical_bytes usage)"
    "dc_must_stop d \<or> dc_already_blocked d \<longleftrightarrow> sn_blocked (dc_snapshot d)"
proof -
  have was: "was_blocked target l \<longleftrightarrow> tg_durable_blocked target
      \<or> (case previous_state l target of None \<Rightarrow> False | Some s \<Rightarrow> sn_blocked (tk_snapshot s))"
    by (auto simp: was_blocked_def limiter_snapshot_def split: option.splits)
  let ?g = "growth_rate fp (previous_state l target) (physical_bytes usage) now
      (max (cf_scan_interval_seconds config) 1 * 1000000000)"
  obtain stop recovery where t:
    "thresholds fp config (tg_protocol target) (tg_limit_bytes target) ?g = (stop, recovery)"
    by fastforce
  have s: "sn_stop_threshold_bytes (dc_snapshot d) = stop"
    "sn_recovery_threshold_bytes (dc_snapshot d) = recovery" "sn_usage (dc_snapshot d) = usage"
    "dc_recovered d \<longleftrightarrow> was_blocked target l \<and> physical_bytes usage < recovery"
    "sn_blocked (dc_snapshot d) \<longleftrightarrow> (if dc_recovered d then False
      else was_blocked target l \<or> stop \<le> physical_bytes usage)"
    "dc_must_stop d \<longleftrightarrow> \<not> was_blocked target l \<and> sn_blocked (dc_snapshot d)"
    "dc_already_blocked d \<longleftrightarrow> was_blocked target l \<and> \<not> dc_recovered d"
    using assms by (simp_all only: record_sample_def Let_def t was prod.inject prod.case) auto
  show thesis
    by (rule that [of ?g]) (use s t in auto)
qed

section \<open>Measured usage\<close>

lemma measured_scan:
  assumes "scan_hybrid_and_enforce sha fp config rt target request env now l = (r, calls, l')"
    and "fst (scan_hybrid sha config target request env (lm_usage l))
      = Inr (usage, performed, identity)"
  shows "\<exists>u r1. enforce_measured_usage fp config rt target usage now
      (forget_scan_failures target (l\<lparr>lm_usage := u\<rparr>)) = (r1, calls, l')"
  using assms
  by (cases "scan_hybrid sha config target request env (lm_usage l)")
    (auto simp: scan_hybrid_and_enforce_def scan_with_def enforce_scan_def Let_def split: prod.splits)

lemma was_blocked_forget:
  "was_blocked target (forget_scan_failures target (l\<lparr>lm_usage := u\<rparr>)) = was_blocked target l"
  by (simp add: was_blocked_def limiter_snapshot_def previous_state_def forget_scan_failures_def)

lemma block_decision:
  assumes "scan_hybrid_and_enforce sha fp config rt target request env now l = (r, calls, l')"
    and "fst (scan_hybrid sha config target request env (lm_usage l))
      = Inr (usage, performed, identity)"
  shows "\<exists>s. limiter_snapshot target l' = Some s \<and> sn_usage s = usage
    \<and> (sn_blocked s \<longleftrightarrow> (if was_blocked target l
        then sn_recovery_threshold_bytes s \<le> physical_bytes usage
        else sn_stop_threshold_bytes s \<le> physical_bytes usage))
    \<and> tg_limit_bytes target - tg_limit_bytes target div 5 \<le> sn_stop_threshold_bytes s
    \<and> sn_stop_threshold_bytes s \<le> tg_limit_bytes target
    \<and> sn_recovery_threshold_bytes s
        \<le> sn_stop_threshold_bytes s - max (tg_limit_bytes target div 20) 1"
proof -
  obtain u d l1 r1 where d: "record_sample fp config target usage now
      (forget_scan_failures target (l\<lparr>lm_usage := u\<rparr>)) = (d, l1)"
    "enforce_measured_usage fp config rt target usage now
      (forget_scan_failures target (l\<lparr>lm_usage := u\<rparr>)) = (r1, calls, l')"
    using measured_scan [OF assms] by (metis surj_pair)
  have l': "l' = l1"
    using d by (auto simp: enforce_measured_usage_def Let_def split: if_splits prod.splits)
  show ?thesis
  proof (rule record_sample_decision [OF d(1)])
    fix growth assume g: "thresholds fp config (tg_protocol target) (tg_limit_bytes target) growth
        = (sn_stop_threshold_bytes (dc_snapshot d), sn_recovery_threshold_bytes (dc_snapshot d))"
      "sn_usage (dc_snapshot d) = usage"
      "sn_blocked (dc_snapshot d) \<longleftrightarrow> (if was_blocked target
          (forget_scan_failures target (l\<lparr>lm_usage := u\<rparr>))
        then sn_recovery_threshold_bytes (dc_snapshot d) \<le> physical_bytes usage
        else sn_stop_threshold_bytes (dc_snapshot d) \<le> physical_bytes usage)"
    show ?thesis
      by (rule exI [where x = "dc_snapshot d"])
        (intro conjI thresholds_bounds [OF g(1)] g(2) g(3) [unfolded was_blocked_forget]
          record_sample_snapshot [OF d(1), folded l'])
  qed
qed

text \<open>C25: the decision about a measured usage has hysteresis.  After the sample the target is blocked
  exactly if its physical usage has reached the stop threshold or, when it was blocked before, has
  not fallen below the recovery threshold.  For every growth rate the stop threshold lies between
  four fifths of the limit and the limit, and the recovery threshold is below it by at least a
  twentieth of the limit, so a recovered target is not stopped again by the same usage.\<close>

theorem block_hysteresis:
  assumes "scan_hybrid_and_enforce sha fp config rt target request env now l = (r, calls, l')"
    and "fst (scan_hybrid sha config target request env (lm_usage l))
      = Inr (usage, performed, identity)"
  shows "\<exists>s. limiter_snapshot target l' = Some s \<and> sn_usage s = usage
    \<and> (sn_blocked s \<longleftrightarrow> (if was_blocked target l
        then sn_recovery_threshold_bytes s \<le> physical_bytes usage
        else sn_stop_threshold_bytes s \<le> physical_bytes usage))
    \<and> tg_limit_bytes target - tg_limit_bytes target div 5 \<le> sn_stop_threshold_bytes s
    \<and> sn_stop_threshold_bytes s \<le> tg_limit_bytes target
    \<and> sn_recovery_threshold_bytes s
        \<le> sn_stop_threshold_bytes s - max (tg_limit_bytes target div 20) 1"
  by (rule block_decision [OF assms])

text \<open>The calls that a request to stop a target leads to.\<close>

definition stop_calls ::
  "soft_disk_scanner_config \<Rightarrow> soft_disk_runtime \<Rightarrow> soft_disk_target \<Rightarrow> soft_disk_limit_exceeded \<Rightarrow>
    runtime_call list" where
  "stop_calls config rt target exceeded =
     PersistDiskBlock target exceeded #
     (if rt_persist_disk_block rt target exceeded = Inr True
      then GracefulStop target (shutdown_grace config) #
        (if rt_graceful_stop rt target (shutdown_grace config) = GracefulOk then []
         else [ForceKill target])
      else [])"

lemma stop_exceeded_calls:
  "snd (stop_exceeded config rt target s reason)
    = stop_calls config rt target \<lparr>le_snapshot = s, le_reason = reason\<rparr>"
  by (auto simp: stop_exceeded_def enforce_disk_stop_def stop_calls_def stop_with_kill_fallback_def
      Let_def split: sum.split graceful_answer.split prod.split)

lemma enforce_measured_usage_blocked:
  assumes "enforce_measured_usage fp config rt target usage now l = (r, calls, l')"
    and "limiter_snapshot target l' = Some s" "sn_blocked s"
  shows "(r, calls) = stop_exceeded config rt target s UsageThreshold"
proof -
  obtain d l1 where d: "record_sample fp config target usage now l = (d, l1)" by fastforce
  have l': "l' = l1"
    using assms(1) d by (auto simp: enforce_measured_usage_def Let_def split: if_splits prod.splits)
  then have s: "dc_snapshot d = s" using record_sample_snapshot [OF d] assms(2) by simp
  have "dc_must_stop d \<or> dc_already_blocked d" "\<not> dc_recovered d"
    by (rule record_sample_decision [OF d]; use s assms(3) in \<open>auto split: if_splits\<close>)+
  then show ?thesis
    using assms(1) d s
    by (auto simp: enforce_measured_usage_def Let_def split: prod.splits)
qed

text \<open>C7: a target whose measured physical usage has reached its limit is always stopped: whatever was
  recorded before, whatever the growth and the rounding, the scan asks the runtime to persist the
  block; when that is done it asks to stop the instance, and to kill it when it did not stop in
  time.  The target stays recorded as blocked even if the runtime fails, so the next scan asks
  again.\<close>

theorem limit_enforced:
  assumes "scan_hybrid_and_enforce sha fp config rt target request env now l = (r, calls, l')"
    and "fst (scan_hybrid sha config target request env (lm_usage l))
      = Inr (usage, performed, identity)"
    and "tg_limit_bytes target \<le> physical_bytes usage"
  shows "\<exists>s. limiter_snapshot target l' = Some s \<and> sn_blocked s
    \<and> calls = stop_calls config rt target \<lparr>le_snapshot = s, le_reason = UsageThreshold\<rparr>"
proof -
  obtain s where b: "limiter_snapshot target l' = Some s"
    "sn_blocked s \<longleftrightarrow> (if was_blocked target l
        then sn_recovery_threshold_bytes s \<le> physical_bytes usage
        else sn_stop_threshold_bytes s \<le> physical_bytes usage)"
    "sn_stop_threshold_bytes s \<le> tg_limit_bytes target"
    "sn_recovery_threshold_bytes s
      \<le> sn_stop_threshold_bytes s - max (tg_limit_bytes target div 20) 1"
    using block_decision [OF assms(1,2)] by blast
  have "sn_recovery_threshold_bytes s \<le> sn_stop_threshold_bytes s"
    by (rule le_trans [OF b(4) diff_le_self])
  then have s: "limiter_snapshot target l' = Some s" "sn_blocked s" using b assms(3) by auto
  obtain u r1 where "enforce_measured_usage fp config rt target usage now
      (forget_scan_failures target (l\<lparr>lm_usage := u\<rparr>)) = (r1, calls, l')"
    using measured_scan [OF assms(1,2)] by blast
  from enforce_measured_usage_blocked [OF this s] stop_exceeded_calls [of config rt target s]
  show ?thesis using s by (metis snd_conv)
qed

section \<open>Usage that cannot be measured\<close>

text \<open>The operations of the daemon on the limiter, for any number of targets.\<close>

datatype limiter_op =
    ScanOp soft_disk_runtime soft_disk_target hybrid_scan_request scan_environment nat
  | StartOp soft_disk_target scan_environment nat
  | RemoveOp string
  | EvictOp string

fun apply_op ::
  "(byte list \<Rightarrow> string) \<Rightarrow> floats \<Rightarrow> soft_disk_scanner_config \<Rightarrow> limiter_op \<Rightarrow> soft_disk_limiter \<Rightarrow>
    soft_disk_limiter" where
  "apply_op sha fp config (ScanOp rt target request env now) l =
     snd (snd (scan_hybrid_and_enforce sha fp config rt target request env now l))"
| "apply_op sha fp config (StartOp target env now) l =
     snd (ensure_start_allowed sha fp config target env now l)"
| "apply_op sha fp config (RemoveOp instance_id) l = remove_target instance_id l"
| "apply_op sha fp config (EvictOp instance_id) l = evict_target instance_id l"

fun resets :: "soft_disk_target \<Rightarrow> limiter_op \<Rightarrow> bool" where
  "resets target (ScanOp rt t request env now) \<longleftrightarrow> tg_instance_id t = tg_instance_id target"
| "resets target (StartOp t env now) \<longleftrightarrow> tg_instance_id t = tg_instance_id target"
| "resets target (RemoveOp instance_id) \<longleftrightarrow> instance_id = tg_instance_id target"
| "resets target (EvictOp instance_id) \<longleftrightarrow> False"

definition failed_scan_of ::
  "(byte list \<Rightarrow> string) \<Rightarrow> soft_disk_scanner_config \<Rightarrow> soft_disk_target \<Rightarrow> limiter_op \<Rightarrow>
    soft_disk_limiter \<Rightarrow> bool" where
  "failed_scan_of sha config target op l \<longleftrightarrow> (\<exists>rt t request env now e.
     op = ScanOp rt t request env now \<and> tg_instance_id t = tg_instance_id target
     \<and> target_fingerprint_of t = target_fingerprint_of target
     \<and> fst (scan_hybrid sha config t request env (lm_usage l)) = Inl (Measurement e))"

text \<open>A sequence of operations in which everything that concerns the target is a failing scan.\<close>

fun only_failures ::
  "(byte list \<Rightarrow> string) \<Rightarrow> floats \<Rightarrow> soft_disk_scanner_config \<Rightarrow> soft_disk_target \<Rightarrow> limiter_op list \<Rightarrow>
    soft_disk_limiter \<Rightarrow> bool" where
  "only_failures sha fp config target [] l \<longleftrightarrow> True"
| "only_failures sha fp config target (op # ops) l \<longleftrightarrow>
     (resets target op \<longrightarrow> failed_scan_of sha config target op l)
     \<and> only_failures sha fp config target ops (apply_op sha fp config op l)"

definition failures_of :: "soft_disk_target \<Rightarrow> soft_disk_limiter \<Rightarrow> nat" where
  "failures_of target l = (case hm_get (lm_scan_failures l) (tg_instance_id target) of
     None \<Rightarrow> 0
   | Some f \<Rightarrow> if fl_target f \<noteq> target_fingerprint_of target then 0 else fl_consecutive f)"

lemma record_failure:
  assumes "record_target_scan_failure target l = (n, l')"
  shows "n = min (failures_of target l + 1) 255"
    and "tg_instance_id t = tg_instance_id target \<Longrightarrow>
      target_fingerprint_of t = target_fingerprint_of target \<Longrightarrow> failures_of t l' = n"
    and "tg_instance_id t \<noteq> tg_instance_id target \<Longrightarrow> failures_of t l' = failures_of t l"
  using assms
  by (auto simp: record_target_scan_failure_def Let_def failures_of_def)

lemma failures_of_usage [simp]: "failures_of t (l\<lparr>lm_usage := u\<rparr>) = failures_of t l"
  by (simp add: failures_of_def)

lemma failures_sample [simp]:
  "failures_of t (snd (record_sample fp config target usage now l)) = failures_of t l"
  by (simp add: record_sample_def Let_def failures_of_def case_prod_beta)

lemma failures_blocked [simp]:
  "failures_of t (snd (blocked_scan_snapshot fp config target now l)) = failures_of t l"
  by (simp add: blocked_scan_snapshot_def Let_def failures_of_def case_prod_beta)

lemma failures_measured [simp]:
  "failures_of t (snd (snd (enforce_measured_usage fp config rt target usage now l)))
    = failures_of t l"
  using failures_sample [of t fp config target usage now l]
  by (simp add: enforce_measured_usage_def Let_def case_prod_beta)

lemma failures_outage [simp]:
  "failures_of t (snd (snd (enforce_capacity_outage fp config rt target e now l)))
    = failures_of t l"
  using failures_blocked [of t fp config target now
      "l\<lparr>lm_capacity_outage_failures := min (lm_capacity_outage_failures l + 1) 255\<rparr>"]
  by (simp add: enforce_capacity_outage_def Let_def case_prod_beta failures_of_def)

lemma failures_unmeasurable [simp]:
  "failures_of t (snd (snd (enforce_unmeasurable fp config rt target e now l)))
    = failures_of t (snd (record_target_scan_failure target l))"
  using failures_blocked [of t fp config target now "snd (record_target_scan_failure target l)"]
  by (simp add: enforce_unmeasurable_def Let_def case_prod_beta)

lemma forget_other: "tg_instance_id t \<noteq> tg_instance_id target \<Longrightarrow>
    failures_of t (forget_scan_failures target l) = failures_of t l"
  by (simp add: forget_scan_failures_def failures_of_def)

lemma enforce_scan_other:
  assumes "tg_instance_id t \<noteq> tg_instance_id target"
  shows "failures_of t (snd (snd (enforce_scan fp config rt target measured now l)))
    = failures_of t l"
  using assms record_failure(3) [of target l "fst (record_target_scan_failure target l)"
      "snd (record_target_scan_failure target l)" t]
  by (auto simp: enforce_scan_def case_prod_beta forget_other split: sum.split scan_failure.split)

lemma admit_start_other:
  assumes "tg_instance_id t \<noteq> tg_instance_id target"
  shows "failures_of t (snd (admit_start fp config target measured now l)) = failures_of t l"
  using assms by (auto simp: admit_start_def Let_def case_prod_beta forget_other split: sum.split)

lemma apply_op_other:
  assumes "\<not> resets target op"
  shows "failures_of target (apply_op sha fp config op l) = failures_of target l"
proof (cases op)
  case (ScanOp rt t request env now)
  then show ?thesis
    using assms enforce_scan_other [of target t]
    by (auto simp: scan_hybrid_and_enforce_def scan_with_def Let_def case_prod_beta)
next
  case (StartOp t env now)
  then show ?thesis
    using assms admit_start_other [of target t]
    by (auto simp: ensure_start_allowed_def scan_with_def evict_target_def Let_def case_prod_beta)
next
  case (RemoveOp i)
  then show ?thesis using assms by (simp add: remove_target_def evict_target_def failures_of_def)
qed (simp add: evict_target_def)

lemma apply_op_failed:
  assumes "failed_scan_of sha config target op l"
  shows "failures_of target (apply_op sha fp config op l) = min (failures_of target l + 1) 255"
proof -
  obtain rt t request env now e where op: "op = ScanOp rt t request env now"
    "tg_instance_id t = tg_instance_id target"
    "target_fingerprint_of t = target_fingerprint_of target"
    "fst (scan_hybrid sha config t request env (lm_usage l)) = Inl (Measurement e)"
    using assms by (auto simp: failed_scan_of_def)
  obtain u where u: "scan_hybrid sha config t request env (lm_usage l) = (Inl (Measurement e), u)"
    using op(4) by (cases "scan_hybrid sha config t request env (lm_usage l)") auto
  obtain n l1 where r: "record_target_scan_failure t (l\<lparr>lm_usage := u\<rparr>) = (n, l1)" by fastforce
  have "failures_of target (apply_op sha fp config op l) = failures_of target l1"
    using failures_unmeasurable [of target fp config rt t e now "l\<lparr>lm_usage := u\<rparr>"] r
    by (simp add: op(1) u scan_hybrid_and_enforce_def scan_with_def enforce_scan_def case_prod_beta)
  moreover have "failures_of t l = failures_of target l" unfolding failures_of_def op(2,3) ..
  ultimately show ?thesis
    using record_failure(1) [OF r] record_failure(2) [OF r, of target] op by simp
qed

lemma fold_ops_failures:
  assumes "only_failures sha fp config target ops l"
  shows "min (length (filter (resets target) ops)) 255
    \<le> failures_of target (fold (apply_op sha fp config) ops l)"
proof -
  have "min (n + length (filter (resets target) ops)) 255
      \<le> failures_of target (fold (apply_op sha fp config) ops l)"
    if "n \<le> failures_of target l \<or> 255 \<le> failures_of target l" for n
    using assms that
  proof (induction ops arbitrary: n l)
    case (Cons op ops)
    have f: "failures_of target (apply_op sha fp config op l)
        = (if resets target op then min (failures_of target l + 1) 255 else failures_of target l)"
      using Cons.prems(1) by (auto simp: apply_op_failed apply_op_other)
    have "(if resets target op then n + 1 else n) \<le> failures_of target (apply_op sha fp config op l)
        \<or> 255 \<le> failures_of target (apply_op sha fp config op l)"
      using Cons.prems(2) unfolding f by (cases "resets target op") auto
    from Cons.IH [OF _ this] Cons.prems(1) show ?case by (cases "resets target op") simp_all
  qed auto
  from this [of 0] show ?thesis by simp
qed


section \<open>The usage cache under the operations\<close>

lemma scan_cache_reach:
  assumes "reach limiter_init limiter_step u" "scan_cache config target request u = (cache, u')"
  shows "reach limiter_init limiter_step u' \<and> (\<forall>slot. cache = Some slot \<longrightarrow> slot \<in> set (ul_workers u'))"
proof (cases "cache_allowed config target request")
  case True
  then have "u' = snd (start_scan (tg_instance_id target) (target_fingerprint_of target) u)"
    "\<forall>slot. cache = Some slot \<longrightarrow> slot \<in> set (ul_workers u')"
    using assms(2) by (auto simp: scan_cache_def start_scan_def Let_def case_prod_beta)
  then show ?thesis using reach_step [OF assms(1) step_start] by simp
next
  case False
  then show ?thesis
    using assms reach_step [OF assms(1) step_evict] by (auto simp: scan_cache_def)
qed

lemma finish_scan_reach:
  "reach limiter_init limiter_step u \<Longrightarrow> slot \<in> set (ul_workers u) \<Longrightarrow>
    reach limiter_init limiter_step (finish_scan slot u)"
  by (blast intro: reach_step step_finish)

lemma spawn_worker_reach:
  assumes "reach limiter_init limiter_step u" "\<forall>slot. cache = Some slot \<longrightarrow> slot \<in> set (ul_workers u)"
  shows "reach limiter_init limiter_step (snd (spawn_worker cache generation limits env request u))"
proof (cases cache)
  case (Some slot)
  let ?u = "snd (run_scan slot generation limits (se_observation env) (se_seen env) request u)"
  have "reach limiter_init limiter_step ?u"
    by (rule reach_step [OF assms(1) step_run]) (use assms(2) Some in simp)
  moreover have "slot \<in> set (ul_workers ?u)"
    using assms(2) Some by (simp add: run_scan_def Let_def case_prod_beta split: option.split)
  ultimately show ?thesis
    using Some by (simp add: spawn_worker_def Let_def case_prod_beta finish_scan_reach)
qed (simp add: spawn_worker_def assms(1))

lemma scan_hybrid_reach:
  assumes "reach limiter_init limiter_step u"
  shows "reach limiter_init limiter_step (snd (scan_hybrid sha config target request env u))"
proof -
  obtain cache u1 where c: "scan_cache config target request u = (cache, u1)" by fastforce
  note r = scan_cache_reach [OF assms c]
  show ?thesis
    using assms r spawn_worker_reach [of u1 cache] finish_scan_reach [of u1]
    by (simp add: scan_hybrid_def Let_def c case_prod_beta split: permit_answer.split
        worker_answer.split option.split)
qed

lemma usage_unchanged [simp]:
  "lm_usage (forget_scan_failures target l) = lm_usage l"
  "lm_usage (snd (record_sample fp config target usage now l)) = lm_usage l"
  "lm_usage (snd (blocked_scan_snapshot fp config target now l)) = lm_usage l"
  "lm_usage (snd (record_target_scan_failure target l)) = lm_usage l"
  by (simp_all add: forget_scan_failures_def record_sample_def blocked_scan_snapshot_def
      record_target_scan_failure_def Let_def case_prod_beta)

lemma enforce_scan_usage [simp]:
  "lm_usage (snd (snd (enforce_scan fp config rt target measured now l))) = lm_usage l"
  by (auto simp: enforce_scan_def enforce_measured_usage_def enforce_unmeasurable_def
      enforce_capacity_outage_def Let_def case_prod_beta split: sum.split scan_failure.split)

lemma admit_start_usage [simp]:
  "lm_usage (snd (admit_start fp config target measured now l)) = lm_usage l"
  by (auto simp: admit_start_def Let_def case_prod_beta split: sum.split)

lemma apply_op_reach:
  assumes "reach limiter_init limiter_step (lm_usage l)"
  shows "reach limiter_init limiter_step (lm_usage (apply_op sha fp config op l))"
proof (cases op)
  case (ScanOp rt t request env now)
  then show ?thesis
    using scan_hybrid_reach [OF assms]
    by (simp add: scan_hybrid_and_enforce_def scan_with_def Let_def case_prod_beta)
next
  case (StartOp t env now)
  then show ?thesis
    using reach_step [OF scan_hybrid_reach [OF assms] step_evict]
    by (simp add: ensure_start_allowed_def scan_with_def evict_target_def Let_def case_prod_beta)
qed (use reach_step [OF assms step_evict] in \<open>simp_all add: remove_target_def evict_target_def\<close>)

text \<open>Every sequence of operations of a limiter keeps its usage cache a reachable one.\<close>

lemma operations_reach:
  "reach limiter_init limiter_step
    (lm_usage (fold (apply_op sha fp config) ops (soft_limiter_new config)))"
proof (induction ops rule: rev_induct)
  case Nil
  show ?case by (rule reach_init) (auto simp: limiter_init_def soft_limiter_new_def)
qed (simp add: apply_op_reach)

section \<open>Fingerprints and messages\<close>

lemma le_bytes_8_inject:
  assumes "le_bytes 8 m = le_bytes 8 n" "m \<le> u64_max" "n \<le> u64_max"
  shows "m = n"
proof -
  have "m < 256 ^ 8" "n < 256 ^ 8" using assms(2,3) by simp_all
  from le_nat_bytes [OF this(1)] le_nat_bytes [OF this(2)] show ?thesis
    unfolding assms(1) by simp
qed

lemma length_prefixed_inject:
  assumes "length_prefixed cs = length_prefixed ds" "length cs = length ds"
    and "\<forall>c\<in>set cs. length c \<le> u64_max" "\<forall>d\<in>set ds. length d \<le> u64_max"
  shows "cs = ds"
  using assms(2,1,3,4)
proof (induction cs ds rule: list_induct2)
  case (Cons c cs d ds)
  have "le_bytes 8 (length c) = le_bytes 8 (length d)"
    and rest: "c @ length_prefixed cs = d @ length_prefixed ds"
    using Cons.prems(1) by (simp_all add: append_eq_append_conv del: le_bytes.simps)
  then have "length c = length d"
    using Cons.prems(2,3) by (intro le_bytes_8_inject) simp_all
  then show ?case using Cons.IH Cons.prems(2,3) rest by simp
qed simp

lemma of_char_byte_inject: "(of_char c :: byte) = of_char d \<longleftrightarrow> c = d"
proof -
  have "unat (of_char c :: byte) = of_char c" for c
  proof -
    have "(of_char c :: byte) = of_nat (of_char c)" by (simp add: of_nat_of_char)
    moreover have "(of_char c :: nat) < 256" by (rule nat_of_char_less_256)
    ultimately show ?thesis by (simp add: unat_of_nat)
  qed
  then show ?thesis by (metis of_char_eq_iff)
qed

lemma ascii_inject: "ascii s = ascii t \<longleftrightarrow> s = t"
  unfolding ascii_def by (intro inj_map_eq_map injI) (simp add: of_char_byte_inject)

text \<open>
  The fingerprint with which a scan is labelled separates any two generations of a target: two
  targets with different fingerprints of \<open>cache.rs\<close> are digested from different bytes.
\<close>

lemma scanner_fingerprint_separates:
  assumes "scanner_fingerprint sha s = scanner_fingerprint sha t"
    and "\<And>x y. sha x = sha y \<Longrightarrow> x = y"
    and "length (tg_created_at s) \<le> u64_max" "length (tg_created_at t) \<le> u64_max"
    and "length (tg_data_path s) \<le> u64_max" "length (tg_data_path t) \<le> u64_max"
    and "tg_limit_bytes s \<le> u64_max" "tg_limit_bytes t \<le> u64_max"
  shows "target_fingerprint_of s = target_fingerprint_of t"
proof -
  have p: "length (as_str p) \<le> u64_max" for p by (cases p) simp_all
  have "[ascii (tg_created_at s), ascii (as_str (tg_protocol s)), ascii (tg_data_path s),
      le_bytes 8 (tg_limit_bytes s)] = [ascii (tg_created_at t), ascii (as_str (tg_protocol t)),
      ascii (tg_data_path t), le_bytes 8 (tg_limit_bytes t)]"
    by (rule length_prefixed_inject [OF assms(2) [OF assms(1) [unfolded scanner_fingerprint_def]]])
      (use assms(3-) p in \<open>simp_all add: ascii_def del: le_bytes.simps\<close>)
  then have "tg_created_at s = tg_created_at t" "as_str (tg_protocol s) = as_str (tg_protocol t)"
    "tg_data_path s = tg_data_path t" and l: "le_bytes 8 (tg_limit_bytes s) = le_bytes 8 (tg_limit_bytes t)"
    by (simp_all add: ascii_inject del: le_bytes.simps)
  moreover have "tg_limit_bytes s = tg_limit_bytes t"
    by (rule le_bytes_8_inject [OF l assms(7,8)])
  moreover have "tg_protocol s = tg_protocol t"
    using calculation(2) by (metis protocol_roundtrip sum.inject(2))
  ultimately show ?thesis by (simp add: target_fingerprint_of_def)
qed

text \<open>An error that reports a scanner without capacity is recognised by its text.\<close>

lemma capacity_failure_named:
  "is_capacity_outage (failure_message (Capacity e))"
  "fst (enforce_capacity_outage fp config rt target e now l) = Inl m \<Longrightarrow>
    fst (snd (enforce_capacity_outage fp config rt target e now l)) = [] \<Longrightarrow> is_capacity_outage m"
  by (auto simp: is_capacity_outage_def failure_message_def enforce_capacity_outage_def Let_def
      case_prod_beta stop_exceeded_calls stop_calls_def split: if_splits)

section \<open>Examples\<close>

definition example_floats :: floats where
  "example_floats = \<lparr>fp_round = (\<lambda>x. x), fp_powf = (\<lambda>x y. x)\<rparr>"

definition example_sha :: "byte list \<Rightarrow> string" where
  "example_sha bs = map (\<lambda>b. char_of (unat b)) bs"

definition example_config :: soft_disk_scanner_config where
  "example_config = \<lparr>cf_scan_interval_seconds = 15, cf_use_inotify = True,
     cf_full_scan_interval_seconds = 90, cf_inotify_debounce_milliseconds = 250,
     cf_max_dirty_paths_per_instance = 16, cf_max_concurrent_scans = 2,
     cf_max_cached_directories_global = 100, cf_max_entries_per_scan = 1000000,
     cf_scan_timeout_seconds = 30, cf_max_consecutive_scan_failures = 3,
     cf_safety_reserve_mib = 64, cf_recovery_percent = 85, cf_shutdown_grace_seconds = 30\<rparr>"

definition example_target :: "string \<Rightarrow> soft_disk_target" where
  "example_target i = \<lparr>tg_instance_id = i, tg_created_at = ''t'', tg_protocol = Postgres,
     tg_data_path = ''/d'', tg_limit_bytes = 1000, tg_durable_blocked = False\<rparr>"

definition example_runtime :: soft_disk_runtime where
  "example_runtime = \<lparr>rt_persist_disk_block = (\<lambda>_ _. Inr True),
     rt_graceful_stop = (\<lambda>_ _. GracefulTimeout), rt_force_kill = (\<lambda>_. Inr ()),
     rt_clear_disk_blocked = (\<lambda>_. Inr ())\<rparr>"

text \<open>An empty directory of the given number of blocks.\<close>

definition example_environment :: "worker_answer \<Rightarrow> int \<Rightarrow> scan_environment" where
  "example_environment worker blocks =
     (let stat = \<lparr>st_dev = 1, st_ino = 2, st_kind = Directory, st_blocks = blocks, st_size = 0\<rparr>;
          root = \<lparr>ro_open = Inr stat, ro_contents = Listing [], ro_reopen = Inr stat\<rparr>
      in \<lparr>se_permit = PermitGranted, se_worker = worker, se_clock = 9,
          se_observation = example_scan_observation\<lparr>so_full := root, so_streaming := root\<rparr>,
          se_seen = []\<rparr>)"

lemma example_scans:
  "fst (scan_hybrid sha example_config t RequestStreamingFull (example_environment WorkerDone 1) u)
    = Inr (DirectoryUsage 0 512 0, PerformedFull, \<lparr>ri_device = 1, ri_inode = 2\<rparr>)"
  "fst (scan_hybrid sha example_config t RequestStreamingFull (example_environment WorkerDone 2) u)
    = Inr (DirectoryUsage 0 1024 0, PerformedFull, \<lparr>ri_device = 1, ri_inode = 2\<rparr>)"
  by (simp_all add: scan_hybrid_def example_environment_def Let_def scan_cache_def cache_allowed_def
      spawn_worker_def streaming_full_scan_def scan_directory_with_id_def os_result_def
      allocated_bytes_def stat_number_u64_def checked_mul_def ensure_budget_def
      directory_identity_def identity_from_stat_def scan_limits_of_def ok_or_def)

lemma example_timeout: "\<exists>e. fst (scan_hybrid sha example_config t RequestStreamingFull
    (example_environment OuterDeadline 1) u) = Inl (Measurement e)"
  by (simp add: scan_hybrid_def example_environment_def Let_def case_prod_beta)

theorem block_hysteresis_witness:
  "\<exists>r calls l' s. scan_hybrid_and_enforce example_sha example_floats example_config example_runtime
      (example_target ''i'') RequestStreamingFull (example_environment WorkerDone 1) 0
      (soft_limiter_new example_config) = (r, calls, l')
    \<and> limiter_snapshot (example_target ''i'') l' = Some s \<and> \<not> sn_blocked s"
proof -
  let ?l = "soft_limiter_new example_config"
  obtain r calls l' where r: "scan_hybrid_and_enforce example_sha example_floats example_config
      example_runtime (example_target ''i'') RequestStreamingFull
      (example_environment WorkerDone 1) 0 ?l = (r, calls, l')"
    by (metis prod_cases3)
  have "\<not> was_blocked (example_target ''i'') ?l"
    by (simp add: was_blocked_def example_target_def limiter_snapshot_def previous_state_def
        soft_limiter_new_def)
  then show ?thesis
    using block_hysteresis [OF r example_scans(1)] r by (auto simp: example_target_def)
qed

lemma example_stop_calls: "stop_calls example_config example_runtime t x
    = [PersistDiskBlock t x, GracefulStop t 30, ForceKill t]"
  by (simp add: stop_calls_def example_runtime_def shutdown_grace_def example_config_def)

theorem limit_enforced_witness:
  "\<exists>r calls l' s. scan_hybrid_and_enforce example_sha example_floats example_config example_runtime
      (example_target ''i'') RequestStreamingFull (example_environment WorkerDone 2) 0
      (soft_limiter_new example_config) = (r, calls, l')
    \<and> limiter_snapshot (example_target ''i'') l' = Some s \<and> sn_blocked s
    \<and> calls = [PersistDiskBlock (example_target ''i'')
          \<lparr>le_snapshot = s, le_reason = UsageThreshold\<rparr>,
        GracefulStop (example_target ''i'') 30, ForceKill (example_target ''i'')]"
proof -
  obtain r calls l' where r: "scan_hybrid_and_enforce example_sha example_floats example_config
      example_runtime (example_target ''i'') RequestStreamingFull
      (example_environment WorkerDone 2) 0 (soft_limiter_new example_config) = (r, calls, l')"
    by (metis prod_cases3)
  have "tg_limit_bytes (example_target ''i'') \<le> physical_bytes (DirectoryUsage 0 1024 0)"
    by (simp add: example_target_def)
  from limit_enforced [OF r example_scans(2) this] show ?thesis
    using r by (auto simp: example_stop_calls)
qed

definition example_operations :: "limiter_op list" where
  "example_operations =
     [ScanOp example_runtime (example_target ''i'') RequestStreamingFull
        (example_environment OuterDeadline 1) 0,
      ScanOp example_runtime (example_target ''j'') RequestStreamingFull
        (example_environment WorkerDone 1) 3,
      EvictOp ''i'',
      ScanOp example_runtime (example_target ''i'') RequestStreamingFull
        (example_environment OuterDeadline 1) 6]"


end
