(* ===== verification/Watcher.thy ===== *)
theory Watcher
  imports UsageTree
begin

text \<open>
  The watcher of the soft disk limiter (\<open>server/disk/soft/watcher/\<close>): what the file system
  notifications mark as changed, what a scan captures and acknowledges, and how watches are
  installed, retired and retried.

  Every critical section of the source is a function on the record of the shared state.  What the
  \<open>notify\<close> library delivers and answers is an argument, and so is what other threads do while no
  lock is held (\<open>interference\<close>).  A path is the list of its components, as the standard library
  compares paths; instants and durations are numbers of nanoseconds.
\<close>

section \<open>Helpers\<close>

definition next_nonzero :: "nat \<Rightarrow> nat" where
  "next_nonzero value = (let next = (value + 1) mod (u64_max + 1) in if next = 0 then 1 else next)"

definition is_absolute :: "component list \<Rightarrow> bool" where
  "is_absolute p = (case p of RootDir # _ \<Rightarrow> True | _ \<Rightarrow> False)"

definition path_parent :: "component list \<Rightarrow> component list option" where
  "path_parent p = (if p = [] \<or> last p = RootDir then None else Some (butlast p))"

function route_from ::
  "(component list \<times> string) list \<Rightarrow> component list \<Rightarrow> (string \<times> component list) option" where
  "route_from roots p =
     (case hm_get roots p of
        Some target_id \<Rightarrow> Some (target_id, p)
      | None \<Rightarrow> (case path_parent p of None \<Rightarrow> None | Some parent \<Rightarrow> route_from roots parent))"
  by pat_completeness auto
termination
  by (relation "measure (\<lambda>(roots, p). length p)") (auto simp: path_parent_def split: if_splits)

declare route_from.simps [simp del]

definition route_path ::
  "(component list \<times> string) list \<Rightarrow> component list \<Rightarrow> (string \<times> component list) option" where
  "route_path roots event_path =
     (if \<not> is_absolute event_path then None else route_from roots event_path)"

definition is_normal :: "component \<Rightarrow> bool" where
  "is_normal c = (case c of Normal _ \<Rightarrow> True | _ \<Rightarrow> False)"

definition safe_relative_parent :: "component list \<Rightarrow> component list \<Rightarrow> path option" where
  "safe_relative_parent root event_path =
     (if take (length root) event_path \<noteq> root then None
      else
        let relative = drop (length root) event_path
        in if relative = [] then None
           else
             let parent = (case path_parent relative of None \<Rightarrow> [] | Some p \<Rightarrow> p)
             in if list_all is_normal parent then Some (component_names parent) else None)"

function nearest_recorded_ancestor :: "(path, nat) omap \<Rightarrow> path \<Rightarrow> path option" where
  "nearest_recorded_ancestor paths p =
     (if om_get paths p \<noteq> None then Some p
      else if p = [] then None else nearest_recorded_ancestor paths (butlast p))"
  by pat_completeness auto
termination
  by (relation "measure (\<lambda>(paths, p). length p)") auto

declare nearest_recorded_ancestor.simps [simp del]

definition is_strict_descendant :: "path \<Rightarrow> path \<Rightarrow> bool" where
  "is_strict_descendant p ancestor \<longleftrightarrow> p \<noteq> ancestor \<and> prefix ancestor p"

section \<open>The state of a target\<close>

datatype watch_health = Watching | Degraded

record retry_policy =
  rp_initial :: nat
  rp_maximum :: nat

definition retry_delay :: "retry_policy \<Rightarrow> nat \<Rightarrow> nat" where
  "retry_delay policy attempts = min (rp_initial policy * 2 ^ min attempts 16) (rp_maximum policy)"

record target_state =
  wt_fingerprint :: string
  wt_root :: "component list"
  wt_registration_generation :: nat
  wt_target_generation :: nat
  wt_full_generation :: "nat option"
  wt_dirty_paths :: "(path, nat) omap"
  wt_acknowledged_global_generation :: nat
  wt_health :: watch_health
  wt_health_generation :: nat
  wt_retry_attempts :: nat
  wt_retry_at :: nat

definition next_generation :: "target_state \<Rightarrow> target_state" where
  "next_generation t = t\<lparr>wt_target_generation := next_nonzero (wt_target_generation t)\<rparr>"

definition mark_full :: "target_state \<Rightarrow> target_state" where
  "mark_full t =
     (let t = next_generation t
      in t\<lparr>wt_full_generation := Some (wt_target_generation t), wt_dirty_paths := []\<rparr>)"

definition mark_dirty :: "path \<Rightarrow> nat \<Rightarrow> target_state \<Rightarrow> target_state" where
  "mark_dirty relative_directory maximum_paths t =
     (let t = next_generation t;
          generation = wt_target_generation t
      in if wt_full_generation t \<noteq> None then t\<lparr>wt_full_generation := Some generation\<rparr>
         else (case nearest_recorded_ancestor (wt_dirty_paths t) relative_directory of
             Some ancestor \<Rightarrow>
               t\<lparr>wt_dirty_paths := om_put (wt_dirty_paths t) ancestor generation\<rparr>
           | None \<Rightarrow>
               let retained = filter (\<lambda>(p, _). \<not> is_strict_descendant p relative_directory)
                     (wt_dirty_paths t);
                   dirty = om_put retained relative_directory generation
               in if maximum_paths < length dirty
                  then t\<lparr>wt_dirty_paths := [], wt_full_generation := Some generation\<rparr>
                  else t\<lparr>wt_dirty_paths := dirty\<rparr>))"

definition degrade :: "nat \<Rightarrow> retry_policy \<Rightarrow> target_state \<Rightarrow> target_state" where
  "degrade now policy t =
     t\<lparr>wt_health := Degraded, wt_health_generation := next_nonzero (wt_health_generation t),
       wt_retry_at := now + retry_delay policy (wt_retry_attempts t),
       wt_retry_attempts := min (wt_retry_attempts t + 1) 4294967295\<rparr>"

definition needs_full_reconcile :: "nat \<Rightarrow> target_state \<Rightarrow> bool" where
  "needs_full_reconcile global_generation t \<longleftrightarrow>
     wt_full_generation t \<noteq> None \<or> wt_acknowledged_global_generation t \<noteq> global_generation"

definition target_pending :: "nat \<Rightarrow> target_state \<Rightarrow> bool" where
  "target_pending global_generation t \<longleftrightarrow>
     wt_full_generation t \<noteq> None \<or> wt_dirty_paths t \<noteq> []
     \<or> global_generation \<noteq> wt_acknowledged_global_generation t"

section \<open>The shared state\<close>

record watch_state =
  ws_targets :: "(string \<times> target_state) list"
  ws_roots :: "(component list \<times> string) list"
  ws_changed_targets :: "string list"
  ws_global_change_pending :: bool
  ws_next_registration_generation :: nat

record watch_shared = watch_state +
  sh_maximum_dirty_paths :: nat
  sh_maximum_pending_targets :: nat
  sh_retry_policy :: retry_policy
  sh_global_generation :: nat
  sh_backend_rebuild_requested :: bool
  sh_change_sequence :: nat

record soft_disk_watcher = watch_shared +
  bk_watcher :: bool
  bk_retry_attempts :: nat
  bk_retry_at :: nat

abbreviation DEFAULT_RETRY_INITIAL :: nat where "DEFAULT_RETRY_INITIAL \<equiv> 5000000000"
abbreviation DEFAULT_RETRY_MAX :: nat where "DEFAULT_RETRY_MAX \<equiv> 300000000000"
abbreviation DEFAULT_MAXIMUM_PENDING_TARGETS :: nat where
  "DEFAULT_MAXIMUM_PENDING_TARGETS \<equiv> 4096"

text \<open>The last argument says whether the backend could be created.\<close>

definition new_with_limits ::
  "nat \<Rightarrow> nat \<Rightarrow> nat \<Rightarrow> nat \<Rightarrow> nat \<Rightarrow> bool \<Rightarrow> soft_disk_watcher" where
  "new_with_limits maximum_dirty_paths maximum_pending_targets retry_initial retry_maximum now
       created =
     (let policy = \<lparr>rp_initial = retry_initial, rp_maximum = max retry_maximum retry_initial\<rparr>
      in \<lparr>ws_targets = [], ws_roots = [], ws_changed_targets = [],
          ws_global_change_pending = False, ws_next_registration_generation = 0,
          sh_maximum_dirty_paths = max maximum_dirty_paths 1,
          sh_maximum_pending_targets = max maximum_pending_targets 1,
          sh_retry_policy = policy, sh_global_generation = 0,
          sh_backend_rebuild_requested = False, sh_change_sequence = 0,
          bk_watcher = created, bk_retry_attempts = (if created then 0 else 1),
          bk_retry_at = (if created then now else now + retry_delay policy 0)\<rparr>)"

definition watcher_new :: "nat \<Rightarrow> nat \<Rightarrow> bool \<Rightarrow> soft_disk_watcher" where
  "watcher_new maximum_dirty_paths now created =
     new_with_limits maximum_dirty_paths DEFAULT_MAXIMUM_PENDING_TARGETS
       DEFAULT_RETRY_INITIAL DEFAULT_RETRY_MAX now created"

definition signal_change :: "soft_disk_watcher \<Rightarrow> soft_disk_watcher" where
  "signal_change w = w\<lparr>sh_change_sequence := (sh_change_sequence w + 1) mod (u64_max + 1)\<rparr>"

definition all_targets ::
  "(target_state \<Rightarrow> target_state) \<Rightarrow> soft_disk_watcher \<Rightarrow> soft_disk_watcher" where
  "all_targets f w = w\<lparr>ws_targets := map (\<lambda>(i, t). (i, f t)) (ws_targets w)\<rparr>"

definition enqueue_global_change :: "soft_disk_watcher \<Rightarrow> soft_disk_watcher" where
  "enqueue_global_change w =
     all_targets mark_full (w\<lparr>ws_global_change_pending := True, ws_changed_targets := [],
       sh_global_generation := (sh_global_generation w + 1) mod (u64_max + 1)\<rparr>)"

definition enqueue_target_change :: "string \<Rightarrow> soft_disk_watcher \<Rightarrow> soft_disk_watcher" where
  "enqueue_target_change target_id w =
     (if ws_global_change_pending w then w
      else
        let w = w\<lparr>ws_changed_targets := List.insert target_id (ws_changed_targets w)\<rparr>
        in if sh_maximum_pending_targets w < length (ws_changed_targets w)
           then enqueue_global_change w else w)"

definition force_full_all :: "soft_disk_watcher \<Rightarrow> soft_disk_watcher" where
  "force_full_all w = signal_change (enqueue_global_change w)"

definition degrade_all :: "nat \<Rightarrow> soft_disk_watcher \<Rightarrow> soft_disk_watcher" where
  "degrade_all now w =
     signal_change (enqueue_global_change (all_targets (degrade now (sh_retry_policy w))
       (w\<lparr>sh_backend_rebuild_requested := True\<rparr>)))"

section \<open>Notifications\<close>

text \<open>The kinds of events the code distinguishes.\<close>

datatype event_kind = EventAny | EventAccess | EventCreate | EventModifyName | EventModifyOther
  | EventRemove | EventOther

record notify_event =
  ev_kind :: event_kind
  ev_paths :: "component list list"
  ev_need_rescan :: bool

definition root_watch_may_be_lost :: "event_kind \<Rightarrow> bool" where
  "root_watch_may_be_lost kind \<longleftrightarrow> kind = EventRemove \<or> kind = EventModifyName"

definition mark_event_path ::
  "nat \<Rightarrow> retry_policy \<Rightarrow> nat \<Rightarrow> event_kind \<Rightarrow> component list \<Rightarrow> component list \<Rightarrow> target_state \<Rightarrow>
    target_state" where
  "mark_event_path now policy maximum_dirty_paths kind root event_path t =
     (if event_path = root
      then let t = mark_full t
           in if root_watch_may_be_lost kind then degrade now policy t else t
      else (case safe_relative_parent root event_path of
          None \<Rightarrow> mark_full t
        | Some relative_directory \<Rightarrow> mark_dirty relative_directory maximum_dirty_paths t))"

fun mark_event_paths ::
  "nat \<Rightarrow> event_kind \<Rightarrow> component list list \<Rightarrow> string list \<Rightarrow> soft_disk_watcher \<Rightarrow>
    string list \<times> soft_disk_watcher" where
  "mark_event_paths now kind [] changed w = (changed, w)"
| "mark_event_paths now kind (event_path # event_paths) changed w =
     (case route_path (ws_roots w) event_path of
        None \<Rightarrow> mark_event_paths now kind event_paths changed w
      | Some (target_id, root) \<Rightarrow>
          (case hm_get (ws_targets w) target_id of
             None \<Rightarrow> mark_event_paths now kind event_paths changed w
           | Some t \<Rightarrow>
               mark_event_paths now kind event_paths (List.insert target_id changed)
                 (w\<lparr>ws_targets := hm_insert (ws_targets w) target_id
                    (mark_event_path now (sh_retry_policy w) (sh_maximum_dirty_paths w) kind root
                       event_path t)\<rparr>)))"

definition handle_callback ::
  "nat \<Rightarrow> notify_event option \<Rightarrow> soft_disk_watcher \<Rightarrow> soft_disk_watcher" where
  "handle_callback now result w =
     (case result of
        None \<Rightarrow> degrade_all now w
      | Some event \<Rightarrow>
          if ev_need_rescan event then force_full_all w
          else if ev_kind event = EventAccess \<or> ev_kind event = EventOther then w
          else if ev_paths event = [] then force_full_all w
          else
            let (changed, w) = mark_event_paths now (ev_kind event) (ev_paths event) [] w;
                w = fold enqueue_target_change changed w
            in if changed \<noteq> [] then signal_change w else w)"

section \<open>Batches\<close>

record dirty_batch =
  db_target_id :: string
  db_fingerprint :: string
  db_registration_generation :: nat
  db_target_generation :: nat
  db_global_generation :: nat
  db_relative_paths :: "path list"
  db_full_reconcile :: bool
  db_watcher_active :: bool

text \<open>The global generation is read before the lock is taken.\<close>

definition capture :: "nat \<Rightarrow> string \<Rightarrow> soft_disk_watcher \<Rightarrow> dirty_batch option" where
  "capture global_generation target_id w =
     (case hm_get (ws_targets w) target_id of
        None \<Rightarrow> None
      | Some t \<Rightarrow>
          if \<not> target_pending global_generation t then None
          else
            let full_reconcile = needs_full_reconcile global_generation t
            in Some \<lparr>db_target_id = target_id, db_fingerprint = wt_fingerprint t,
                 db_registration_generation = wt_registration_generation t,
                 db_target_generation = wt_target_generation t,
                 db_global_generation = global_generation,
                 db_relative_paths = (if full_reconcile then [] else map fst (wt_dirty_paths t)),
                 db_full_reconcile = full_reconcile,
                 db_watcher_active = (wt_health t = Watching)\<rparr>)"

definition acknowledge_target :: "dirty_batch \<Rightarrow> target_state \<Rightarrow> target_state" where
  "acknowledge_target batch t =
     t\<lparr>wt_dirty_paths :=
         filter (\<lambda>(_, generation). db_target_generation batch < generation) (wt_dirty_paths t),
       wt_full_generation :=
         (case wt_full_generation t of
            None \<Rightarrow> None
          | Some generation \<Rightarrow>
              if generation \<le> db_target_generation batch then None else Some generation),
       wt_acknowledged_global_generation :=
         max (wt_acknowledged_global_generation t) (db_global_generation batch)\<rparr>"

definition acknowledge :: "dirty_batch \<Rightarrow> soft_disk_watcher \<Rightarrow> bool \<times> soft_disk_watcher" where
  "acknowledge batch w =
     (case hm_get (ws_targets w) (db_target_id batch) of
        None \<Rightarrow> (False, w)
      | Some t \<Rightarrow>
          if wt_fingerprint t \<noteq> db_fingerprint batch
            \<or> wt_registration_generation t \<noteq> db_registration_generation batch
          then (False, w)
          else (True, w\<lparr>ws_targets := hm_insert (ws_targets w) (db_target_id batch)
                 (acknowledge_target batch t)\<rparr>))"

record target_watch_status =
  tw_status :: watch_health
  tw_registration_generation :: nat
  tw_pending_change :: bool
  tw_full_reconcile_pending :: bool
  tw_dirty_directory_count :: nat

definition watch_status :: "nat \<Rightarrow> string \<Rightarrow> soft_disk_watcher \<Rightarrow> target_watch_status option" where
  "watch_status global_generation target_id w =
     map_option (\<lambda>t. \<lparr>tw_status = wt_health t,
         tw_registration_generation = wt_registration_generation t,
         tw_pending_change = target_pending global_generation t,
         tw_full_reconcile_pending = needs_full_reconcile global_generation t,
         tw_dirty_directory_count = length (wt_dirty_paths t)\<rparr>)
       (hm_get (ws_targets w) target_id)"

definition is_watching :: "string \<Rightarrow> string \<Rightarrow> soft_disk_watcher \<Rightarrow> bool" where
  "is_watching target_id fingerprint w =
     (case hm_get (ws_targets w) target_id of
        None \<Rightarrow> False
      | Some t \<Rightarrow> wt_fingerprint t = fingerprint \<and> wt_health t = Watching)"

record watcher_changes =
  wc_sequence :: nat
  wc_global_reconcile :: bool
  wc_target_ids :: "string list"

definition drain_changes :: "soft_disk_watcher \<Rightarrow> watcher_changes \<times> soft_disk_watcher" where
  "drain_changes w =
     (\<lparr>wc_sequence = sh_change_sequence w, wc_global_reconcile = ws_global_change_pending w,
        wc_target_ids = (if ws_global_change_pending w then [] else ws_changed_targets w)\<rparr>,
      w\<lparr>ws_global_change_pending := False, ws_changed_targets := []\<rparr>)"

definition changes_empty :: "watcher_changes \<Rightarrow> bool" where
  "changes_empty c \<longleftrightarrow> \<not> wc_global_reconcile c \<and> wc_target_ids c = []"

section \<open>The backend\<close>

datatype notify_error = PathNotFound | WatchNotFound | OtherNotifyError

datatype recursive_watch_install = Installed | FailedCleanly | BackendContaminated

text \<open>What the backend answers: to creating it, to watching a root and to unwatching one.\<close>

record backend_answers =
  ba_created :: bool
  ba_watch :: "component list \<Rightarrow> notify_error option"
  ba_unwatch :: "component list \<Rightarrow> notify_error option"

definition install_recursive_watch ::
  "backend_answers \<Rightarrow> component list \<Rightarrow> recursive_watch_install" where
  "install_recursive_watch answers root =
     (case ba_watch answers root of
        None \<Rightarrow> Installed
      | Some watch_error \<Rightarrow>
          (case ba_unwatch answers root of
             None \<Rightarrow> FailedCleanly
           | Some cleanup_error \<Rightarrow>
               if watch_error = PathNotFound \<and> cleanup_error = WatchNotFound
               then FailedCleanly else BackendContaminated))"

definition abandon_backend :: "nat \<Rightarrow> soft_disk_watcher \<Rightarrow> soft_disk_watcher" where
  "abandon_backend now w =
     degrade_all now (w\<lparr>bk_watcher := False, bk_retry_attempts := 0, bk_retry_at := now\<rparr>)"

definition ensure_backend ::
  "backend_answers \<Rightarrow> nat \<Rightarrow> soft_disk_watcher \<Rightarrow> soft_disk_watcher" where
  "ensure_backend answers now w =
     (if bk_watcher w \<or> now < bk_retry_at w then w
      else if ba_created answers
      then w\<lparr>bk_watcher := True, bk_retry_attempts := 0, bk_retry_at := now\<rparr>
      else w\<lparr>bk_retry_at := now + retry_delay (sh_retry_policy w) (bk_retry_attempts w),
             bk_retry_attempts := min (bk_retry_attempts w + 1) 4294967295\<rparr>)"

section \<open>Registration\<close>

datatype watch_registration_error = InvalidIdentity | InvalidRoot | RootCollision

record watch_registration =
  wr_status :: watch_health
  wr_changed :: bool
  wr_full_reconcile_pending :: bool

definition registration_result :: "target_state \<Rightarrow> bool \<Rightarrow> watch_registration" where
  "registration_result t changed =
     \<lparr>wr_status = wt_health t, wr_changed = changed,
      wr_full_reconcile_pending = (wt_full_generation t \<noteq> None)\<rparr>"

definition validate_registration ::
  "string \<Rightarrow> string \<Rightarrow> component list \<Rightarrow> watch_registration_error + unit" where
  "validate_registration target_id fingerprint root =
     (if target_id = [] \<or> fingerprint = [] then Inl InvalidIdentity
      else if \<not> is_absolute root
        \<or> list_ex (\<lambda>c. \<not> (c = RootDir \<or> is_normal c)) root then Inl InvalidRoot
      else Inr ())"

definition unchanged_registration ::
  "string \<Rightarrow> string \<Rightarrow> component list \<Rightarrow> soft_disk_watcher \<Rightarrow>
    watch_registration_error + watch_registration option" where
  "unchanged_registration target_id fingerprint root w =
     (case hm_get (ws_targets w) target_id of
        Some existing \<Rightarrow>
          if wt_fingerprint existing = fingerprint \<and> wt_root existing = root
          then Inr (Some (registration_result existing False))
          else if hm_get (ws_roots w) root \<notin> {None, Some target_id} then Inl RootCollision
          else Inr None
      | None \<Rightarrow>
          if hm_get (ws_roots w) root \<notin> {None, Some target_id} then Inl RootCollision
          else Inr None)"

definition new_target_state ::
  "string \<Rightarrow> component list \<Rightarrow> nat \<Rightarrow> nat \<Rightarrow> nat \<Rightarrow> target_state" where
  "new_target_state fingerprint root registration_generation global_generation now =
     mark_full \<lparr>wt_fingerprint = fingerprint, wt_root = root,
       wt_registration_generation = registration_generation, wt_target_generation = 0,
       wt_full_generation = None, wt_dirty_paths = [],
       wt_acknowledged_global_generation = global_generation, wt_health = Degraded,
       wt_health_generation = 0, wt_retry_attempts = 0, wt_retry_at = now\<rparr>"

definition forget_target :: "string \<Rightarrow> soft_disk_watcher \<Rightarrow> soft_disk_watcher" where
  "forget_target target_id w =
     w\<lparr>ws_targets := hm_remove (ws_targets w) target_id,
       ws_roots := (case hm_get (ws_targets w) target_id of
           None \<Rightarrow> ws_roots w
         | Some t \<Rightarrow> hm_remove (ws_roots w) (wt_root t)),
       ws_changed_targets := removeAll target_id (ws_changed_targets w)\<rparr>"

definition replace_target_state ::
  "string \<Rightarrow> string \<Rightarrow> component list \<Rightarrow> nat \<Rightarrow> soft_disk_watcher \<Rightarrow>
    (component list option \<times> nat) \<times> soft_disk_watcher" where
  "replace_target_state target_id fingerprint root now w =
     (let old_root = map_option wt_root (hm_get (ws_targets w) target_id);
          registration_generation = next_nonzero (ws_next_registration_generation w);
          w = forget_target target_id w;
          w = w\<lparr>ws_next_registration_generation := registration_generation,
            ws_roots := hm_insert (ws_roots w) root target_id,
            ws_targets := hm_insert (ws_targets w) target_id (new_target_state fingerprint root
              registration_generation (sh_global_generation w) now)\<rparr>
      in ((old_root, registration_generation), enqueue_target_change target_id w))"

definition install_registration_watch ::
  "backend_answers \<Rightarrow> component list \<Rightarrow> component list option \<Rightarrow> nat \<Rightarrow> soft_disk_watcher \<Rightarrow>
    bool \<times> soft_disk_watcher" where
  "install_registration_watch answers root old_root now w =
     (let (outcome, w) =
        (if sh_backend_rebuild_requested w then (FailedCleanly, w)
         else if bk_watcher w
             \<and> (case old_root of None \<Rightarrow> False | Some old \<Rightarrow> ba_unwatch answers old \<noteq> None)
           then (BackendContaminated, w)
         else
           let w = ensure_backend answers now w
           in (if bk_watcher w then install_recursive_watch answers root else FailedCleanly, w));
          w = (if outcome = BackendContaminated then abandon_backend now w else w)
      in (outcome = Installed, w))"

definition finish_registration ::
  "string \<Rightarrow> string \<Rightarrow> component list \<Rightarrow> nat \<Rightarrow> bool \<Rightarrow> nat \<Rightarrow> soft_disk_watcher \<Rightarrow>
    (watch_registration \<times> bool) \<times> soft_disk_watcher" where
  "finish_registration target_id fingerprint root registration_generation watch_succeeded now w =
     (let stale = (\<lparr>wr_status = Degraded, wr_changed = False, wr_full_reconcile_pending = False\<rparr>,
            watch_succeeded);
          (result, w) = (case hm_get (ws_targets w) target_id of
              None \<Rightarrow> (stale, w)
            | Some t \<Rightarrow>
                if wt_registration_generation t = registration_generation
                  \<and> wt_fingerprint t = fingerprint \<and> wt_root t = root
                then let t = (if watch_succeeded
                           then t\<lparr>wt_health := Watching, wt_retry_attempts := 0\<rparr>
                           else degrade now (sh_retry_policy w) t)
                     in ((registration_result t True, False),
                         w\<lparr>ws_targets := hm_insert (ws_targets w) target_id t\<rparr>)
                else (stale, w))
      in (result, enqueue_target_change target_id w))"

definition unwatch_or_abandon_backend ::
  "backend_answers \<Rightarrow> component list \<Rightarrow> nat \<Rightarrow> soft_disk_watcher \<Rightarrow> soft_disk_watcher" where
  "unwatch_or_abandon_backend answers root now w =
     (if bk_watcher w \<and> ba_unwatch answers root \<noteq> None then abandon_backend now w else w)"

text \<open>What other threads do between two critical sections.\<close>

type_synonym interference = "soft_disk_watcher \<Rightarrow> soft_disk_watcher"

definition register ::
  "(nat \<Rightarrow> interference) \<Rightarrow> backend_answers \<Rightarrow> string \<Rightarrow> string \<Rightarrow> component list \<Rightarrow> nat \<Rightarrow>
    nat \<Rightarrow> soft_disk_watcher \<Rightarrow> (watch_registration_error + watch_registration) \<times> soft_disk_watcher" where
  "register others answers target_id fingerprint root started now w =
     (case validate_registration target_id fingerprint root of
        Inl e \<Rightarrow> (Inl e, w)
      | Inr _ \<Rightarrow>
          (case unchanged_registration target_id fingerprint root w of
             Inl e \<Rightarrow> (Inl e, w)
           | Inr (Some unchanged) \<Rightarrow> (Inr unchanged, w)
           | Inr None \<Rightarrow>
               let ((old_root, registration_generation), w) =
                     replace_target_state target_id fingerprint root started (others 0 w);
                   w = others 1 (signal_change w);
                   (watch_succeeded, w) = install_registration_watch answers root old_root now w;
                   ((result, stale_watch_installed), w) =
                     finish_registration target_id fingerprint root registration_generation
                       watch_succeeded now (others 2 w);
                   w = (if stale_watch_installed
                        then unwatch_or_abandon_backend answers root now (others 3 w) else w)
               in (Inr result, signal_change w)))"

definition retire ::
  "string \<Rightarrow> soft_disk_watcher \<Rightarrow> component list option \<times> soft_disk_watcher" where
  "retire target_id w =
     (case hm_get (ws_targets w) target_id of
        None \<Rightarrow> (None, w)
      | Some t \<Rightarrow> (Some (wt_root t),
          signal_change (enqueue_target_change target_id (forget_target target_id w))))"

definition unwatch_retired ::
  "backend_answers \<Rightarrow> component list \<Rightarrow> nat \<Rightarrow> soft_disk_watcher \<Rightarrow> soft_disk_watcher" where
  "unwatch_retired answers retired now w =
     (if hm_get (ws_roots w) retired \<noteq> None then w
      else unwatch_or_abandon_backend answers retired now w)"

section \<open>Retrying\<close>

record retry_candidate =
  rc_target_id :: string
  rc_fingerprint :: string
  rc_registration_generation :: nat
  rc_health_generation :: nat
  rc_root :: "component list"

record retry_summary =
  rs_attempted :: nat
  rs_restored :: nat
  rs_still_degraded :: nat
  rs_backend_available :: bool

definition retry_targets :: "nat \<Rightarrow> soft_disk_watcher \<Rightarrow> retry_candidate list" where
  "retry_targets now w =
     map (\<lambda>(target_id, t). \<lparr>rc_target_id = target_id, rc_fingerprint = wt_fingerprint t,
         rc_registration_generation = wt_registration_generation t,
         rc_health_generation = wt_health_generation t, rc_root = wt_root t\<rparr>)
       (filter (\<lambda>(_, t). wt_health t = Degraded \<and> wt_retry_at t \<le> now) (ws_targets w))"

definition retry_backend ::
  "backend_answers \<Rightarrow> nat \<Rightarrow> soft_disk_watcher \<Rightarrow> soft_disk_watcher" where
  "retry_backend answers now w =
     ensure_backend answers now
       (if sh_backend_rebuild_requested w
        then w\<lparr>sh_backend_rebuild_requested := False, bk_watcher := False, bk_retry_at := now\<rparr>
        else w)"

definition finish_retry ::
  "retry_candidate \<Rightarrow> bool \<Rightarrow> nat \<Rightarrow> soft_disk_watcher \<Rightarrow> bool \<times> soft_disk_watcher" where
  "finish_retry candidate succeeded now w =
     (case hm_get (ws_targets w) (rc_target_id candidate) of
        None \<Rightarrow> (False, w)
      | Some t \<Rightarrow>
          if wt_fingerprint t \<noteq> rc_fingerprint candidate
            \<or> wt_registration_generation t \<noteq> rc_registration_generation candidate
            \<or> wt_health_generation t \<noteq> rc_health_generation candidate
          then (False, w)
          else
            let t = (if succeeded then mark_full (t\<lparr>wt_health := Watching, wt_retry_attempts := 0\<rparr>)
                     else degrade now (sh_retry_policy w) t)
            in (succeeded, enqueue_target_change (rc_target_id candidate)
                 (w\<lparr>ws_targets := hm_insert (ws_targets w) (rc_target_id candidate) t\<rparr>)))"

fun retry_each ::
  "interference \<Rightarrow> backend_answers \<Rightarrow> nat \<Rightarrow> retry_candidate list \<Rightarrow> nat \<times> nat \<Rightarrow>
    soft_disk_watcher \<Rightarrow> (nat \<times> nat) \<times> soft_disk_watcher" where
  "retry_each other answers now [] counts w = (counts, w)"
| "retry_each other answers now (candidate # candidates) (attempted, restored) w =
     (let outcome = (if bk_watcher w then install_recursive_watch answers (rc_root candidate)
            else FailedCleanly)
      in if outcome = BackendContaminated then ((attempted + 1, 0), abandon_backend now w)
         else
           let (succeeded, w) = finish_retry candidate (outcome = Installed) now (other w)
           in retry_each other answers now candidates
                (attempted + 1, if succeeded then restored + 1 else restored) w)"

definition retry_degraded ::
  "interference \<Rightarrow> backend_answers \<Rightarrow> nat \<Rightarrow> soft_disk_watcher \<Rightarrow> retry_summary \<times> soft_disk_watcher" where
  "retry_degraded other answers now w =
     (let candidates = retry_targets now w;
          w = retry_backend answers now (other w);
          ((attempted, restored), w) = retry_each other answers now candidates (0, 0) w;
          backend_available = bk_watcher w;
          w = other w;
          still_degraded = length (filter (\<lambda>(_, t). wt_health t = Degraded) (ws_targets w))
      in (\<lparr>rs_attempted = attempted, rs_restored = restored, rs_still_degraded = still_degraded,
            rs_backend_available = backend_available\<rparr>,
          if 0 < attempted then signal_change w else w))"

end
