(* ===== verification/WatchQueue.thy ===== *)
theory WatchQueue
  imports Planner Watcher Bytes
begin

text \<open>
  What the soft disk limiter wants from its watcher
  (\<open>daemon/soft_disk_limiter/watch_operations.rs\<close>): the watches that are desired, the ones a
  registration has confirmed, the ones that have to be removed, and the one operation that is
  running; and the identity of the directory each target was last seen at
  (\<open>daemon/soft_disk_limiter/root_identity.rs\<close>).

  The daemon calls both from one task, so operations are functions on the records.  A retired
  watch is its root.
\<close>

section \<open>Operations and their queue\<close>

record desired_watch =
  dw_fingerprint :: string
  dw_target_fingerprint :: string
  dw_root :: "component list"

datatype watch_operation =
    RegisterOp string desired_watch
  | UnregisterOp string "component list"
  | RetryDegradedOp

fun operation_target_id :: "watch_operation \<Rightarrow> string option" where
  "operation_target_id (RegisterOp target_id _) = Some target_id"
| "operation_target_id (UnregisterOp target_id _) = Some target_id"
| "operation_target_id RetryDegradedOp = None"

record active_operation =
  ao_operation :: watch_operation
  ao_started_at :: nat
  ao_stall_reported :: bool

record pending_retirements =
  pr_tokens :: "component list list"
  pr_unresolved_registration :: bool

definition no_retirements :: pending_retirements where
  "no_retirements = \<lparr>pr_tokens = [], pr_unresolved_registration = False\<rparr>"

definition retirements_insert :: "component list \<Rightarrow> pending_retirements \<Rightarrow> pending_retirements" where
  "retirements_insert retired p =
     (if retired \<in> set (pr_tokens p) then p else p\<lparr>pr_tokens := pr_tokens p @ [retired]\<rparr>)"

definition retirements_empty :: "pending_retirements \<Rightarrow> bool" where
  "retirements_empty p \<longleftrightarrow> pr_tokens p = [] \<and> \<not> pr_unresolved_registration p"

record watch_operation_queue =
  wq_desired :: "(string, desired_watch) omap"
  wq_applied :: "(string \<times> string) list"
  wq_failed_until :: "(string \<times> string \<times> nat) list"
  wq_pending_removals :: "(string, pending_retirements) omap"
  wq_active :: "active_operation option"
  wq_retry_requested :: bool

definition queue_default :: watch_operation_queue where
  "queue_default = \<lparr>wq_desired = [], wq_applied = [], wq_failed_until = [],
     wq_pending_removals = [], wq_active = None, wq_retry_requested = False\<rparr>"

definition queue_upsert ::
  "string \<Rightarrow> desired_watch \<Rightarrow> watch_operation_queue \<Rightarrow> watch_operation_queue" where
  "queue_upsert target_id desired q =
     (if om_get (wq_desired q) target_id = Some desired then q
      else q\<lparr>wq_applied := hm_remove (wq_applied q) target_id,
             wq_failed_until := hm_remove (wq_failed_until q) target_id,
             wq_desired := om_put (wq_desired q) target_id desired\<rparr>)"

definition pending_of :: "watch_operation_queue \<Rightarrow> string \<Rightarrow> pending_retirements" where
  "pending_of q target_id =
     (case om_get (wq_pending_removals q) target_id of None \<Rightarrow> no_retirements | Some p \<Rightarrow> p)"

definition put_pending ::
  "string \<Rightarrow> pending_retirements \<Rightarrow> watch_operation_queue \<Rightarrow> watch_operation_queue" where
  "put_pending target_id p q = q\<lparr>wq_pending_removals :=
     (if retirements_empty p then om_del (wq_pending_removals q) target_id
      else om_put (wq_pending_removals q) target_id p)\<rparr>"

definition insert_retired ::
  "component list option \<Rightarrow> pending_retirements \<Rightarrow> pending_retirements" where
  "insert_retired retired p =
     (case retired of None \<Rightarrow> p | Some token \<Rightarrow> retirements_insert token p)"

definition registration_in_flight :: "string \<Rightarrow> watch_operation_queue \<Rightarrow> bool" where
  "registration_in_flight target_id q =
     (case wq_active q of
        None \<Rightarrow> False
      | Some active \<Rightarrow>
          (case ao_operation active of RegisterOp active_target _ \<Rightarrow> active_target = target_id
           | _ \<Rightarrow> False))"

definition queue_remove ::
  "string \<Rightarrow> component list option \<Rightarrow> watch_operation_queue \<Rightarrow> watch_operation_queue" where
  "queue_remove target_id retired q =
     (let was_applied = hm_get (wq_applied q) target_id \<noteq> None;
          in_flight = registration_in_flight target_id q;
          q = q\<lparr>wq_desired := om_del (wq_desired q) target_id,
                wq_applied := hm_remove (wq_applied q) target_id,
                wq_failed_until := hm_remove (wq_failed_until q) target_id\<rparr>
      in if retired \<noteq> None \<or> was_applied \<or> in_flight
         then let p = insert_retired retired (pending_of q target_id)
              in put_pending target_id (p\<lparr>pr_unresolved_registration :=
                   pr_unresolved_registration p \<or> in_flight\<rparr>) q
         else q)"

definition resolve_retirement ::
  "string \<Rightarrow> component list option \<Rightarrow> watch_operation_queue \<Rightarrow> watch_operation_queue" where
  "resolve_retirement target_id retired q =
     put_pending target_id (insert_retired retired
       ((pending_of q target_id)\<lparr>pr_unresolved_registration := False\<rparr>)) q"

definition retirement_pending :: "string \<Rightarrow> watch_operation_queue \<Rightarrow> bool" where
  "retirement_pending target_id q \<longleftrightarrow> om_get (wq_pending_removals q) target_id \<noteq> None"

definition request_retry :: "watch_operation_queue \<Rightarrow> watch_operation_queue" where
  "request_retry q = q\<lparr>wq_retry_requested := True\<rparr>"

definition queue_disable :: "watch_operation_queue \<Rightarrow> watch_operation_queue" where
  "queue_disable q = q\<lparr>wq_desired := [], wq_applied := [], wq_failed_until := [],
     wq_pending_removals := [], wq_active := None, wq_retry_requested := False\<rparr>"

definition is_confirmed :: "string \<Rightarrow> string \<Rightarrow> watch_operation_queue \<Rightarrow> bool" where
  "is_confirmed target_id fingerprint q \<longleftrightarrow>
     (case om_get (wq_desired q) target_id of
        None \<Rightarrow> False | Some desired \<Rightarrow> dw_fingerprint desired = fingerprint)
     \<and> hm_get (wq_applied q) target_id = Some fingerprint"

definition is_current_desire_confirmed :: "string \<Rightarrow> watch_operation_queue \<Rightarrow> bool" where
  "is_current_desire_confirmed target_id q =
     (case om_get (wq_desired q) target_id of
        None \<Rightarrow> False
      | Some desired \<Rightarrow> hm_get (wq_applied q) target_id = Some (dw_fingerprint desired))"

definition is_current_registration :: "watch_operation \<Rightarrow> watch_operation_queue \<Rightarrow> bool" where
  "is_current_registration operation q =
     (case operation of
        RegisterOp target_id desired \<Rightarrow>
          \<not> retirement_pending target_id q \<and> om_get (wq_desired q) target_id = Some desired
      | _ \<Rightarrow> False)"

definition next_unregister :: "watch_operation_queue \<Rightarrow> watch_operation option" where
  "next_unregister q =
     (case find (\<lambda>(_, p). pr_tokens p \<noteq> []) (wq_pending_removals q) of
        None \<Rightarrow> None
      | Some (target_id, p) \<Rightarrow> Some (UnregisterOp target_id (hd (pr_tokens p))))"

definition registration_due :: "nat \<Rightarrow> watch_operation_queue \<Rightarrow> string \<Rightarrow> desired_watch \<Rightarrow> bool" where
  "registration_due now q target_id desired =
     (let already_applied = hm_get (wq_applied q) target_id = Some (dw_fingerprint desired);
          retry_delayed = (case hm_get (wq_failed_until q) target_id of
              None \<Rightarrow> False
            | Some (fingerprint, retry_at) \<Rightarrow>
                fingerprint = dw_fingerprint desired \<and> now < retry_at)
      in \<not> already_applied \<and> \<not> retry_delayed)"

definition next_registration :: "nat \<Rightarrow> watch_operation_queue \<Rightarrow> watch_operation option" where
  "next_registration now q =
     map_option (\<lambda>(target_id, desired). RegisterOp target_id desired)
       (find (\<lambda>(target_id, desired). registration_due now q target_id desired) (wq_desired q))"

definition or_else :: "'a option \<Rightarrow> 'a option \<Rightarrow> 'a option" where
  "or_else a b = (case a of None \<Rightarrow> b | Some x \<Rightarrow> Some x)"

definition queue_next ::
  "nat \<Rightarrow> watch_operation_queue \<Rightarrow> watch_operation option \<times> watch_operation_queue" where
  "queue_next now q =
     (if wq_active q \<noteq> None then (None, q)
      else
        case or_else (next_unregister q) (or_else (next_registration now q)
          (if wq_retry_requested q then Some RetryDegradedOp else None)) of
          None \<Rightarrow> (None, q)
        | Some operation \<Rightarrow> (Some operation, q\<lparr>wq_active := Some \<lparr>ao_operation = operation,
              ao_started_at = now, ao_stall_reported = False\<rparr>\<rparr>))"

definition queue_complete ::
  "watch_operation \<Rightarrow> bool \<Rightarrow> nat \<Rightarrow> nat \<Rightarrow> watch_operation_queue \<Rightarrow> bool \<times> watch_operation_queue" where
  "queue_complete operation succeeded now retry_delay' q =
     (case wq_active q of
        None \<Rightarrow> (False, q)
      | Some active \<Rightarrow>
          if ao_operation active \<noteq> operation then (False, q)
          else
            let q = q\<lparr>wq_active := None\<rparr>
            in (True, case operation of
                RegisterOp target_id desired \<Rightarrow>
                  if om_get (wq_desired q) target_id = Some desired
                    \<and> \<not> retirement_pending target_id q
                  then if succeeded
                       then q\<lparr>wq_applied :=
                                hm_insert (wq_applied q) target_id (dw_fingerprint desired),
                              wq_failed_until := hm_remove (wq_failed_until q) target_id\<rparr>
                       else q\<lparr>wq_failed_until := hm_insert (wq_failed_until q) target_id
                                (dw_fingerprint desired, add_tick now retry_delay')\<rparr>
                  else q
              | UnregisterOp target_id retired \<Rightarrow>
                  (case om_get (wq_pending_removals q) target_id of
                     None \<Rightarrow> q
                   | Some p \<Rightarrow>
                       put_pending target_id (p\<lparr>pr_tokens := remove1 retired (pr_tokens p)\<rparr>) q)
              | RetryDegradedOp \<Rightarrow> q\<lparr>wq_retry_requested := False\<rparr>))"

definition fail_active ::
  "nat \<Rightarrow> nat \<Rightarrow> watch_operation_queue \<Rightarrow> watch_operation option \<times> watch_operation_queue" where
  "fail_active now retry_delay' q =
     (case wq_active q of
        None \<Rightarrow> (None, q)
      | Some active \<Rightarrow>
          (let (completed, q) = queue_complete (ao_operation active) False now retry_delay' q
           in (if completed then Some (ao_operation active) else None, q)))"

definition take_stalled ::
  "nat \<Rightarrow> nat \<Rightarrow> watch_operation_queue \<Rightarrow> watch_operation option \<times> watch_operation_queue" where
  "take_stalled now deadline q =
     (case wq_active q of
        None \<Rightarrow> (None, q)
      | Some active \<Rightarrow>
          if ao_stall_reported active \<or> now - ao_started_at active < deadline then (None, q)
          else (Some (ao_operation active),
            q\<lparr>wq_active := Some (active\<lparr>ao_stall_reported := True\<rparr>)\<rparr>))"

section \<open>Root identities\<close>

datatype observation_disposition = Initialized | SameRoot | Replaced | StaleTarget

record observation =
  ob_target_fingerprint :: string
  ob_identity :: root_identity

type_synonym root_identity_tracker = "(string \<times> observation) list"

definition identity_for ::
  "string \<Rightarrow> string \<Rightarrow> root_identity_tracker \<Rightarrow> root_identity option" where
  "identity_for target_id target_fingerprint observations =
     (case hm_get observations target_id of
        None \<Rightarrow> None
      | Some observation \<Rightarrow>
          if ob_target_fingerprint observation = target_fingerprint
          then Some (ob_identity observation) else None)"

definition observe ::
  "string \<Rightarrow> string \<Rightarrow> string \<Rightarrow> root_identity \<Rightarrow> root_identity_tracker \<Rightarrow>
    observation_disposition \<times> root_identity_tracker" where
  "observe target_id completed_fingerprint current_fingerprint identity observations =
     (if completed_fingerprint \<noteq> current_fingerprint then (StaleTarget, observations)
      else
        let initialized = (Initialized, hm_insert observations target_id
              \<lparr>ob_target_fingerprint = current_fingerprint, ob_identity = identity\<rparr>)
        in case hm_get observations target_id of
             None \<Rightarrow> initialized
           | Some observation \<Rightarrow>
               if ob_target_fingerprint observation = current_fingerprint
               then if ob_identity observation = identity then (SameRoot, observations)
                    else (Replaced, hm_insert observations target_id
                           (observation\<lparr>ob_identity := identity\<rparr>))
               else initialized)"

definition retain_targets ::
  "(string \<times> string) list \<Rightarrow> root_identity_tracker \<Rightarrow> root_identity_tracker" where
  "retain_targets current observations =
     filter (\<lambda>(target_id, observation).
       hm_get current target_id = Some (ob_target_fingerprint observation)) observations"

text \<open>\<open>sha2\<close> and \<open>hex\<close> are the argument \<open>hex_sha256\<close>.\<close>

definition watch_fingerprint ::
  "(byte list \<Rightarrow> string) \<Rightarrow> string \<Rightarrow> root_identity option \<Rightarrow> string" where
  "watch_fingerprint hex_sha256 target_fingerprint identity =
     hex_sha256 (le_bytes 8 (length target_fingerprint) @ ascii target_fingerprint
       @ (case identity of
            None \<Rightarrow> []
          | Some identity \<Rightarrow> le_bytes 8 (ri_device identity) @ le_bytes 8 (ri_inode identity)))"

section \<open>Runs\<close>

text \<open>A run of the queue is a list of calls.\<close>

datatype queue_event =
    Upsert string desired_watch
  | Remove string "component list option"
  | Resolve string "component list option"
  | RequestRetry
  | Next nat
  | Complete watch_operation bool nat nat
  | Fail nat nat
  | TakeStalled nat nat
  | Disable

fun queue_apply :: "queue_event \<Rightarrow> watch_operation_queue \<Rightarrow> watch_operation_queue" where
  "queue_apply (Upsert i d) q = queue_upsert i d q"
| "queue_apply (Remove i r) q = queue_remove i r q"
| "queue_apply (Resolve i r) q = resolve_retirement i r q"
| "queue_apply RequestRetry q = request_retry q"
| "queue_apply (Next now) q = snd (queue_next now q)"
| "queue_apply (Complete operation succeeded now delay) q =
     snd (queue_complete operation succeeded now delay q)"
| "queue_apply (Fail now delay) q = snd (fail_active now delay q)"
| "queue_apply (TakeStalled now deadline) q = snd (take_stalled now deadline q)"
| "queue_apply Disable q = queue_disable q"

definition queue_run :: "queue_event list \<Rightarrow> watch_operation_queue" where
  "queue_run es = fold queue_apply es queue_default"

lemma queue_run_snoc [simp]: "queue_run (es @ [e]) = queue_apply e (queue_run es)"
  by (simp add: queue_run_def)

text \<open>The calls that end a watch of a target.\<close>

fun revokes :: "string \<Rightarrow> desired_watch \<Rightarrow> queue_event \<Rightarrow> bool" where
  "revokes i d (Upsert j d') \<longleftrightarrow> i = j \<and> d \<noteq> d'"
| "revokes i d (Remove j r) \<longleftrightarrow> i = j"
| "revokes i d Disable \<longleftrightarrow> True"
| "revokes i d _ \<longleftrightarrow> False"

lemmas queue_defs = queue_upsert_def queue_remove_def resolve_retirement_def request_retry_def
  queue_next_def fail_active_def take_stalled_def queue_disable_def Let_def

lemma put_pending_fields [simp]:
  "wq_desired (put_pending i p q) = wq_desired q" "wq_applied (put_pending i p q) = wq_applied q"
  "wq_active (put_pending i p q) = wq_active q"
  by (simp_all add: put_pending_def)

text \<open>A watch becomes confirmed only when its registration completes, and stays so only while it
  is what is desired.\<close>

lemma queue_complete_applied:
  assumes "hm_get (wq_applied (snd (queue_complete operation succeeded now delay q))) i = Some fp"
    "hm_get (wq_applied q) i \<noteq> Some fp"
  shows "succeeded \<and> fst (queue_complete operation succeeded now delay q) \<and>
    (\<exists>d. operation = RegisterOp i d \<and> om_get (wq_desired q) i = Some d \<and> fp = dw_fingerprint d)"
  using assms
  by (auto simp: queue_complete_def Let_def split: option.splits if_splits watch_operation.splits)

lemma queue_complete_desired [simp]:
  "wq_desired (snd (queue_complete operation succeeded now delay q)) = wq_desired q"
  by (auto simp: queue_complete_def Let_def split: option.splits watch_operation.splits)

lemma queue_apply_desired:
  assumes "om_get (wq_desired q) i = Some d" "\<not> revokes i d e"
  shows "om_get (wq_desired (queue_apply e q)) i = Some d"
  using assms
  by (cases e) (auto simp: queue_defs case_prod_beta split: option.splits)

lemma queue_apply_applied:
  assumes "hm_get (wq_applied (queue_apply e q)) i = Some fp"
  shows "(\<exists>d now delay. e = Complete (RegisterOp i d) True now delay
        \<and> fst (queue_complete (RegisterOp i d) True now delay q)
        \<and> om_get (wq_desired q) i = Some d \<and> fp = dw_fingerprint d)
    \<or> hm_get (wq_applied q) i = Some fp
      \<and> (\<forall>d. om_get (wq_desired q) i = Some d \<longrightarrow> \<not> revokes i d e)"
proof (cases e)
  case (Complete operation succeeded now delay)
  then show ?thesis using assms queue_complete_applied [of operation succeeded now delay q i fp]
    by (cases "hm_get (wq_applied q) i = Some fp") auto
next
  case (Fail now delay)
  then show ?thesis using assms queue_complete_applied [of _ False now delay q i fp]
    by (auto simp: fail_active_def case_prod_beta split: option.splits)
qed (use assms in \<open>auto simp: queue_defs split: option.splits if_splits\<close>)

lemma applied_registered:
  assumes "hm_get (wq_applied (queue_run es)) i = Some fp"
  shows "\<exists>d es1 now delay es2. es = es1 @ Complete (RegisterOp i d) True now delay # es2
    \<and> fst (queue_complete (RegisterOp i d) True now delay (queue_run es1))
    \<and> fp = dw_fingerprint d \<and> om_get (wq_desired (queue_run es)) i = Some d
    \<and> (\<forall>e \<in> set es2. \<not> revokes i d e)"
  using assms
proof (induction es rule: rev_induct)
  case Nil
  then show ?case by (simp add: queue_run_def queue_default_def)
next
  case (snoc e es)
  from queue_apply_applied [OF snoc.prems [unfolded queue_run_snoc]]
  show ?case
  proof (elim disjE exE conjE)
    fix d now delay
    assume e: "e = Complete (RegisterOp i d) True now delay"
      "fst (queue_complete (RegisterOp i d) True now delay (queue_run es))"
      "om_get (wq_desired (queue_run es)) i = Some d" "fp = dw_fingerprint d"
    then have "om_get (wq_desired (queue_run (es @ [e]))) i = Some d" by simp
    then show ?case using e by (metis append_Nil2 empty_iff list.set(1))
  next
    assume old: "hm_get (wq_applied (queue_run es)) i = Some fp"
      "\<forall>d. om_get (wq_desired (queue_run es)) i = Some d \<longrightarrow> \<not> revokes i d e"
    obtain d es1 now delay es2 where d: "es = es1 @ Complete (RegisterOp i d) True now delay # es2"
      "fst (queue_complete (RegisterOp i d) True now delay (queue_run es1))"
      "fp = dw_fingerprint d" "om_get (wq_desired (queue_run es)) i = Some d"
      "\<forall>e \<in> set es2. \<not> revokes i d e"
      using snoc.IH [OF old(1)] by metis
    have e: "\<not> revokes i d e" using old(2) d(4) by simp
    then have "om_get (wq_desired (queue_run (es @ [e]))) i = Some d"
      using queue_apply_desired [OF d(4)] by simp
    moreover have "es @ [e] = es1 @ Complete (RegisterOp i d) True now delay # (es2 @ [e])"
      using d(1) by simp
    moreover have "\<forall>e' \<in> set (es2 @ [e]). \<not> revokes i d e'" using d(5) e by simp
    ultimately show ?case using d(2,3) by metis
  qed
qed



text \<open>The roots of a target that are still to be unwatched.\<close>

abbreviation retired_tokens :: "watch_operation_queue \<Rightarrow> string \<Rightarrow> component list set" where
  "retired_tokens q i \<equiv> set (pr_tokens (pending_of q i))"

definition unregistering :: "string \<Rightarrow> component list \<Rightarrow> watch_operation_queue \<Rightarrow> bool" where
  "unregistering i r q \<longleftrightarrow> (case wq_active q of
     None \<Rightarrow> False | Some active \<Rightarrow> ao_operation active = UnregisterOp i r)"

text \<open>A call that ends the running operation, or all of them.\<close>

fun ends_operation :: "queue_event \<Rightarrow> bool" where
  "ends_operation (Complete _ _ _ _) \<longleftrightarrow> True"
| "ends_operation (Fail _ _) \<longleftrightarrow> True"
| "ends_operation _ \<longleftrightarrow> False"

lemma pending_of_put [simp]:
  "pending_of (put_pending i p q) j = (if j = i then if retirements_empty p then no_retirements else p
     else pending_of q j)"
  by (simp add: pending_of_def put_pending_def)

lemma pending_of_update [simp]:
  "pending_of (q\<lparr>wq_desired := a\<rparr>) i = pending_of q i"
  "pending_of (q\<lparr>wq_applied := b\<rparr>) i = pending_of q i"
  "pending_of (q\<lparr>wq_failed_until := c\<rparr>) i = pending_of q i"
  "pending_of (q\<lparr>wq_active := d\<rparr>) i = pending_of q i"
  "pending_of (q\<lparr>wq_retry_requested := e\<rparr>) i = pending_of q i"
  by (simp_all add: pending_of_def)

lemma insert_retired_tokens [simp]:
  "set (pr_tokens (insert_retired retired p)) = set (pr_tokens p) \<union> set_option retired"
  by (auto simp: insert_retired_def retirements_insert_def split: option.split)

lemma retirements_empty_token: "r \<in> set (pr_tokens p) \<Longrightarrow> \<not> retirements_empty p"
  by (auto simp: retirements_empty_def)

lemma queue_complete_tokens:
  assumes "r \<in> retired_tokens q i"
  shows "r \<in> retired_tokens (snd (queue_complete operation succeeded now delay q)) i
    \<or> unregistering i r q"
proof (cases "\<exists>active. wq_active q = Some active \<and> ao_operation active = operation")
  case False
  then show ?thesis using assms by (auto simp: queue_complete_def split: option.split)
next
  case True
  then obtain active where active: "wq_active q = Some active" "ao_operation active = operation"
    by blast
  show ?thesis
  proof (cases operation)
    case (UnregisterOp j r')
    then show ?thesis
    proof (cases "om_get (wq_pending_removals q) j")
      case None
      then show ?thesis using assms active UnregisterOp by (simp add: queue_complete_def)
    next
      case (Some p)
      then have "j = i \<Longrightarrow> p = pending_of q i" by (simp add: pending_of_def)
      then show ?thesis
        using assms active UnregisterOp Some retirements_empty_token
          [of r "p\<lparr>pr_tokens := remove1 r' (pr_tokens p)\<rparr>"]
        by (cases "r = r' \<and> i = j") (auto simp: queue_complete_def unregistering_def)
    qed
  qed (use assms active in \<open>simp_all add: queue_complete_def Let_def\<close>)
qed

lemma queue_apply_tokens:
  assumes r: "r \<in> retired_tokens q i"
  shows "r \<in> retired_tokens (queue_apply e q) i \<or> e = Disable
    \<or> ends_operation e \<and> unregistering i r q"
proof (cases e)
  case (Remove j retired)
  let ?p = "insert_retired retired (pending_of q i)"
  have "r \<in> set (pr_tokens ?p)" using r by simp
  then have "\<not> retirements_empty (?p\<lparr>pr_unresolved_registration := b\<rparr>)" for b
    using retirements_empty_token by simp
  then show ?thesis using r Remove by (auto simp: queue_remove_def Let_def)
next
  case (Resolve j retired)
  let ?p = "insert_retired retired ((pending_of q i)\<lparr>pr_unresolved_registration := False\<rparr>)"
  have "r \<in> set (pr_tokens ?p)" using r by simp
  then have "\<not> retirements_empty ?p" by (rule retirements_empty_token)
  then show ?thesis using r Resolve by (auto simp: resolve_retirement_def)
next
  case (Complete operation succeeded now delay)
  then show ?thesis using queue_complete_tokens [OF r] by auto
next
  case (Fail now delay)
  then show ?thesis using r queue_complete_tokens [OF r]
    by (simp add: fail_active_def case_prod_beta split: option.split)
qed (use r in \<open>auto simp: queue_defs split: option.splits\<close>)

lemma next_unregister_pending:
  "next_unregister q = None \<Longrightarrow> om_wf (wq_pending_removals q) \<Longrightarrow> retired_tokens q i = {}"
  by (auto simp: next_unregister_def find_None_iff pending_of_def no_retirements_def om_get_iff
      split: option.splits prod.splits)

lemma queue_run_wf: "om_wf (wq_pending_removals (queue_run es))"
proof (induction es rule: rev_induct)
  case (snoc e es)
  have c: "om_wf (wq_pending_removals (snd (queue_complete operation succeeded now delay q)))"
    if "om_wf (wq_pending_removals q)" for operation succeeded now delay q
    using that by (auto simp: queue_complete_def put_pending_def Let_def
        split: option.split watch_operation.split)
  show ?case
    using snoc c
    by (cases e) (auto simp: queue_defs put_pending_def case_prod_beta split: option.split)
qed (simp add: queue_run_def queue_default_def)

lemma retired_kept:
  assumes "r \<in> retired_tokens q i" "r \<notin> retired_tokens (fold queue_apply es q) i"
  shows "\<exists>es1 e es2. es = es1 @ e # es2
    \<and> (e = Disable \<or> ends_operation e \<and> unregistering i r (fold queue_apply es1 q))"
  using assms
proof (induction es arbitrary: q)
  case (Cons e es)
  show ?case
  proof (cases "r \<in> retired_tokens (queue_apply e q) i")
    case True
    then obtain es1 e' es2 where "es = es1 @ e' # es2"
      "e' = Disable \<or> ends_operation e' \<and> unregistering i r (fold queue_apply es1 (queue_apply e q))"
      using Cons.IH Cons.prems(2) by fastforce
    then have "e # es = (e # es1) @ e' # es2"
      "e' = Disable \<or> ends_operation e' \<and> unregistering i r (fold queue_apply (e # es1) q)"
      by simp_all
    then show ?thesis by blast
  next
    case False
    then have "e = Disable \<or> ends_operation e \<and> unregistering i r (fold queue_apply [] q)"
      using queue_apply_tokens [OF Cons.prems(1)] by auto
    then show ?thesis by (metis append_Nil)
  qed
qed simp

text \<open>No retired watch is forgotten.  After a target is removed with a watch to unwatch, that
  watch stays queued until its own unregistration has run or the watcher is given up; and while
  one is queued and nothing is running, the next operation is an unregistration.\<close>

theorem retired_watch_unregistered:
  assumes "es = es1 @ Remove i (Some r) # es2"
  shows "(\<exists>es3 e es4. es2 = es3 @ e # es4 \<and> (e = Disable \<or> ends_operation e
        \<and> unregistering i r (queue_run (es1 @ Remove i (Some r) # es3))))
    \<or> r \<in> set (pr_tokens (pending_of (queue_run es) i))
      \<and> (wq_active (queue_run es) = None \<longrightarrow>
          (\<forall>now. \<exists>j r'. fst (queue_next now (queue_run es)) = Some (UnregisterOp j r')))"
proof -
  let ?q = "queue_apply (Remove i (Some r)) (queue_run es1)"
  have run: "queue_run (es1 @ Remove i (Some r) # es3) = fold queue_apply es3 ?q" for es3
    by (simp add: queue_run_def)
  have "\<not> retirements_empty ((insert_retired (Some r) (pending_of (queue_run es1) i))
      \<lparr>pr_unresolved_registration := b\<rparr>)" for b
    by (rule retirements_empty_token [of r]) simp
  then have start: "r \<in> retired_tokens ?q i" by (simp add: queue_remove_def Let_def)
  show ?thesis
  proof (cases "r \<in> retired_tokens (queue_run es) i")
    case True
    then have "next_unregister (queue_run es) \<noteq> None"
      using next_unregister_pending queue_run_wf by (metis empty_iff)
    then have "wq_active (queue_run es) = None \<Longrightarrow>
        \<exists>j r'. fst (queue_next now (queue_run es)) = Some (UnregisterOp j r')" for now
      by (auto simp: queue_next_def or_else_def next_unregister_def split: option.splits)
    then show ?thesis using True by blast
  next
    case False
    then show ?thesis using retired_kept [OF start] assms by (auto simp: run)
  qed
qed

section \<open>Example\<close>

definition example_desire :: desired_watch where
  "example_desire = \<lparr>dw_fingerprint = ''w'', dw_target_fingerprint = ''t'',
     dw_root = [RootDir, Normal ''d'']\<rparr>"

definition example_queue_run :: "queue_event list" where
  "example_queue_run = [Upsert ''i'' example_desire, Next 0,
     Complete (RegisterOp ''i'' example_desire) True 1 5]"


theorem retired_watch_unregistered_witness:
  "[RootDir, Normal ''d''] \<in> set (pr_tokens (pending_of
     (queue_run (example_queue_run @ [Remove ''i'' (Some [RootDir, Normal ''d''])])) ''i''))"
  using retired_watch_unregistered [where ?es1.0 = example_queue_run and i = "''i''"
    and r = "[RootDir, Normal ''d'']" and ?es2.0 = "[]", OF refl]
  by simp


end
