(* ===== verification/InstancePaths.thy ===== *)
theory InstancePaths
  imports Watcher
begin

text \<open>
  The directories of an instance: the roots of the configuration (\<open>config/paths.rs\<close>), the
  identifiers that may be part of a path (\<open>utils/ids.rs\<close>) and the paths built from both
  (\<open>InstancePaths::new\<close> in \<open>server/paths.rs\<close>).  Paths are ASCII texts as the standard library
  joins them; two paths are compared by their components.
\<close>

section \<open>Configuration\<close>

record path_config =
  pc_data :: string
  pc_run :: string
  pc_metadata :: string
  pc_volumes :: string
  pc_backups :: string
  pc_sockets :: string
  pc_locks :: string
  pc_logs :: string
  pc_artifacts :: string
  pc_exports :: string
  pc_imports :: string
  pc_fuse :: string
  pc_tmp :: string

abbreviation DATA_PATH :: string where "DATA_PATH \<equiv> ''/var/lib/dbev''"
abbreviation RUN_PATH :: string where "RUN_PATH \<equiv> ''/run/dbev''"

definition path_config_default :: path_config where
  "path_config_default = \<lparr>pc_data = DATA_PATH, pc_run = RUN_PATH, pc_metadata = [],
     pc_volumes = [], pc_backups = [], pc_sockets = [], pc_locks = [], pc_logs = [],
     pc_artifacts = [], pc_exports = [], pc_imports = [], pc_fuse = [], pc_tmp = []\<rparr>"

definition is_ascii_white_space :: "char \<Rightarrow> bool" where
  "is_ascii_white_space c \<longleftrightarrow> of_char c \<in> {9, 10, 11, 12, 13, 32 :: nat}"

definition trim :: "string \<Rightarrow> string" where
  "trim s = rev (dropWhile is_ascii_white_space (rev (dropWhile is_ascii_white_space s)))"

definition non_empty_or_else :: "string \<Rightarrow> string \<Rightarrow> string" where
  "non_empty_or_else value fallback = (let value = trim value in if value = [] then fallback else value)"

definition run_root :: "path_config \<Rightarrow> string" where
  "run_root c = non_empty_or_else (pc_run c) RUN_PATH"

definition sockets_root :: "path_config \<Rightarrow> string" where
  "sockets_root c = non_empty_or_else (pc_sockets c) (run_root c @ ''/sockets'')"

definition locks_root :: "path_config \<Rightarrow> string" where
  "locks_root c = non_empty_or_else (pc_locks c) (run_root c @ ''/locks'')"

definition logs_root :: "path_config \<Rightarrow> string" where
  "logs_root c = non_empty_or_else (pc_logs c) (trim (pc_data c) @ ''/logs'')"

definition artifacts_root :: "path_config \<Rightarrow> string" where
  "artifacts_root c = non_empty_or_else (pc_artifacts c) (trim (pc_data c) @ ''/artifacts'')"

definition metadata_root :: "path_config \<Rightarrow> string" where
  "metadata_root c = non_empty_or_else (pc_metadata c) (trim (pc_data c) @ ''/metadata'')"

definition volumes_root :: "path_config \<Rightarrow> string" where
  "volumes_root c = non_empty_or_else (pc_volumes c) (trim (pc_data c) @ ''/volumes'')"

definition backups_root :: "path_config \<Rightarrow> string" where
  "backups_root c = non_empty_or_else (pc_backups c) (trim (pc_data c) @ ''/backups'')"

definition exports_root :: "path_config \<Rightarrow> string" where
  "exports_root c = non_empty_or_else (pc_exports c) (artifacts_root c @ ''/exports'')"

definition imports_root :: "path_config \<Rightarrow> string" where
  "imports_root c = non_empty_or_else (pc_imports c) (artifacts_root c @ ''/imports'')"

definition fuse_root :: "path_config \<Rightarrow> string" where
  "fuse_root c = non_empty_or_else (pc_fuse c) (trim (pc_data c) @ ''/fuse'')"

definition tmp_root :: "path_config \<Rightarrow> string" where
  "tmp_root c = non_empty_or_else (pc_tmp c) (trim (pc_data c) @ ''/tmp'')"

section \<open>Identifiers\<close>

datatype id_error = EmptyId | UnsafeId string

definition id_char :: "char \<Rightarrow> bool" where
  "id_char c \<longleftrightarrow> (let n = of_char c :: nat in
     48 \<le> n \<and> n \<le> 57 \<or> 65 \<le> n \<and> n \<le> 90 \<or> 97 \<le> n \<and> n \<le> 122
     \<or> c = CHR ''_'' \<or> c = CHR ''-'')"

definition validate_instance_id :: "string \<Rightarrow> id_error + unit" where
  "validate_instance_id value =
     (if value = [] then Inl EmptyId
      else if list_all id_char value then Inr () else Inl (UnsafeId value))"

definition sanitize_docker_suffix :: "string \<Rightarrow> id_error + string" where
  "sanitize_docker_suffix value =
     bind_result (validate_instance_id value) (\<lambda>_.
       Inr (map (\<lambda>c. if id_char c \<and> c \<noteq> CHR ''_'' then c else CHR ''-'') value))"

definition portable_identifier :: "string \<Rightarrow> nat \<Rightarrow> bool" where
  "portable_identifier value max_bytes \<longleftrightarrow>
     value \<noteq> [] \<and> length value \<le> max_bytes \<and> list_all id_char value"

section \<open>Paths\<close>

text \<open>Joining as the standard library does it, and whether one path begins with another.\<close>

definition path_join :: "string \<Rightarrow> string \<Rightarrow> string" where
  "path_join p child =
     (if child \<noteq> [] \<and> hd child = CHR ''/'' then child
      else if p = [] \<or> last p = CHR ''/'' then p @ child else p @ ''/'' @ child)"

definition path_starts_with :: "string \<Rightarrow> string \<Rightarrow> bool" where
  "path_starts_with p base \<longleftrightarrow> prefix (path_components base) (path_components p)"

datatype instance_path_error = InvalidId id_error | RelativeRoot string string
  | EscapesRoot string string

definition path_root :: "string \<Rightarrow> string \<Rightarrow> instance_path_error + string" where
  "path_root field value =
     (if is_absolute (path_components value) then Inr value else Inl (RelativeRoot field value))"

definition contained_in_root :: "string \<Rightarrow> string \<Rightarrow> instance_path_error + string" where
  "contained_in_root root p =
     (if path_starts_with p root then Inr p else Inl (EscapesRoot p root))"

definition child :: "string \<Rightarrow> string \<Rightarrow> instance_path_error + string" where
  "child root instance_id =
     contained_in_root root (path_join (path_join root ''instances'') instance_id)"

definition child_direct :: "string \<Rightarrow> string \<Rightarrow> instance_path_error + string" where
  "child_direct root instance_id = contained_in_root root (path_join root instance_id)"

record instance_paths =
  ip_instance_id :: string
  ip_data :: string
  ip_logs :: string
  ip_sockets :: string
  ip_artifacts :: string
  ip_exports :: string
  ip_imports :: string
  ip_backups :: string
  ip_runtime_config :: string
  ip_socket_bridge_binary :: string

text \<open>The version in the name of the socket bridge is a constant of the build.\<close>

definition instance_paths_new ::
  "string \<Rightarrow> path_config \<Rightarrow> string \<Rightarrow> instance_path_error + instance_paths" where
  "instance_paths_new bridge_version config instance_id =
     bind_result (case validate_instance_id instance_id of
         Inl e \<Rightarrow> Inl (InvalidId e) | Inr _ \<Rightarrow> Inr ()) (\<lambda>_.
     bind_result (path_root ''paths.volumes'' (volumes_root config)) (\<lambda>data_root.
     bind_result (path_root ''paths.logs_root()'' (logs_root config)) (\<lambda>logs_root.
     bind_result (path_root ''paths.sockets_root()'' (sockets_root config)) (\<lambda>sockets_root.
     bind_result (path_root ''paths.artifacts_root()'' (artifacts_root config)) (\<lambda>artifacts_root.
     bind_result (path_root ''paths.exports'' (exports_root config)) (\<lambda>exports_root.
     bind_result (path_root ''paths.imports'' (imports_root config)) (\<lambda>imports_root.
     bind_result (path_root ''paths.backups'' (backups_root config)) (\<lambda>backups_root.
     bind_result (path_root ''paths.metadata'' (metadata_root config)) (\<lambda>metadata_root.
     let runtime_config_root = path_join metadata_root ''runtime-configs'' in
     bind_result (child_direct data_root instance_id) (\<lambda>data.
     bind_result (child logs_root instance_id) (\<lambda>logs.
     bind_result (child_direct sockets_root instance_id) (\<lambda>sockets.
     bind_result (child artifacts_root instance_id) (\<lambda>artifacts.
     bind_result (child_direct exports_root instance_id) (\<lambda>exports.
     bind_result (child_direct imports_root instance_id) (\<lambda>imports.
     bind_result (child_direct backups_root instance_id) (\<lambda>backups.
     bind_result (child_direct runtime_config_root instance_id) (\<lambda>runtime_config.
     Inr \<lparr>ip_instance_id = instance_id, ip_data = data, ip_logs = logs, ip_sockets = sockets,
       ip_artifacts = artifacts, ip_exports = exports, ip_imports = imports,
       ip_backups = backups, ip_runtime_config = runtime_config,
       ip_socket_bridge_binary = path_join (path_join (path_join metadata_root ''runtime'')
         ''bin'') (''dbev-socket-bridge-'' @ bridge_version)\<rparr>)))))))))))))))))"

section \<open>Components of joined paths\<close>

lemma split_slash_not_Nil [simp]: "split_slash s \<noteq> []"
  by (cases s) (auto split: list.split)

lemma split_slash_append: "split_slash (a @ CHR ''/'' # b) = split_slash a @ split_slash b"
  by (induction a) (auto split: list.split)

lemma split_slash_single: "CHR ''/'' \<notin> set s \<Longrightarrow> split_slash s = [s]"
  by (induction s) auto

text \<open>A name that is one component: an identifier, or a fixed directory name.\<close>

definition plain_name :: "string \<Rightarrow> bool" where
  "plain_name s \<longleftrightarrow> s \<noteq> [] \<and> s \<noteq> ''.'' \<and> s \<noteq> ''..'' \<and> CHR ''/'' \<notin> set s"

lemma valid_id_plain:
  assumes "validate_instance_id i = Inr ()"
  shows "plain_name i"
proof -
  have i: "i \<noteq> []" "list_all id_char i"
    using assms by (auto simp: validate_instance_id_def split: if_splits)
  moreover have "\<not> id_char (CHR ''/'')" "\<not> id_char (CHR ''.'')" by (simp_all add: id_char_def)
  ultimately show ?thesis by (auto simp: plain_name_def list_all_iff)
qed

lemma is_absolute_append [simp]: "is_absolute p \<Longrightarrow> is_absolute (p @ q)"
  by (auto simp: is_absolute_def split: list.splits)

lemma join_components:
  assumes "is_absolute (path_components p)" "plain_name s"
  shows "path_components (path_join p s) = path_components p @ [Normal s]"
    and "is_absolute (path_components (path_join p s))"
proof -
  have seg: "segment s = [Normal s]" "split_slash s = [s]"
    using assms(2) split_slash_single by (auto simp: segment_def plain_name_def)
  have abs: "is_absolute (path_components q) \<longleftrightarrow> q \<noteq> [] \<and> hd q = CHR ''/''" for q
    by (cases q) (auto simp: is_absolute_def path_components_def Let_def segment_def
        split: list.split if_splits component.splits)
  have p: "p \<noteq> []" "hd p = CHR ''/''" using assms(1) by (auto simp: abs)
  have rel: "\<not> (s \<noteq> [] \<and> hd s = CHR ''/'')"
    using assms(2) by (cases s) (auto simp: plain_name_def)
  show c: "path_components (path_join p s) = path_components p @ [Normal s]"
  proof (cases "last p = CHR ''/''")
    case True
    then obtain a where a: "p = a @ [CHR ''/'']" using p(1) by (metis append_butlast_last_id)
    have "split_slash (p @ s) = split_slash a @ [s]" "split_slash p = split_slash a @ [[]]"
      using split_slash_append [of a s] split_slash_append [of a "[]"] seg by (simp_all add: a)
    moreover have "path_join p s = p @ s" using True rel by (auto simp: path_join_def)
    moreover have "segment [] = []" by (simp add: segment_def)
    ultimately show ?thesis using p seg by (simp add: path_components_def Let_def)
  next
    case False
    then have "path_join p s = p @ CHR ''/'' # s" using p rel by (auto simp: path_join_def)
    then show ?thesis
      using p seg split_slash_append [of p s] by (simp add: path_components_def Let_def)
  qed
  show "is_absolute (path_components (path_join p s))"
    using assms(1) unfolding c by simp
qed

lemma path_root_iff: "path_root field v = Inr p \<longleftrightarrow> p = v \<and> is_absolute (path_components v)"
  by (auto simp: path_root_def)

lemma child_eq:
  assumes "is_absolute (path_components root)" "plain_name i"
  shows "child_direct root i = Inr (path_join root i)"
    and "child root i = Inr (path_join (path_join root ''instances'') i)"
proof -
  have "plain_name ''instances''" by (simp add: plain_name_def)
  note j = join_components [OF assms] join_components [OF assms(1) this]
  show "child_direct root i = Inr (path_join root i)"
    using j by (simp add: child_direct_def contained_in_root_def path_starts_with_def)
  show "child root i = Inr (path_join (path_join root ''instances'') i)"
    using j join_components(1) [OF j(4) assms(2)]
    by (simp add: child_def contained_in_root_def path_starts_with_def)
qed

section \<open>Isolation\<close>

definition roots_absolute :: "path_config \<Rightarrow> bool" where
  "roots_absolute c \<longleftrightarrow> (\<forall>root \<in> {volumes_root c, logs_root c, sockets_root c, artifacts_root c,
     exports_root c, imports_root c, backups_root c, metadata_root c}.
       is_absolute (path_components root))"

text \<open>The directory of an instance below a root.\<close>

abbreviation below :: "string \<Rightarrow> string list \<Rightarrow> component list" where
  "below root names \<equiv> path_components root @ map Normal names"

lemma instance_paths_new_ok:
  assumes "validate_instance_id i = Inr ()" "roots_absolute c"
  obtains p where "instance_paths_new v c i = Inr p"
    "path_components (ip_data p) = below (volumes_root c) [i]"
    "path_components (ip_logs p) = below (logs_root c) [''instances'', i]"
    "path_components (ip_sockets p) = below (sockets_root c) [i]"
    "path_components (ip_artifacts p) = below (artifacts_root c) [''instances'', i]"
    "path_components (ip_exports p) = below (exports_root c) [i]"
    "path_components (ip_imports p) = below (imports_root c) [i]"
    "path_components (ip_backups p) = below (backups_root c) [i]"
    "path_components (ip_runtime_config p) = below (metadata_root c) [''runtime-configs'', i]"
proof -
  note i = valid_id_plain [OF assms(1)]
  have plain: "plain_name ''instances''" "plain_name ''runtime-configs''"
    by (simp_all add: plain_name_def)
  have abs: "is_absolute (path_components (volumes_root c))"
    "is_absolute (path_components (logs_root c))" "is_absolute (path_components (sockets_root c))"
    "is_absolute (path_components (artifacts_root c))"
    "is_absolute (path_components (exports_root c))"
    "is_absolute (path_components (imports_root c))"
    "is_absolute (path_components (backups_root c))"
    "is_absolute (path_components (metadata_root c))"
    using assms(2) by (simp_all add: roots_absolute_def)
  note sub = abs join_components(2) [OF _ plain(1)] join_components(2) [OF _ plain(2)]
  note j = join_components(1) [OF _ i] join_components(1) [OF _ plain(1)]
    join_components(1) [OF _ plain(2)]
  show thesis
    by (rule that) (simp add: instance_paths_new_def assms(1) path_root_def abs sub child_eq i Let_def,
      simp_all add: j abs sub)
qed

lemma instance_paths_new_iff:
  "(\<exists>p. instance_paths_new v c i = Inr p)
    \<longleftrightarrow> validate_instance_id i = Inr () \<and> roots_absolute c"
proof
  assume "\<exists>p. instance_paths_new v c i = Inr p"
  then show "validate_instance_id i = Inr () \<and> roots_absolute c"
    by (auto simp: instance_paths_new_def bind_result_Inr path_root_iff roots_absolute_def Let_def
        split: sum.splits)
qed (metis instance_paths_new_ok)



end
