(* ===== verification/SoftMonitor.thy ===== *)
theory SoftMonitor
  imports RouteStore SoftLimiter WatchQueue InstancePaths
begin

text \<open>
  The supervisor of the soft disk limiter (\<open>daemon/soft_disk_limiter/\<close>): the task that keeps the
  list of monitored instances, hands due scans to workers, applies their results, and drives the
  watcher.  It joins the planner, the watcher, the queue of watch operations and the limiter.

  The record of the monitor holds the variables of the task.  The watcher is shared with other
  threads: where the task reads it twice, what happens in between is an argument
  (\<open>interference\<close>).  A running worker is the data it was given; what it returns is computed when
  it finishes.  A hash set is a list without repetitions; log messages are left out.
\<close>

section \<open>Monitored instances\<close>

text \<open>The fields of the metadata that the limiter reads or writes.\<close>

record monitored_metadata =
  mm_instance_id :: string
  mm_created_at :: string
  mm_protocol :: protocol
  mm_deployment_mode :: deployment_mode
  mm_status :: instance_status
  mm_desired_state :: desired_instance_state
  mm_disk_mib :: nat
  mm_disk_enforcement_method :: string
  mm_disk_limit_blocked :: bool

datatype engine_runtime_status = RuntimeCreating | RuntimeBooting | RuntimeRunning | RuntimeStopped
  | RuntimeFailed | RuntimeQuarantined | RuntimeDeleting

record engine_runtime =
  er_runtime_id :: string
  er_created_at :: string
  er_protocol :: protocol
  er_deployment_mode :: deployment_mode
  er_status :: engine_runtime_status
  er_disk_mib :: nat

text \<open>What does not change while the daemon runs; \<open>sha2\<close> and \<open>hex\<close> are one function.\<close>

record app_constants =
  ac_hex_sha256 :: "byte list \<Rightarrow> string"
  ac_scanner :: soft_disk_scanner_config
  ac_disk_mode :: disk_limit_mode
  ac_paths :: path_config
  ac_bridge_version :: string

definition soft_monitoring_required :: "monitored_metadata \<Rightarrow> disk_limit_mode \<Rightarrow> bool" where
  "soft_monitoring_required metadata global_mode =
     (let legacy_qdrant_fuse = fuse_quota_unsupported (mm_protocol metadata)
            \<and> mm_disk_enforcement_method metadata = ''fuse_quota''
      in enforcement_required global_mode (mm_protocol metadata) \<or> legacy_qdrant_fuse)"

definition is_current_target ::
  "monitored_metadata \<Rightarrow> soft_disk_target \<Rightarrow> disk_limit_mode \<Rightarrow> bool" where
  "is_current_target metadata target global_mode \<longleftrightarrow>
     mm_deployment_mode metadata = Dedicated
     \<and> mm_instance_id metadata = tg_instance_id target
     \<and> mm_created_at metadata = tg_created_at target
     \<and> mm_protocol metadata = tg_protocol target
     \<and> mm_status metadata \<in> {Running, Booting}
     \<and> mib_to_bytes (mm_disk_mib metadata) = tg_limit_bytes target
     \<and> soft_monitoring_required metadata global_mode"

definition data_path_of :: "app_constants \<Rightarrow> string \<Rightarrow> string option" where
  "data_path_of app i =
     (case instance_paths_new (ac_bridge_version app) (ac_paths app) i of
        Inl _ \<Rightarrow> None | Inr paths \<Rightarrow> Some (ip_data paths))"

definition instance_target :: "app_constants \<Rightarrow> monitored_metadata \<Rightarrow> soft_disk_target option" where
  "instance_target app metadata =
     (let active = mm_status metadata \<in> {Running, Booting}
      in if mm_deployment_mode metadata \<noteq> Dedicated \<or> \<not> active
           \<or> \<not> soft_monitoring_required metadata (ac_disk_mode app) then None
         else map_option (\<lambda>data_path. \<lparr>tg_instance_id = mm_instance_id metadata,
             tg_created_at = mm_created_at metadata, tg_protocol = mm_protocol metadata,
             tg_data_path = data_path, tg_limit_bytes = mib_to_bytes (mm_disk_mib metadata),
             tg_durable_blocked = mm_disk_limit_blocked metadata\<rparr>)
           (data_path_of app (mm_instance_id metadata)))"

definition runtime_target :: "app_constants \<Rightarrow> engine_runtime \<Rightarrow> soft_disk_target option" where
  "runtime_target app runtime =
     (if \<not> (er_deployment_mode runtime = Shared
          \<and> er_status runtime \<in> {RuntimeRunning, RuntimeBooting}
          \<and> enforcement_required (ac_disk_mode app) (er_protocol runtime)) then None
      else map_option (\<lambda>data_path. \<lparr>tg_instance_id = er_runtime_id runtime,
          tg_created_at = er_created_at runtime, tg_protocol = er_protocol runtime,
          tg_data_path = data_path, tg_limit_bytes = mib_to_bytes (er_disk_mib runtime),
          tg_durable_blocked = False\<rparr>)
        (data_path_of app (er_runtime_id runtime)))"

text \<open>When the shared pools cannot be read, the targets known so far are kept.\<close>

definition sync_candidates ::
  "app_constants \<Rightarrow> monitored_metadata list \<Rightarrow> engine_runtime list option \<Rightarrow>
    (string \<times> soft_disk_target) list \<Rightarrow> soft_disk_target list" where
  "sync_candidates app instances placements targets =
     List.map_filter (instance_target app) instances
     @ (case placements of
          Some runtimes \<Rightarrow> List.map_filter (runtime_target app) runtimes
        | None \<Rightarrow> map snd targets)"

section \<open>The state of the task\<close>

record running_scan =
  rn_candidate :: scan_candidate
  rn_batch :: "dirty_batch option"
  rn_target :: soft_disk_target
  rn_request :: hybrid_scan_request

datatype watch_refresh = RefreshNone | RefreshTarget string | RefreshAll

record pending_watch_refresh =
  pf_all :: bool
  pf_targets :: "string list"

definition no_refresh :: pending_watch_refresh where
  "no_refresh = \<lparr>pf_all = False, pf_targets = []\<rparr>"

definition include_refresh ::
  "watch_refresh \<Rightarrow> pending_watch_refresh \<Rightarrow> pending_watch_refresh" where
  "include_refresh refresh f =
     (case refresh of
        RefreshNone \<Rightarrow> f
      | RefreshTarget target_id \<Rightarrow>
          if pf_all f then f else f\<lparr>pf_targets := List.insert target_id (pf_targets f)\<rparr>
      | RefreshAll \<Rightarrow> f\<lparr>pf_all := True, pf_targets := []\<rparr>)"

definition take_targets ::
  "(string \<times> soft_disk_target) list \<Rightarrow> pending_watch_refresh \<Rightarrow>
    string list \<times> pending_watch_refresh" where
  "take_targets current f = (if pf_all f then map fst current else pf_targets f, no_refresh)"

record soft_monitor =
  mo_watcher :: "soft_disk_watcher option"
  mo_planner :: planner
  mo_targets :: "(string \<times> soft_disk_target) list"
  mo_root_identities :: root_identity_tracker
  mo_watch_queue :: watch_operation_queue
  mo_watch_tasks :: "watch_operation list"
  mo_forced :: pending_watch_refresh
  mo_scans :: "running_scan list"
  mo_sequence :: nat
  mo_limiter :: soft_disk_limiter

text \<open>Whether the watcher's backend could be created when the monitor starts is \<open>created\<close>.\<close>

definition monitor_new :: "app_constants \<Rightarrow> nat \<Rightarrow> bool \<Rightarrow> soft_monitor" where
  "monitor_new app started created =
     (let scanner = ac_scanner app;
          watcher = (if cf_use_inotify scanner
            then Some (watcher_new (cf_max_dirty_paths_per_instance scanner) started created)
            else None)
      in \<lparr>mo_watcher = watcher,
          mo_planner = planner_new \<lparr>scan_interval = SoftLimiter.scan_interval scanner * 1000000000,
            full_scan_interval = max (cf_full_scan_interval_seconds scanner) 1 * 1000000000,
            debounce = max (cf_inotify_debounce_milliseconds scanner) 1 * 1000000,
            watcher_enabled = (watcher \<noteq> None)\<rparr>,
          mo_targets = [], mo_root_identities = [], mo_watch_queue = queue_default,
          mo_watch_tasks = [], mo_forced = no_refresh, mo_scans = [],
          mo_sequence = (case watcher of None \<Rightarrow> 0 | Some w \<Rightarrow> sh_change_sequence w),
          mo_limiter = soft_limiter_new scanner\<rparr>)"

definition retire_watch :: "string \<Rightarrow> soft_monitor \<Rightarrow> component list option \<times> soft_monitor" where
  "retire_watch target_id m =
     (case mo_watcher m of
        None \<Rightarrow> (None, m)
      | Some w \<Rightarrow> (let (retired, w) = retire target_id w in (retired, m\<lparr>mo_watcher := Some w\<rparr>)))"

definition target_is_watching :: "soft_disk_watcher \<Rightarrow> string \<Rightarrow> bool" where
  "target_is_watching w target_id =
     (case watch_status (sh_global_generation w) target_id w of
        None \<Rightarrow> False | Some status \<Rightarrow> tw_status status = Watching)"

definition watcher_is_trusted ::
  "soft_disk_watcher \<Rightarrow> watch_operation_queue \<Rightarrow> string \<Rightarrow> bool" where
  "watcher_is_trusted w q target_id \<longleftrightarrow>
     is_current_desire_confirmed target_id q \<and> target_is_watching w target_id"

section \<open>Keeping the targets\<close>

definition desired_for ::
  "app_constants \<Rightarrow> soft_disk_target \<Rightarrow> root_identity option \<Rightarrow> desired_watch" where
  "desired_for app target identity =
     (let fingerprint = scanner_fingerprint (ac_hex_sha256 app) target
      in \<lparr>dw_fingerprint = watch_fingerprint (ac_hex_sha256 app) fingerprint identity,
          dw_target_fingerprint = fingerprint,
          dw_root = path_components (tg_data_path target)\<rparr>)"

definition sync_watch ::
  "app_constants \<Rightarrow> soft_disk_target \<Rightarrow> root_identity option \<Rightarrow> soft_monitor \<Rightarrow> soft_monitor" where
  "sync_watch app target identity m =
     (let target_id = tg_instance_id target;
          mmap = mmap_writes_bypass_inotify (tg_protocol target)
      in if mo_watcher m \<noteq> None \<and> \<not> mmap
         then m\<lparr>mo_watch_queue :=
           queue_upsert target_id (desired_for app target identity) (mo_watch_queue m)\<rparr>
         else if mmap
         then let (retired, m) = retire_watch target_id m
              in m\<lparr>mo_watch_queue := queue_remove target_id retired (mo_watch_queue m)\<rparr>
         else m)"

definition sync_candidate ::
  "app_constants \<Rightarrow> nat \<Rightarrow> soft_disk_target \<Rightarrow> soft_monitor \<Rightarrow> soft_monitor" where
  "sync_candidate app now target m =
     (let target_id = tg_instance_id target;
          fingerprint = scanner_fingerprint (ac_hex_sha256 app) target;
          root_identity = identity_for target_id fingerprint (mo_root_identities m);
          watch_fp = watch_fingerprint (ac_hex_sha256 app) fingerprint root_identity;
          mmap = mmap_writes_bypass_inotify (tg_protocol target);
          m = sync_watch app target root_identity m;
          trusted = (\<not> mmap \<and> (case mo_watcher m of
              None \<Rightarrow> False
            | Some w \<Rightarrow> is_confirmed target_id watch_fp (mo_watch_queue m)
                \<and> target_is_watching w target_id))
      in m\<lparr>mo_planner := snd (upsert_target now \<lparr>ts_id = target_id, ts_fingerprint = fingerprint,
               ts_root_identity = root_identity, ts_enabled = True, ts_watcher_trusted = trusted,
               ts_force_periodic_full = mmap\<rparr> (mo_planner m)),
           mo_targets := hm_insert (mo_targets m) target_id target\<rparr>)"

definition sync_removed :: "string \<Rightarrow> soft_monitor \<Rightarrow> soft_monitor" where
  "sync_removed target_id m =
     (let (retired, m) = retire_watch target_id (m\<lparr>mo_targets := hm_remove (mo_targets m) target_id,
            mo_planner := snd (Planner.remove_target target_id (mo_planner m))\<rparr>)
      in m\<lparr>mo_watch_queue := queue_remove target_id retired (mo_watch_queue m),
           mo_limiter := evict_target target_id (mo_limiter m)\<rparr>)"

definition current_fingerprints ::
  "app_constants \<Rightarrow> soft_disk_target list \<Rightarrow> (string \<times> string) list" where
  "current_fingerprints app candidates =
     fold (\<lambda>target current. hm_insert current (tg_instance_id target)
       (scanner_fingerprint (ac_hex_sha256 app) target)) candidates []"

definition sync_finish :: "(string \<times> string) list \<Rightarrow> soft_monitor \<Rightarrow> soft_monitor" where
  "sync_finish current m =
     (let m = m\<lparr>mo_root_identities := retain_targets current (mo_root_identities m)\<rparr>
      in if mo_watcher m \<noteq> None
         then m\<lparr>mo_watch_queue := request_retry (mo_watch_queue m)\<rparr> else m)"

definition sync_soft_disk_targets ::
  "app_constants \<Rightarrow> monitored_metadata list \<Rightarrow> engine_runtime list option \<Rightarrow> nat \<Rightarrow>
    soft_monitor \<Rightarrow> soft_monitor" where
  "sync_soft_disk_targets app instances placements now m =
     (let candidates = sync_candidates app instances placements (mo_targets m);
          current = current_fingerprints app candidates;
          m = fold (sync_candidate app now) candidates m;
          removed = filter (\<lambda>i. hm_get current i = None) (map fst (mo_targets m));
          m = fold sync_removed removed m
      in sync_finish current m)"

definition observe_root_identity ::
  "app_constants \<Rightarrow> string \<Rightarrow> string \<Rightarrow> root_identity \<Rightarrow> nat \<Rightarrow> soft_monitor \<Rightarrow>
    observation_disposition \<times> soft_monitor" where
  "observe_root_identity app target_id completed_fingerprint identity now m =
     (case hm_get (mo_targets m) target_id of
        None \<Rightarrow> (StaleTarget, m)
      | Some target \<Rightarrow>
          let current_fingerprint = scanner_fingerprint (ac_hex_sha256 app) target;
              (disposition, observations) = observe target_id completed_fingerprint
                current_fingerprint identity (mo_root_identities m);
              m = m\<lparr>mo_root_identities := observations\<rparr>;
              mmap = mmap_writes_bypass_inotify (tg_protocol target)
          in if disposition \<noteq> Initialized \<and> disposition \<noteq> Replaced then (disposition, m)
             else
               let m = (if mo_watcher m \<noteq> None \<and> \<not> mmap
                     then m\<lparr>mo_watch_queue := queue_upsert target_id
                            (desired_for app target (Some identity)) (mo_watch_queue m)\<rparr>
                     else m)
               in (disposition, m\<lparr>mo_planner := snd (upsert_target now \<lparr>ts_id = target_id,
                     ts_fingerprint = current_fingerprint, ts_root_identity = Some identity,
                     ts_enabled = True, ts_watcher_trusted = False,
                     ts_force_periodic_full = mmap\<rparr> (mo_planner m))\<rparr>))"

section \<open>Watch operations\<close>

datatype watch_operation_result =
    Registered watch_registration root_identity
  | Unregistered
  | Retried retry_summary

datatype watch_operation_error =
    RootNotIdentified scan_error
  | RegistrationRefused watch_registration_error
  | WatchedRootNotIdentified scan_error
  | RootReplaced
  | WorkerPanicked

text \<open>
  What a worker meets: the answers of the notification backend, what the kernel says of the root
  before and after the registration, the clock, and what other threads do meanwhile.
\<close>

record watch_worker =
  ww_backend :: backend_answers
  ww_before :: "errno + file_stat"
  ww_after :: "errno + file_stat"
  ww_started :: nat
  ww_now :: nat
  ww_others :: "nat \<Rightarrow> interference"

definition withdraw_registration ::
  "watch_worker \<Rightarrow> string \<Rightarrow> soft_disk_watcher \<Rightarrow> soft_disk_watcher" where
  "withdraw_registration ww target_id w =
     (let (retired, w) = retire target_id w
      in case retired of
           None \<Rightarrow> w
         | Some token \<Rightarrow> unwatch_retired (ww_backend ww) token (ww_now ww) (ww_others ww 5 w))"

definition run_watch_operation ::
  "watch_worker \<Rightarrow> watch_operation \<Rightarrow> soft_disk_watcher \<Rightarrow>
    (watch_operation_error + watch_operation_result) \<times> soft_disk_watcher" where
  "run_watch_operation ww operation w =
     (case operation of
        RegisterOp target_id desired \<Rightarrow>
          (case root_identity_of (ww_before ww) of
             Inl e \<Rightarrow> (Inl (RootNotIdentified e), w)
           | Inr opened_identity \<Rightarrow>
               let (registered, w) = register (ww_others ww) (ww_backend ww) target_id
                     (dw_fingerprint desired) (dw_root desired) (ww_started ww) (ww_now ww) w
               in case registered of
                    Inl e \<Rightarrow> (Inl (RegistrationRefused e), w)
                  | Inr registration \<Rightarrow>
                      let w = ww_others ww 4 w
                      in case root_identity_of (ww_after ww) of
                           Inl e \<Rightarrow> (Inl (WatchedRootNotIdentified e),
                             withdraw_registration ww target_id w)
                         | Inr identity \<Rightarrow>
                             if identity \<noteq> opened_identity
                             then (Inl RootReplaced, withdraw_registration ww target_id w)
                             else (Inr (Registered registration identity), w))
      | UnregisterOp _ retired \<Rightarrow>
          (Inr Unregistered, unwatch_retired (ww_backend ww) retired (ww_now ww) w)
      | RetryDegradedOp \<Rightarrow>
          (let (summary, w) = retry_degraded (ww_others ww 0) (ww_backend ww) (ww_now ww) w
           in (Inr (Retried summary), w)))"

definition dispatch_watch :: "nat \<Rightarrow> soft_monitor \<Rightarrow> soft_monitor" where
  "dispatch_watch now m =
     (if mo_watcher m = None then m
      else
        let (operation, queue) = queue_next now (mo_watch_queue m);
            m = m\<lparr>mo_watch_queue := queue\<rparr>
        in case operation of
             None \<Rightarrow> m
           | Some operation \<Rightarrow> m\<lparr>mo_watch_tasks := mo_watch_tasks m @ [operation]\<rparr>)"

fun operation_refresh :: "watch_operation \<Rightarrow> watch_refresh" where
  "operation_refresh (RegisterOp target_id _) = RefreshTarget target_id"
| "operation_refresh (UnregisterOp _ _) = RefreshNone"
| "operation_refresh RetryDegradedOp = RefreshAll"

definition retirement_target :: "watch_operation \<Rightarrow> watch_operation_queue \<Rightarrow> string option" where
  "retirement_target operation q =
     (case operation of
        RegisterOp target_id _ \<Rightarrow> if retirement_pending target_id q then Some target_id else None
      | _ \<Rightarrow> None)"

definition operation_succeeded ::
  "watch_operation \<Rightarrow> watch_operation_error + watch_operation_result \<Rightarrow> soft_monitor \<Rightarrow> bool" where
  "operation_succeeded operation result m =
     (case result of
        Inl _ \<Rightarrow> False
      | Inr outcome \<Rightarrow>
          (case (operation, outcome) of
             (RegisterOp target_id desired, Registered registration _) \<Rightarrow>
               retirement_target operation (mo_watch_queue m) = None
               \<and> wr_status registration = Watching
               \<and> (case mo_watcher m of
                    None \<Rightarrow> False | Some w \<Rightarrow> is_watching target_id (dw_fingerprint desired) w)
           | _ \<Rightarrow> True))"

definition fail_watch :: "nat \<Rightarrow> nat \<Rightarrow> soft_monitor \<Rightarrow> watch_refresh \<times> soft_monitor" where
  "fail_watch now retry_delay' m =
     (let (operation, queue) = fail_active now retry_delay' (mo_watch_queue m)
      in (case operation of
            None \<Rightarrow> RefreshAll
          | Some operation \<Rightarrow>
              (case operation_target_id operation of
                 None \<Rightarrow> RefreshAll | Some target_id \<Rightarrow> RefreshTarget target_id),
          m\<lparr>mo_watch_queue := queue\<rparr>))"

definition observe_registration ::
  "app_constants \<Rightarrow> watch_operation \<Rightarrow> watch_operation_error + watch_operation_result \<Rightarrow> nat \<Rightarrow>
    soft_monitor \<Rightarrow> soft_monitor" where
  "observe_registration app operation result now m =
     (case (operation, result) of
        (RegisterOp target_id desired, Inr (Registered _ identity)) \<Rightarrow>
          snd (observe_root_identity app target_id (dw_target_fingerprint desired) identity now m)
      | _ \<Rightarrow> m)"

text \<open>The interference comes before the watch of a target that was removed meanwhile is retired.\<close>

definition finish_watch ::
  "app_constants \<Rightarrow> interference \<Rightarrow> watch_operation \<times> (watch_operation_error + watch_operation_result) \<Rightarrow>
    nat \<Rightarrow> nat \<Rightarrow> soft_monitor \<Rightarrow> watch_refresh \<times> soft_monitor" where
  "finish_watch app other completed now retry_delay' m =
     (let (operation, result) = completed;
          refresh = operation_refresh operation;
          retirement = retirement_target operation (mo_watch_queue m);
          succeeded = operation_succeeded operation result m;
          current_registration = is_current_registration operation (mo_watch_queue m);
          (completed, queue) = queue_complete operation succeeded now retry_delay' (mo_watch_queue m);
          m = m\<lparr>mo_watch_queue := queue\<rparr>
      in if \<not> completed then (refresh, m)
         else
           let m = (if succeeded \<and> current_registration
                 then observe_registration app operation result now m else m)
           in case retirement of
                None \<Rightarrow> (refresh, m)
              | Some target_id \<Rightarrow>
                  let (retired, m) = retire_watch target_id
                        (m\<lparr>mo_watcher := map_option other (mo_watcher m)\<rparr>)
                  in (refresh, m\<lparr>mo_watch_queue :=
                        resolve_retirement target_id retired (mo_watch_queue m)\<rparr>))"

section \<open>Changes the watcher reports\<close>

text \<open>The global generation is read before the lock is taken, see \<^const>\<open>capture\<close>.\<close>

definition refresh_target ::
  "interference \<Rightarrow> nat \<Rightarrow> nat \<Rightarrow> string \<Rightarrow> soft_monitor \<Rightarrow> soft_monitor" where
  "refresh_target other global_generation now target_id m =
     (case (mo_watcher m, hm_get (mo_targets m) target_id) of
        (Some w, Some _) \<Rightarrow>
          let trusted = watcher_is_trusted w (mo_watch_queue m) target_id;
              p = snd (set_watcher_trusted target_id trusted now (mo_planner m))
          in if \<not> trusted then m\<lparr>mo_planner := p\<rparr>
             else
               let w = other w
               in (case capture global_generation target_id w of
                     None \<Rightarrow> m\<lparr>mo_watcher := Some w, mo_planner := p\<rparr>
                   | Some batch \<Rightarrow>
                       m\<lparr>mo_watcher := Some w, mo_planner := snd (if db_full_reconcile batch
                         then mark_overflow target_id now (db_target_generation batch) p
                         else Planner.mark_dirty target_id now (db_target_generation batch) p)\<rparr>)
      | _ \<Rightarrow> m)"

text \<open>The targets to look at: the ones asked for and the ones the watcher reports.\<close>

definition drain_work :: "soft_monitor \<Rightarrow> string list \<times> soft_monitor" where
  "drain_work m =
     (case mo_watcher m of
        None \<Rightarrow> ([], m\<lparr>mo_forced := no_refresh\<rparr>)
      | Some w \<Rightarrow>
          let (changes, w) = drain_changes w;
              (forced, rest) = take_targets (mo_targets m) (mo_forced m)
          in (if changes_empty changes \<and> forced = [] then []
              else fold List.insert (if wc_global_reconcile changes
                then map fst (mo_targets m) else wc_target_ids changes) forced,
              m\<lparr>mo_watcher := Some w, mo_forced := rest, mo_sequence := wc_sequence changes\<rparr>))"

definition refresh_watcher_work ::
  "(nat \<Rightarrow> interference) \<Rightarrow> (nat \<Rightarrow> nat) \<Rightarrow> nat \<Rightarrow> soft_monitor \<Rightarrow> soft_monitor" where
  "refresh_watcher_work others global_generations now m =
     (let (changed, m) = drain_work m
      in fold (\<lambda>(k, i). refresh_target (others k) (global_generations k) now i)
           (enumerate 0 changed) m)"

section \<open>Scans\<close>

text \<open>The text of a relative path with the given components.\<close>

fun path_text :: "path \<Rightarrow> string" where
  "path_text [] = []"
| "path_text [name] = name"
| "path_text (name # names) = name @ ''/'' @ path_text names"

definition scan_request ::
  "bool \<Rightarrow> soft_disk_target \<Rightarrow> scan_candidate \<Rightarrow> dirty_batch option \<Rightarrow> hybrid_scan_request" where
  "scan_request trusted target candidate batch =
     (if \<not> trusted \<or> mmap_writes_bypass_inotify (tg_protocol target) then RequestStreamingFull
      else case batch of
        None \<Rightarrow> RequestFull
      | Some b \<Rightarrow>
          if sc_kind candidate = Full \<or> db_full_reconcile b then RequestFull
          else RequestPartial (map path_text (db_relative_paths b)))"

definition dispatch_candidate ::
  "interference \<Rightarrow> nat \<Rightarrow> scan_candidate \<Rightarrow> soft_disk_target \<Rightarrow> soft_monitor \<Rightarrow> soft_monitor" where
  "dispatch_candidate other global_generation candidate target m =
     (let target_id = sc_target_id candidate;
          trusted = (case mo_watcher m of
              None \<Rightarrow> False | Some w \<Rightarrow> watcher_is_trusted w (mo_watch_queue m) target_id);
          m = (if trusted then m\<lparr>mo_watcher := map_option other (mo_watcher m)\<rparr> else m);
          batch = (if trusted
            then Option.bind (mo_watcher m) (capture global_generation target_id) else None)
      in m\<lparr>mo_scans := mo_scans m @ [\<lparr>rn_candidate = candidate, rn_batch = batch,
           rn_target = target, rn_request = scan_request trusted target candidate batch\<rparr>]\<rparr>)"

text \<open>One round of the dispatch loop, and whether it goes on.\<close>

definition dispatch_step ::
  "interference \<Rightarrow> nat \<Rightarrow> nat \<Rightarrow> nat \<Rightarrow> soft_monitor \<Rightarrow> bool \<times> soft_monitor" where
  "dispatch_step other global_generation limit now m =
     (if \<not> length (mo_scans m) < limit then (False, m)
      else
        let (candidate, p) = next_candidate now (mo_planner m);
            m = m\<lparr>mo_planner := p\<rparr>
        in case candidate of
             None \<Rightarrow> (False, m)
           | Some candidate \<Rightarrow>
               (True, case hm_get (mo_targets m) (sc_target_id candidate) of
                  None \<Rightarrow> m\<lparr>mo_planner := snd (Planner.complete candidate now Planner.Failed p)\<rparr>
                | Some target \<Rightarrow> dispatch_candidate other global_generation candidate target m))"

partial_function (option) dispatch_due_scans ::
  "(nat \<Rightarrow> interference) \<Rightarrow> (nat \<Rightarrow> nat) \<Rightarrow> nat \<Rightarrow> nat \<Rightarrow> nat \<Rightarrow> soft_monitor \<Rightarrow>
    soft_monitor option" where
  "dispatch_due_scans others global_generations limit now k m =
     (let (continues, m) = dispatch_step (others k) (global_generations k) limit now m
      in if continues then dispatch_due_scans others global_generations limit now (k + 1) m
         else Some m)"

record completed_soft_disk_scan =
  cp_scan :: running_scan
  cp_result :: "message + hybrid_scan_execution"

text \<open>
  What a scan worker meets: whether it got the lock of the instance in time, and whether it
  panicked, which leaves the limiter in some state.
\<close>

record scan_worker_run =
  sw_locked :: bool
  sw_panic :: "soft_disk_limiter option"
  sw_floats :: floats
  sw_runtime :: soft_disk_runtime
  sw_environment :: scan_environment
  sw_now :: nat

definition run_scan_task ::
  "app_constants \<Rightarrow> scan_worker_run \<Rightarrow> running_scan \<Rightarrow> soft_disk_limiter \<Rightarrow>
    completed_soft_disk_scan \<times> runtime_call list \<times> soft_disk_limiter" where
  "run_scan_task app sw scan l =
     (let (result, calls, l) =
        (if \<not> sw_locked sw
         then (Inl [Text ''soft disk scan lifecycle lock was unavailable for '',
                Num (max (cf_scan_timeout_seconds (ac_scanner app)) 1), Text '' seconds''], [], l)
         else case sw_panic sw of
           Some left \<Rightarrow> (Inl [Text ''soft disk scan task panicked''], [], left)
         | None \<Rightarrow> scan_hybrid_and_enforce (ac_hex_sha256 app) (sw_floats sw) (ac_scanner app)
             (sw_runtime sw) (rn_target scan) (rn_request scan) (sw_environment sw) (sw_now sw) l)
      in (\<lparr>cp_scan = scan, cp_result = result\<rparr>, calls, l))"

definition scan_completion_of :: "message + hybrid_scan_execution \<Rightarrow> scan_completion" where
  "scan_completion_of result =
     (case result of
        Inl _ \<Rightarrow> Planner.Failed
      | Inr execution \<Rightarrow>
          if he_measurement_succeeded execution
          then Succeeded (case he_performed execution of
                 PerformedFull \<Rightarrow> Full | PerformedPartial \<Rightarrow> Partial)
          else Planner.Failed)"

definition measured_identity :: "message + hybrid_scan_execution \<Rightarrow> root_identity option" where
  "measured_identity result =
     (case result of
        Inl _ \<Rightarrow> None
      | Inr execution \<Rightarrow>
          if he_measurement_succeeded execution then he_root_identity execution else None)"

text \<open>The first half of applying a result also says which batch is to be acknowledged.\<close>

definition settle_scan ::
  "app_constants \<Rightarrow> completed_soft_disk_scan \<Rightarrow> nat \<Rightarrow> soft_monitor \<Rightarrow>
    dirty_batch option \<times> soft_monitor" where
  "settle_scan app completed now m =
     (let scan = cp_scan completed;
          completion = scan_completion_of (cp_result completed);
          (disposition, p) = Planner.complete (rn_candidate scan) now completion (mo_planner m);
          m = m\<lparr>mo_planner := p\<rparr>
      in case measured_identity (cp_result completed) of
           None \<Rightarrow> (None, m)
         | Some identity \<Rightarrow>
             if disposition \<noteq> Applied then (None, m)
             else
               let (observed, m) = observe_root_identity app (tg_instance_id (rn_target scan))
                     (scanner_fingerprint (ac_hex_sha256 app) (rn_target scan)) identity now m
               in (if observed = SameRoot then rn_batch scan else None, m))"

definition apply_soft_disk_scan ::
  "app_constants \<Rightarrow> completed_soft_disk_scan \<Rightarrow> nat \<Rightarrow> soft_monitor \<Rightarrow> soft_monitor" where
  "apply_soft_disk_scan app completed now m =
     (let (acknowledged, m) = settle_scan app completed now m
      in case (mo_watcher m, acknowledged) of
           (Some w, Some batch) \<Rightarrow> m\<lparr>mo_watcher := Some (snd (acknowledge batch w))\<rparr>
         | _ \<Rightarrow> m)"

text \<open>A worker that was aborted returns nothing.\<close>

definition finish_soft_disk_scan ::
  "app_constants \<Rightarrow> completed_soft_disk_scan option \<Rightarrow> nat \<Rightarrow> soft_monitor \<Rightarrow> soft_monitor" where
  "finish_soft_disk_scan app completed now m =
     (case completed of None \<Rightarrow> m | Some completed \<Rightarrow> apply_soft_disk_scan app completed now m)"

section \<open>The loop\<close>

definition planner_delay :: "app_constants \<Rightarrow> nat \<Rightarrow> soft_monitor \<Rightarrow> nat" where
  "planner_delay app now m =
     (let base_interval = SoftLimiter.scan_interval (ac_scanner app) * 1000000000
      in if length (mo_scans m) < max_concurrent_scans (ac_scanner app)
         then min (case next_wakeup now (mo_planner m) of
                None \<Rightarrow> base_interval | Some delay \<Rightarrow> delay) base_interval
         else base_interval)"

definition distrust :: "nat \<Rightarrow> string \<Rightarrow> soft_monitor \<Rightarrow> soft_monitor" where
  "distrust now i m = m\<lparr>mo_planner := snd (set_watcher_trusted i False now (mo_planner m)),
     mo_limiter := evict_target i (mo_limiter m)\<rparr>"

definition disable_watcher :: "nat \<Rightarrow> soft_monitor \<Rightarrow> soft_monitor" where
  "disable_watcher now m =
     fold (distrust now) (map fst (mo_targets m))
       (m\<lparr>mo_watch_tasks := [], mo_watch_queue := queue_disable (mo_watch_queue m),
          mo_watcher := None, mo_sequence := 0\<rparr>)"

definition check_stalled :: "app_constants \<Rightarrow> nat \<Rightarrow> soft_monitor \<Rightarrow> soft_monitor" where
  "check_stalled app now m =
     (let (stalled, queue) = take_stalled now
            (max (cf_scan_timeout_seconds (ac_scanner app)) 1 * 1000000000) (mo_watch_queue m);
          m = m\<lparr>mo_watch_queue := queue\<rparr>
      in if stalled = None then m else disable_watcher now m)"

text \<open>A worker that has ended is taken out of the running ones; one that was aborted or panicked
  returns nothing.\<close>

definition join_scan ::
  "app_constants \<Rightarrow> running_scan \<Rightarrow> completed_soft_disk_scan option \<Rightarrow> nat \<Rightarrow> soft_monitor \<Rightarrow>
    soft_monitor" where
  "join_scan app scan completed now m =
     finish_soft_disk_scan app completed now (m\<lparr>mo_scans := remove1 scan (mo_scans m)\<rparr>)"

definition join_watch ::
  "app_constants \<Rightarrow> interference \<Rightarrow> watch_operation \<Rightarrow>
    (watch_operation_error + watch_operation_result) option \<Rightarrow> nat \<Rightarrow> soft_monitor \<Rightarrow> soft_monitor" where
  "join_watch app other operation result now m =
     (let base_interval = SoftLimiter.scan_interval (ac_scanner app) * 1000000000;
          m = m\<lparr>mo_watch_tasks := remove1 operation (mo_watch_tasks m)\<rparr>;
          (refresh, m) = (case result of
              None \<Rightarrow> fail_watch now base_interval m
            | Some result \<Rightarrow> finish_watch app other (operation, result) now base_interval m)
      in m\<lparr>mo_forced := include_refresh refresh (mo_forced m)\<rparr>)"

text \<open>
  What ends the wait of a round, and what a round meets: the workers that have already ended, what
  other threads do and the clock, by the place in the round and the repetition there.
\<close>

datatype loop_event =
    ShutdownChanged bool
  | ScanJoined running_scan "completed_soft_disk_scan option"
  | WatchJoined watch_operation "(watch_operation_error + watch_operation_result) option"
  | Ticked "monitored_metadata list" "engine_runtime list option"
  | WatcherChanged nat
  | Slept

record round_input =
  rd_scans :: "(running_scan \<times> completed_soft_disk_scan option) list"
  rd_watches :: "(watch_operation \<times> (watch_operation_error + watch_operation_result) option) list"
  rd_event :: loop_event
  rd_others :: "nat \<Rightarrow> nat \<Rightarrow> interference"
  rd_generations :: "nat \<Rightarrow> nat \<Rightarrow> nat"
  rd_now :: "nat \<Rightarrow> nat \<Rightarrow> nat"

definition collect_finished :: "app_constants \<Rightarrow> round_input \<Rightarrow> soft_monitor \<Rightarrow> soft_monitor" where
  "collect_finished app rd m =
     (let m = fold (\<lambda>(k, scan, completed). join_scan app scan completed (rd_now rd 0 k))
            (enumerate 0 (rd_scans rd)) m
      in fold (\<lambda>(k, operation, result).
           join_watch app (rd_others rd 1 k) operation result (rd_now rd 1 k))
           (enumerate 0 (rd_watches rd)) m)"

definition handle_event ::
  "app_constants \<Rightarrow> round_input \<Rightarrow> soft_monitor \<Rightarrow> soft_monitor + soft_monitor" where
  "handle_event app rd m =
     (case rd_event rd of
        ShutdownChanged stop \<Rightarrow>
          if stop then Inl (m\<lparr>mo_planner := shutdown (mo_planner m), mo_scans := [],
            mo_watch_tasks := []\<rparr>)
          else Inr m
      | ScanJoined scan completed \<Rightarrow> Inr (join_scan app scan completed (rd_now rd 5 0) m)
      | WatchJoined operation result \<Rightarrow>
          Inr (join_watch app (rd_others rd 5 0) operation result (rd_now rd 5 0) m)
      | Ticked instances placements \<Rightarrow>
          Inr (sync_soft_disk_targets app instances placements (rd_now rd 5 0) m)
      | WatcherChanged sequence \<Rightarrow> Inr (m\<lparr>mo_sequence := sequence\<rparr>)
      | Slept \<Rightarrow> Inr m)"

text \<open>One round of the loop: \<open>Inl\<close> when the task returns, \<open>None\<close> if the round does not end.\<close>

definition monitor_round ::
  "app_constants \<Rightarrow> round_input \<Rightarrow> soft_monitor \<Rightarrow> (soft_monitor + soft_monitor) option" where
  "monitor_round app rd m =
     (let m = collect_finished app rd m;
          m = refresh_watcher_work (rd_others rd 2) (rd_generations rd 2) (rd_now rd 2 0) m;
          m = dispatch_watch (rd_now rd 3 0) m
      in Option.bind (dispatch_due_scans (rd_others rd 4) (rd_generations rd 4)
             (max_concurrent_scans (ac_scanner app)) (rd_now rd 4 0) 0 m) (\<lambda>m.
           Some (bind_result (handle_event app rd m) (\<lambda>m.
             let m = refresh_watcher_work (rd_others rd 6) (rd_generations rd 6) (rd_now rd 6 0) m
             in Inr (check_stalled app (rd_now rd 7 0) m)))))"

definition monitor_start ::
  "app_constants \<Rightarrow> nat \<Rightarrow> bool \<Rightarrow> monitored_metadata list \<Rightarrow> engine_runtime list option \<Rightarrow>
    round_input \<Rightarrow> soft_monitor" where
  "monitor_start app started created instances placements rd =
     (let m = sync_soft_disk_targets app instances placements (rd_now rd 5 0)
            (monitor_new app started created)
      in refresh_watcher_work (rd_others rd 6) (rd_generations rd 6) (rd_now rd 6 0) m)"


end
