(* ===== verification/WatcherProps.thy ===== *)
theory WatcherProps
  imports Watcher
begin

text \<open>
  No change is lost: in every run of the watcher's critical sections, in any order, each change
  that was reported for a registered target is still marked as pending, or a batch that covers
  it was captured afterwards and has been acknowledged.
\<close>

section \<open>Marks\<close>

text \<open>A mark newer than generation \<open>g\<close> covers the directory \<open>d\<close>.\<close>

definition covered :: "path \<Rightarrow> nat \<Rightarrow> target_state \<Rightarrow> bool" where
  "covered d g t \<longleftrightarrow> (\<exists>f. wt_full_generation t = Some f \<and> g < f)
     \<or> (\<exists>q m. om_get (wt_dirty_paths t) q = Some m \<and> prefix q d \<and> g < m)"

definition target_ok :: "target_state \<Rightarrow> bool" where
  "target_ok t \<longleftrightarrow> om.every (\<lambda>q m. m \<le> wt_target_generation t) (wt_dirty_paths t)
     \<and> (\<forall>f. wt_full_generation t = Some f \<longrightarrow> f \<le> wt_target_generation t \<and> wt_dirty_paths t = [])"

text \<open>\<open>t'\<close> is \<open>t\<close> after at most \<open>n\<close> more marks.\<close>

definition grows :: "nat \<Rightarrow> target_state \<Rightarrow> target_state \<Rightarrow> bool" where
  "grows n t t' \<longleftrightarrow> wt_registration_generation t' = wt_registration_generation t
     \<and> wt_fingerprint t' = wt_fingerprint t
     \<and> wt_target_generation t \<le> wt_target_generation t'
     \<and> wt_target_generation t' \<le> wt_target_generation t + n
     \<and> (target_ok t \<longrightarrow> target_ok t' \<and> (\<forall>d g. covered d g t \<longrightarrow> covered d g t'))"

lemma grows_refl [intro]: "grows n t t"
  by (simp add: grows_def)

lemma grows_trans: "grows m t t' \<Longrightarrow> grows n t' t'' \<Longrightarrow> grows (m + n) t t''"
  by (auto simp: grows_def)

lemma next_nonzero_Suc: "n < u64_max \<Longrightarrow> next_nonzero n = n + 1"
  by (simp add: next_nonzero_def Let_def)

lemma mark_full_grows:
  assumes "wt_target_generation t < u64_max"
  shows "grows 1 t (mark_full t) \<and> covered d (wt_target_generation t) (mark_full t)"
  using assms
  by (auto simp: grows_def mark_full_def next_generation_def Let_def next_nonzero_Suc target_ok_def
      covered_def om.every_def) (meson le_imp_less_Suc less_le_trans less_imp_le_nat)+

lemma nearest_recorded_ancestor_Some:
  "nearest_recorded_ancestor paths p = Some q \<Longrightarrow> prefix q p \<and> om_get paths q \<noteq> None"
proof (induction paths p rule: nearest_recorded_ancestor.induct)
  case (1 paths p)
  show ?case
  proof (cases "om_get paths p = None \<and> p \<noteq> []")
    case True
    then have "prefix q (butlast p) \<and> om_get paths q \<noteq> None"
      using 1 by (simp add: nearest_recorded_ancestor.simps [of paths p])
    then show ?thesis using prefix_order.trans [OF _ prefixeq_butlast] by blast
  next
    case False
    then show ?thesis
      using 1(2) by (auto simp: nearest_recorded_ancestor.simps [of paths p] split: if_splits)
  qed
qed

lemma om_get_filter:
  assumes "om_wf m"
  shows "om_get (filter P m) k = Some v \<longleftrightarrow> om_get m k = Some v \<and> P (k, v)"
proof -
  have "om_wf (filter P m)" using assms by (simp add: om_wf_def sorted_wrt_map sorted_wrt_filter)
  then show ?thesis using assms by (simp flip: om_get_iff)
qed

lemma om_wf_filter: "om_wf m \<Longrightarrow> om_wf (filter P m)"
  by (simp add: om_wf_def sorted_wrt_map sorted_wrt_filter)

lemma next_generation_simps [simp]:
  "wt_registration_generation (next_generation t) = wt_registration_generation t"
  "wt_fingerprint (next_generation t) = wt_fingerprint t"
  "wt_full_generation (next_generation t) = wt_full_generation t"
  "wt_dirty_paths (next_generation t) = wt_dirty_paths t"
  "wt_target_generation t < u64_max \<Longrightarrow>
    wt_target_generation (next_generation t) = wt_target_generation t + 1"
  by (simp_all add: next_generation_def next_nonzero_Suc)

text \<open>Replacing the dirty paths by newer marks that cover everything the old ones covered.\<close>

lemma grows_dirty:
  assumes "wt_target_generation t < u64_max" "wt_full_generation t = None"
    and "om_wf (wt_dirty_paths t) \<Longrightarrow> om_wf dirty"
    and "\<And>q m. om_wf (wt_dirty_paths t) \<Longrightarrow> om_get dirty q = Some m \<Longrightarrow>
      m = wt_target_generation t + 1 \<or> om_get (wt_dirty_paths t) q = Some m"
    and "\<And>q m. om_wf (wt_dirty_paths t) \<Longrightarrow> om_get (wt_dirty_paths t) q = Some m \<Longrightarrow>
      om_get dirty q = Some m
      \<or> (\<exists>q'. prefix q' q \<and> om_get dirty q' = Some (wt_target_generation t + 1))"
  shows "grows 1 t (next_generation t\<lparr>wt_dirty_paths := dirty\<rparr>)"
proof -
  let ?t = "next_generation t\<lparr>wt_dirty_paths := dirty\<rparr>"
  have "target_ok ?t \<and> (\<forall>d g. covered d g t \<longrightarrow> covered d g ?t)" if ok: "target_ok t"
  proof -
    have wf: "om_wf (wt_dirty_paths t)" using ok by (simp add: target_ok_def om.every_def)
    have le: "m \<le> wt_target_generation t" if "om_get (wt_dirty_paths t) q = Some m" for q m
      using ok that by (simp add: target_ok_def om.every_def)
    have "m \<le> wt_target_generation t + 1" if "om_get dirty q = Some m" for q m
      using assms(4) [OF wf that] le by force
    then have "target_ok ?t" using assms(1-3) wf by (simp add: target_ok_def om.every_def)
    moreover have "covered d g ?t" if c: "covered d g t" for d g
    proof -
      obtain q m where q: "om_get (wt_dirty_paths t) q = Some m" "prefix q d" "g < m"
        using c assms(2) by (auto simp: covered_def)
      then have "g < wt_target_generation t + 1" using le by force
      then show ?thesis
        using assms(5) [OF wf q(1)] q prefix_order.trans [of _ q d]
        by (auto simp: covered_def)
    qed
    ultimately show ?thesis by blast
  qed
  then show ?thesis using assms(1) by (simp add: grows_def)
qed

lemma grows_overflow:
  assumes "wt_target_generation t < u64_max"
  shows "grows 1 t (next_generation t\<lparr>wt_dirty_paths := [],
    wt_full_generation := Some (wt_target_generation t + 1)\<rparr>)"
proof -
  have "next_generation t\<lparr>wt_dirty_paths := [],
      wt_full_generation := Some (wt_target_generation t + 1)\<rparr> = mark_full t"
    using assms by (auto simp: mark_full_def Let_def intro: target_state.equality)
  then show ?thesis using mark_full_grows [OF assms] by simp
qed

lemma mark_dirty_grows:
  assumes room: "wt_target_generation t < u64_max" and ok: "target_ok t"
  shows "grows 1 t (mark_dirty d maximum t)
    \<and> covered d (wt_target_generation t) (mark_dirty d maximum t)"
proof -
  let ?g = "wt_target_generation t + 1"
  let ?d = "wt_dirty_paths t"
  note def = mark_dirty_def Let_def
  have wf: "om_wf ?d" using ok by (simp add: target_ok_def om.every_def)
  show ?thesis
  proof (cases "wt_full_generation t")
    case (Some f)
    then have "mark_dirty d maximum t = next_generation t\<lparr>wt_dirty_paths := [],
        wt_full_generation := Some ?g\<rparr>"
      using ok room by (simp add: def target_ok_def)
    then show ?thesis using grows_overflow [OF room] by (simp add: covered_def)
  next
    case None
    show ?thesis
    proof (cases "nearest_recorded_ancestor ?d d")
      case (Some a)
      then have a: "prefix a d" and "mark_dirty d maximum t
          = next_generation t\<lparr>wt_dirty_paths := om_put ?d a ?g\<rparr>"
        using None room nearest_recorded_ancestor_Some [OF Some] by (simp_all add: def)
      moreover have "grows 1 t (next_generation t\<lparr>wt_dirty_paths := om_put ?d a ?g\<rparr>)"
        by (rule grows_dirty [OF room None]) (auto split: if_splits)
      ultimately show ?thesis using a by (auto simp: covered_def)
    next
      case none: None
      let ?r = "om_put (filter (\<lambda>(p, _). \<not> is_strict_descendant p d) ?d) d ?g"
      show ?thesis
      proof (cases "maximum < length ?r")
        case True
        then have "mark_dirty d maximum t = next_generation t\<lparr>wt_dirty_paths := [],
            wt_full_generation := Some ?g\<rparr>"
          using None none room by (simp add: def)
        then show ?thesis using grows_overflow [OF room] by (simp add: covered_def)
      next
        case False
        then have "mark_dirty d maximum t = next_generation t\<lparr>wt_dirty_paths := ?r\<rparr>"
          using None none room by (simp add: def)
        moreover have "grows 1 t (next_generation t\<lparr>wt_dirty_paths := ?r\<rparr>)"
          by (rule grows_dirty [OF room None])
            (auto simp: om_wf_filter om_get_filter is_strict_descendant_def split: if_splits)
        ultimately show ?thesis by (auto simp: covered_def)
      qed
    qed
  qed
qed

lemma degrade_grows: "grows 0 t (degrade now policy t)"
  by (simp add: grows_def degrade_def target_ok_def covered_def)

lemma mark_event_path_grows:
  assumes "wt_target_generation t < u64_max" "target_ok t"
  shows "grows 1 t (mark_event_path now policy maximum kind root p t)
    \<and> covered (if p = root then [] else case safe_relative_parent root p of None \<Rightarrow> [] | Some d \<Rightarrow> d)
        (wt_target_generation t) (mark_event_path now policy maximum kind root p t)"
proof -
  have "grows 1 t (degrade now policy (mark_full t))"
    "covered d (wt_target_generation t) (degrade now policy (mark_full t))" for d
    using mark_full_grows [OF assms(1)] grows_trans [OF _ degrade_grows, of 1 t "mark_full t"]
    by (auto simp: covered_def degrade_def)
  then show ?thesis
    using mark_full_grows [OF assms(1)] mark_dirty_grows [OF assms]
    by (auto simp: mark_event_path_def Let_def split: option.split)
qed

section \<open>Marks of all targets\<close>

definition marks_grow :: "nat \<Rightarrow> soft_disk_watcher \<Rightarrow> soft_disk_watcher \<Rightarrow> bool" where
  "marks_grow n w w' \<longleftrightarrow> (\<forall>i t'. hm_get (ws_targets w') i = Some t' \<longrightarrow>
     (\<exists>t. hm_get (ws_targets w) i = Some t \<and> grows n t t'))"

definition has_room :: "nat \<Rightarrow> soft_disk_watcher \<Rightarrow> bool" where
  "has_room n w \<longleftrightarrow> (\<forall>i t. hm_get (ws_targets w) i = Some t \<longrightarrow> wt_target_generation t + n \<le> u64_max)"

definition targets_ok :: "soft_disk_watcher \<Rightarrow> bool" where
  "targets_ok w \<longleftrightarrow> (\<forall>i t. hm_get (ws_targets w) i = Some t \<longrightarrow> target_ok t)"

lemma marks_grow_same: "ws_targets w' = ws_targets w \<Longrightarrow> marks_grow n w w'"
  by (auto simp: marks_grow_def)

lemma marks_grow_trans: "marks_grow m w w' \<Longrightarrow> marks_grow n w' w'' \<Longrightarrow> marks_grow (m + n) w w''"
  unfolding marks_grow_def by (meson grows_trans)

lemma marks_grow_mono: "marks_grow m w w' \<Longrightarrow> m \<le> n \<Longrightarrow> marks_grow n w w'"
  unfolding marks_grow_def grows_def by (meson add_le_mono le_refl le_trans)

lemma has_room_mono: "has_room n w \<Longrightarrow> m \<le> n \<Longrightarrow> has_room m w"
  unfolding has_room_def by (meson add_le_mono le_refl le_trans)

lemma has_room_less: "has_room n w \<Longrightarrow> 0 < n \<Longrightarrow> hm_get (ws_targets w) i = Some t \<Longrightarrow>
    wt_target_generation t < u64_max"
  unfolding has_room_def by fastforce

lemma marks_grow_room: "marks_grow m w w' \<Longrightarrow> has_room (m + n) w \<Longrightarrow> has_room n w'"
  unfolding marks_grow_def has_room_def grows_def by fastforce

lemma marks_grow_ok: "marks_grow n w w' \<Longrightarrow> targets_ok w \<Longrightarrow> targets_ok w'"
  unfolding marks_grow_def targets_ok_def grows_def by blast

lemma marks_grow_covered:
  assumes "marks_grow n w w'" "targets_ok w" "hm_get (ws_targets w') i = Some t'"
    and "\<And>t. hm_get (ws_targets w) i = Some t \<Longrightarrow> covered d g t"
  shows "covered d g t'"
  using assms unfolding marks_grow_def targets_ok_def grows_def by blast

lemma marks_grow_map:
  assumes "\<And>i t. hm_get (ws_targets w) i = Some t \<Longrightarrow> grows n t (f t)"
    "ws_targets w' = map (\<lambda>(i, t). (i, f t)) (ws_targets w)"
  shows "marks_grow n w w'"
  using assms by (auto simp: marks_grow_def hm_get_map)

lemma marks_grow_insert:
  assumes "hm_get (ws_targets w) i = Some t" "grows n t t'"
    "ws_targets w' = hm_insert (ws_targets w) i t'"
  shows "marks_grow n w w'"
  using assms by (auto simp: marks_grow_def)

lemma signal_change_targets [simp]:
  "ws_targets (signal_change w) = ws_targets w" "ws_roots (signal_change w) = ws_roots w"
  by (simp_all add: signal_change_def)

lemma marks_grow_signal [simp]: "marks_grow n w (signal_change w') = marks_grow n w w'"
  by (simp add: marks_grow_def)

lemma enqueue_global_targets:
  "ws_targets (enqueue_global_change w) = map (\<lambda>(i, t). (i, mark_full t)) (ws_targets w)"
  "ws_global_change_pending (enqueue_global_change w)"
  by (simp_all add: enqueue_global_change_def all_targets_def)

lemma enqueue_global_grows:
  assumes "has_room 1 w"
  shows "marks_grow 1 w (enqueue_global_change w)"
    and "hm_get (ws_targets (enqueue_global_change w)) i = Some t' \<Longrightarrow>
      hm_get (ws_targets w) i = Some t \<Longrightarrow> covered d (wt_target_generation t) t'"
proof -
  have "grows 1 t (mark_full t) \<and> covered d (wt_target_generation t) (mark_full t)"
    if "hm_get (ws_targets w) i = Some t" for i t d
    using mark_full_grows has_room_less [OF assms _ that] by simp
  then show "marks_grow 1 w (enqueue_global_change w)"
    and "hm_get (ws_targets (enqueue_global_change w)) i = Some t' \<Longrightarrow>
      hm_get (ws_targets w) i = Some t \<Longrightarrow> covered d (wt_target_generation t) t'"
    by (auto simp: enqueue_global_targets hm_get_map
        intro: marks_grow_map [OF _ enqueue_global_targets(1)])
qed

lemma enqueue_target_grows: "has_room 1 w \<Longrightarrow> marks_grow 1 w (enqueue_target_change i w)"
proof -
  let ?w = "w\<lparr>ws_changed_targets := List.insert i (ws_changed_targets w)\<rparr>"
  assume "has_room 1 w"
  then have "marks_grow 1 ?w (enqueue_global_change ?w)"
    by (intro enqueue_global_grows) (simp add: has_room_def)
  then have "marks_grow 1 w (enqueue_global_change ?w)" by (simp add: marks_grow_def)
  then show ?thesis by (simp add: enqueue_target_change_def Let_def marks_grow_same)
qed

lemma enqueue_targets_pending:
  "ws_global_change_pending w \<Longrightarrow> fold enqueue_target_change ids w = w"
  by (induction ids) (simp_all add: enqueue_target_change_def)

lemma enqueue_targets_grows:
  "has_room 1 w \<Longrightarrow> marks_grow 1 w (fold enqueue_target_change ids w)"
proof (induction ids arbitrary: w)
  case (Cons i ids)
  let ?w = "enqueue_target_change i w"
  show ?case
  proof (cases "ws_global_change_pending ?w")
    case True
    then show ?thesis
      using enqueue_target_grows [OF Cons.prems, of i] by (simp add: enqueue_targets_pending)
  next
    case False
    then have same: "ws_targets ?w = ws_targets w"
      by (auto simp: enqueue_target_change_def Let_def enqueue_global_targets split: if_splits)
    then have "marks_grow 1 ?w (fold enqueue_target_change ids ?w)"
      using Cons by (simp add: has_room_def)
    then show ?thesis using same by (simp add: marks_grow_def)
  qed
qed (simp add: marks_grow_same)

lemma degrade_all_grows:
  assumes "has_room 1 w"
  shows "marks_grow 1 w (degrade_all now w)"
    and "hm_get (ws_targets (degrade_all now w)) i = Some t' \<Longrightarrow>
      hm_get (ws_targets w) i = Some t \<Longrightarrow> covered d (wt_target_generation t) t'"
proof -
  let ?w = "all_targets (degrade now (sh_retry_policy w)) (w\<lparr>sh_backend_rebuild_requested := True\<rparr>)"
  have m: "ws_targets ?w = map (\<lambda>(i, t). (i, degrade now (sh_retry_policy w) t)) (ws_targets w)"
    by (simp add: all_targets_def)
  have d: "marks_grow 0 w ?w"
    by (rule marks_grow_map [OF degrade_grows m])
  then have r: "has_room 1 ?w" using assms marks_grow_room [of 0 w ?w 1] by simp
  have "marks_grow 1 w (enqueue_global_change ?w)"
    using marks_grow_trans [OF d enqueue_global_grows(1) [OF r]] by simp
  then show "marks_grow 1 w (degrade_all now w)" by (simp add: degrade_all_def marks_grow_def)
  show "covered d (wt_target_generation t) t'"
    if "hm_get (ws_targets (degrade_all now w)) i = Some t'" "hm_get (ws_targets w) i = Some t"
    using enqueue_global_grows(2) [OF r, of i t' "degrade now (sh_retry_policy w) t" d] that
    by (simp add: degrade_all_def m hm_get_map) (simp add: degrade_def)
qed

section \<open>Notifications\<close>

text \<open>
  The directories of a target that an event says have changed; the root stands for everything
  below it.
\<close>

definition changed_directory :: "component list \<Rightarrow> component list \<Rightarrow> path" where
  "changed_directory root p =
     (if p = root then [] else case safe_relative_parent root p of None \<Rightarrow> [] | Some d \<Rightarrow> d)"

definition event_directories ::
  "notify_event option \<Rightarrow> soft_disk_watcher \<Rightarrow> string \<Rightarrow> path set" where
  "event_directories result w i =
     (case result of
        None \<Rightarrow> {[]}
      | Some event \<Rightarrow>
          if ev_need_rescan event then {[]}
          else if ev_kind event = EventAccess \<or> ev_kind event = EventOther then {}
          else if ev_paths event = [] then {[]}
          else {changed_directory root p | p root.
            p \<in> set (ev_paths event) \<and> route_path (ws_roots w) p = Some (i, root)})"

definition event_length :: "notify_event option \<Rightarrow> nat" where
  "event_length result = (case result of None \<Rightarrow> 0 | Some event \<Rightarrow> length (ev_paths event))"

lemma covered_mono: "covered d g t \<Longrightarrow> g' \<le> g \<Longrightarrow> covered d g' t"
  unfolding covered_def by (meson le_less_trans)

definition paths_covered ::
  "component list list \<Rightarrow> soft_disk_watcher \<Rightarrow> soft_disk_watcher \<Rightarrow> bool" where
  "paths_covered ps w w' \<longleftrightarrow> (\<forall>p\<in>set ps. \<forall>i root t t'. route_path (ws_roots w) p = Some (i, root) \<longrightarrow>
     hm_get (ws_targets w) i = Some t \<longrightarrow> hm_get (ws_targets w') i = Some t' \<longrightarrow>
     covered (changed_directory root p) (wt_target_generation t) t')"

lemma paths_covered_grows:
  assumes "paths_covered ps w1 w'" "marks_grow n w w1" "ws_roots w1 = ws_roots w"
    "\<And>i t. hm_get (ws_targets w) i = Some t \<Longrightarrow> hm_get (ws_targets w1) i \<noteq> None"
  shows "paths_covered ps w w'"
  unfolding paths_covered_def
proof (intro ballI allI impI)
  fix p i root t t'
  assume p: "p \<in> set ps" "route_path (ws_roots w) p = Some (i, root)"
    "hm_get (ws_targets w) i = Some t" "hm_get (ws_targets w') i = Some t'"
  obtain t1 where t1: "hm_get (ws_targets w1) i = Some t1" using assms(4) [OF p(3)] by blast
  then have "wt_target_generation t \<le> wt_target_generation t1"
    using assms(2) p(3) by (force simp: marks_grow_def grows_def)
  moreover have "covered (changed_directory root p) (wt_target_generation t1) t'"
    using assms(1,3) p t1 by (simp add: paths_covered_def)
  ultimately show "covered (changed_directory root p) (wt_target_generation t) t'"
    by (rule covered_mono [rotated])
qed

lemma mark_event_paths_grows:
  assumes "mark_event_paths now kind ps changed w = (changed', w')"
    and "has_room (length ps) w" "targets_ok w"
  shows "marks_grow (length ps) w w' \<and> paths_covered ps w w'"
  using assms
proof (induction ps arbitrary: changed w)
  case Nil
  then show ?case by (simp add: marks_grow_same paths_covered_def)
next
  case (Cons q ps)
  have room: "has_room (length ps) w" using Cons.prems(2) by (rule has_room_mono) simp
  have skip: ?case if "mark_event_paths now kind ps changed w = (changed', w')"
    "\<And>i root t. route_path (ws_roots w) q = Some (i, root) \<Longrightarrow> hm_get (ws_targets w) i = None"
    using Cons.IH [OF that(1) room Cons.prems(3)] that(2)
    by (auto simp: paths_covered_def intro: marks_grow_mono)
  show ?case
  proof (cases "\<exists>i root t. route_path (ws_roots w) q = Some (i, root)
      \<and> hm_get (ws_targets w) i = Some t")
    case False
    show ?thesis
      by (rule skip) (use Cons.prems(1) False in \<open>auto split: option.splits\<close>)
  next
    case True
    then obtain i root t where q: "route_path (ws_roots w) q = Some (i, root)"
      "hm_get (ws_targets w) i = Some t" by blast
    define t1 where "t1 = mark_event_path now (sh_retry_policy w) (sh_maximum_dirty_paths w) kind
      root q t"
    define w1 where "w1 = w\<lparr>ws_targets := hm_insert (ws_targets w) i t1\<rparr>"
    have "wt_target_generation t < u64_max" "target_ok t"
      using has_room_less [OF Cons.prems(2) _ q(2)] Cons.prems(3) q(2) by (auto simp: targets_ok_def)
    then have t1: "grows 1 t t1" "covered (changed_directory root q) (wt_target_generation t) t1"
      using mark_event_path_grows [of t] unfolding t1_def changed_directory_def by blast+
    have g: "marks_grow 1 w w1" by (rule marks_grow_insert [OF q(2) t1(1)]) (simp add: w1_def)
    have ok: "targets_ok w1" by (rule marks_grow_ok [OF g Cons.prems(3)])
    have "has_room (length ps) w1" using marks_grow_room [OF g] Cons.prems(2) by simp
    moreover have "mark_event_paths now kind ps (List.insert i changed) w1 = (changed', w')"
      using Cons.prems(1) q by (simp add: w1_def t1_def)
    ultimately have IH: "marks_grow (length ps) w1 w'" "paths_covered ps w1 w'"
      using Cons.IH ok by blast+
    have "covered (changed_directory root q) (wt_target_generation t) t'"
      if "hm_get (ws_targets w') i = Some t'" for t'
      by (rule marks_grow_covered [OF IH(1) ok that]) (use t1(2) in \<open>auto simp: w1_def\<close>)
    moreover have "paths_covered ps w w'"
      by (rule paths_covered_grows [OF IH(2) g]) (auto simp: w1_def)
    ultimately show ?thesis
      using marks_grow_trans [OF g IH(1)] q by (auto simp: paths_covered_def)
  qed
qed

definition directories_covered ::
  "(string \<Rightarrow> path set) \<Rightarrow> soft_disk_watcher \<Rightarrow> soft_disk_watcher \<Rightarrow> bool" where
  "directories_covered ds w w' \<longleftrightarrow> (\<forall>i t t' d. d \<in> ds i \<longrightarrow> hm_get (ws_targets w) i = Some t \<longrightarrow>
     hm_get (ws_targets w') i = Some t' \<longrightarrow> covered d (wt_target_generation t) t')"

lemma event_paths_grows:
  assumes "has_room (length (ev_paths e) + 1) w" "targets_ok w"
    and e: "\<not> ev_need_rescan e" "ev_paths e \<noteq> []" "ev_kind e \<noteq> EventAccess" "ev_kind e \<noteq> EventOther"
  shows "marks_grow (length (ev_paths e) + 1) w (handle_callback now (Some e) w)
    \<and> directories_covered (event_directories (Some e) w) w (handle_callback now (Some e) w)"
proof -
  obtain ch w1 where w1: "mark_event_paths now (ev_kind e) (ev_paths e) [] w = (ch, w1)"
    by fastforce
  let ?w2 = "fold enqueue_target_change ch w1"
  have "has_room (length (ev_paths e)) w" using assms(1) by (auto intro: has_room_mono)
  then have m: "marks_grow (length (ev_paths e)) w w1" "paths_covered (ev_paths e) w w1"
    using mark_event_paths_grows [OF w1 _ assms(2)] by blast+
  have g: "marks_grow 1 w1 ?w2"
    by (rule enqueue_targets_grows) (use marks_grow_room [OF m(1)] assms(1) in simp)
  have h: "ws_targets (handle_callback now (Some e) w) = ws_targets ?w2"
    using e w1 by (simp add: handle_callback_def Let_def)
  have "covered d (wt_target_generation t) t'"
    if d: "d \<in> event_directories (Some e) w i" "hm_get (ws_targets w) i = Some t"
      "hm_get (ws_targets ?w2) i = Some t'" for i t t' d
  proof (rule marks_grow_covered [OF g marks_grow_ok [OF m(1) assms(2)] d(3)])
    fix t1 assume "hm_get (ws_targets w1) i = Some t1"
    then show "covered d (wt_target_generation t) t1"
      using m(2) d(1,2) e by (auto simp: event_directories_def paths_covered_def)
  qed
  then show ?thesis
    using marks_grow_trans [OF m(1) g] h by (simp add: marks_grow_def directories_covered_def)
qed

lemma handle_callback_grows:
  assumes "has_room (event_length result + 1) w" "targets_ok w"
  shows "marks_grow (event_length result + 1) w (handle_callback now result w)
    \<and> directories_covered (event_directories result w) w (handle_callback now result w)"
proof (cases "\<exists>event. result = Some event \<and> \<not> ev_need_rescan event \<and> ev_paths event \<noteq> []
    \<and> ev_kind event \<noteq> EventAccess \<and> ev_kind event \<noteq> EventOther")
  case True
  then show ?thesis using event_paths_grows [OF _ assms(2)] assms(1) by (auto simp: event_length_def)
next
  case False
  have r1: "has_room 1 w" using assms(1) by (rule has_room_mono) simp
  have full: "marks_grow 1 w (force_full_all w)" "directories_covered ds w (force_full_all w)" for ds
    using enqueue_global_grows [OF r1]
    by (simp_all add: force_full_all_def marks_grow_def directories_covered_def)
  moreover have "directories_covered ds w (degrade_all now w)" for ds
    using degrade_all_grows(2) [OF r1] by (simp add: directories_covered_def)
  ultimately have "marks_grow 1 w (handle_callback now result w)
    \<and> directories_covered (event_directories result w) w (handle_callback now result w)"
    using False degrade_all_grows(1) [OF r1, of now]
    by (auto simp: handle_callback_def marks_grow_same split: option.splits)
      (simp_all add: directories_covered_def event_directories_def)
  then show ?thesis by (auto intro: marks_grow_mono)
qed

section \<open>Critical sections\<close>

datatype watch_action =
    Callback nat "notify_event option"
  | Acknowledge dirty_batch
  | Drain
  | Signal
  | Replace string string "component list" nat
  | Install backend_answers "component list" "component list option" nat
  | Finish string string "component list" nat bool nat
  | Unwatch backend_answers "component list" nat
  | Abandon nat
  | Retire string
  | RetryBackend backend_answers nat
  | FinishRetry retry_candidate bool nat

fun perform :: "watch_action \<Rightarrow> soft_disk_watcher \<Rightarrow> soft_disk_watcher" where
  "perform (Callback now result) w = handle_callback now result w"
| "perform (Acknowledge batch) w = snd (acknowledge batch w)"
| "perform Drain w = snd (drain_changes w)"
| "perform Signal w = signal_change w"
| "perform (Replace i fp root now) w = snd (replace_target_state i fp root now w)"
| "perform (Install answers root old_root now) w =
     snd (install_registration_watch answers root old_root now w)"
| "perform (Finish i fp root generation succeeded now) w =
     snd (finish_registration i fp root generation succeeded now w)"
| "perform (Unwatch answers root now) w = unwatch_or_abandon_backend answers root now w"
| "perform (Abandon now) w = abandon_backend now w"
| "perform (Retire i) w = snd (retire i w)"
| "perform (RetryBackend answers now) w = retry_backend answers now w"
| "perform (FinishRetry candidate succeeded now) w = snd (finish_retry candidate succeeded now w)"

text \<open>How often an action may mark a target.\<close>

fun action_marks :: "watch_action \<Rightarrow> nat" where
  "action_marks (Callback now result) = event_length result + 1"
| "action_marks _ = 2"

text \<open>
  What an action says has changed: a notification its directories, a restored watch everything
  below its root, because notifications may have been missed while it was degraded.
\<close>

fun action_directories :: "watch_action \<Rightarrow> soft_disk_watcher \<Rightarrow> string \<Rightarrow> path set" where
  "action_directories (Callback now result) w i = event_directories result w i"
| "action_directories (FinishRetry candidate succeeded now) w i =
     (if fst (finish_retry candidate succeeded now w) \<and> i = rc_target_id candidate then {[]} else {})"
| "action_directories _ w i = {}"

lemma forget_target_grows: "marks_grow n w (forget_target i w)"
  by (auto simp: marks_grow_def forget_target_def)

lemma abandon_backend_grows: "has_room 1 w \<Longrightarrow> marks_grow 1 w (abandon_backend now w)"
  using degrade_all_grows(1) [of "w\<lparr>bk_watcher := False, bk_retry_attempts := 0, bk_retry_at := now\<rparr>"]
  by (simp add: abandon_backend_def has_room_def marks_grow_def)

lemma ensure_backend_targets [simp]:
  "ws_targets (ensure_backend answers now w) = ws_targets w"
  by (simp add: ensure_backend_def)

lemma install_grows:
  assumes "has_room 1 w"
  shows "marks_grow 1 w (snd (install_registration_watch answers root old_root now w))"
proof -
  have "marks_grow 1 w (abandon_backend now (ensure_backend answers now w))"
    using abandon_backend_grows [of "ensure_backend answers now w" now] assms
    by (simp add: has_room_def marks_grow_def)
  then show ?thesis
    using abandon_backend_grows [OF assms, of now]
    by (auto simp: install_registration_watch_def Let_def marks_grow_same)
qed

lemma enqueue_after:
  assumes "marks_grow n w w1" "has_room (n + 1) w"
  shows "marks_grow (n + 1) w (enqueue_target_change i w1)"
  by (rule marks_grow_trans [OF assms(1) enqueue_target_grows [OF marks_grow_room [OF assms]]])

lemma finish_registration_grows:
  assumes "has_room 1 w"
  shows "marks_grow 1 w (snd (finish_registration i fp root generation succeeded now w))"
proof (cases "hm_get (ws_targets w) i")
  case None
  then show ?thesis
    using enqueue_target_grows [OF assms] by (simp add: finish_registration_def)
next
  case (Some t)
  let ?t = "if succeeded then t\<lparr>wt_health := Watching, wt_retry_attempts := 0\<rparr>
      else degrade now (sh_retry_policy w) t"
  have "grows 0 t ?t" using degrade_grows [of t]
    by (auto simp: grows_def target_ok_def covered_def)
  then have "marks_grow 0 w (w\<lparr>ws_targets := hm_insert (ws_targets w) i ?t\<rparr>)"
    by (rule marks_grow_insert [OF Some]) simp
  from enqueue_after [OF this] show ?thesis
    using Some assms enqueue_target_grows [OF assms, of i]
    by (simp add: finish_registration_def Let_def)
qed

lemma finish_retry_grows:
  assumes "has_room 2 w" "targets_ok w"
  shows "marks_grow 2 w (snd (finish_retry c succeeded now w))
    \<and> directories_covered (action_directories (FinishRetry c succeeded now) w) w
        (snd (finish_retry c succeeded now w))"
proof (cases "hm_get (ws_targets w) (rc_target_id c)")
  case None
  then show ?thesis by (simp add: finish_retry_def marks_grow_same directories_covered_def)
next
  case (Some t)
  let ?h = "t\<lparr>wt_health := Watching, wt_retry_attempts := 0\<rparr>"
  let ?t = "if succeeded then mark_full ?h else degrade now (sh_retry_policy w) t"
  let ?w = "w\<lparr>ws_targets := hm_insert (ws_targets w) (rc_target_id c) ?t\<rparr>"
  have "wt_target_generation ?h < u64_max" using has_room_less [OF assms(1) _ Some] by simp
  note full = mark_full_grows [OF this]
  have h: "grows 0 t ?h" by (simp add: grows_def target_ok_def covered_def)
  have "grows 1 t (mark_full ?h)" using grows_trans [OF h] full by fastforce
  moreover have "grows 1 t (degrade now (sh_retry_policy w) t)"
    using degrade_grows [of t now "sh_retry_policy w"] by (simp add: grows_def)
  ultimately have "grows 1 t ?t" by simp
  then have g: "marks_grow 1 w ?w" by (rule marks_grow_insert [OF Some]) simp
  have r: "has_room 1 ?w" using marks_grow_room [OF g, of 1] assms(1) by (simp add: numeral_2_eq_2)
  note e = enqueue_target_grows [OF r, of "rc_target_id c"]
  have "marks_grow 2 w (enqueue_target_change (rc_target_id c) ?w)"
    using marks_grow_trans [OF g e] by (simp add: numeral_2_eq_2)
  moreover have "covered d (wt_target_generation t) t'"
    if "succeeded" "hm_get (ws_targets (enqueue_target_change (rc_target_id c) ?w))
      (rc_target_id c) = Some t'" for d t'
    by (rule marks_grow_covered [OF e marks_grow_ok [OF g assms(2)] that(2)])
      (use full that(1) in \<open>auto simp: covered_def\<close>)
  ultimately show ?thesis
    using Some by (auto simp: finish_retry_def Let_def marks_grow_same directories_covered_def
        split: if_splits)
qed

fun growing :: "watch_action \<Rightarrow> bool" where
  "growing (Acknowledge batch) = False"
| "growing (Replace i fp root now) = False"
| "growing _ = True"

lemma perform_grows:
  assumes "growing a" "has_room (action_marks a) w" "targets_ok w"
  shows "marks_grow (action_marks a) w (perform a w)
    \<and> directories_covered (action_directories a w) w (perform a w)"
proof (cases "(\<exists>now result. a = Callback now result) \<or> (\<exists>c s now. a = FinishRetry c s now)")
  case True
  have "action_directories (Callback now result) w = event_directories result w" for now result
    by (rule ext) simp
  then show ?thesis using True assms handle_callback_grows finish_retry_grows by auto
next
  case False
  then have m: "action_marks a = 2" and d: "action_directories a w i = {}" for i
    by (cases a; simp)+
  have r: "has_room 1 w" using assms(2) unfolding m by (rule has_room_mono) simp
  have retire: "marks_grow 1 w (enqueue_target_change i (forget_target i w))" for i
    using enqueue_after [OF forget_target_grows [of 0]] r by simp
  have "marks_grow 1 w (perform a w)"
    using False assms(1) retire
    by (cases a) (auto simp: install_grows [OF r] finish_registration_grows [OF r]
        abandon_backend_grows [OF r] unwatch_or_abandon_backend_def retry_backend_def retire_def
        drain_changes_def marks_grow_same simp del: One_nat_def split: option.split)
  then show ?thesis using d by (auto simp: m directories_covered_def intro: marks_grow_mono)
qed

section \<open>Registration\<close>

lemma enqueue_target_registration [simp]:
  "ws_next_registration_generation (enqueue_target_change i w) = ws_next_registration_generation w"
  by (simp add: enqueue_target_change_def Let_def enqueue_global_change_def all_targets_def)

lemma replace_target:
  assumes "has_room 2 w" "ws_next_registration_generation w < u64_max"
    and w': "w' = snd (replace_target_state i fp root now w)"
  shows "ws_next_registration_generation w' = ws_next_registration_generation w + 1"
    and "hm_get (ws_targets w') j = Some t' \<Longrightarrow> j \<noteq> i \<Longrightarrow>
      \<exists>t. hm_get (ws_targets w) j = Some t \<and> grows 1 t t'"
    and "hm_get (ws_targets w') i = Some t' \<Longrightarrow> target_ok t' \<and> covered d 0 t'
      \<and> wt_registration_generation t' = ws_next_registration_generation w + 1"
proof -
  let ?g = "ws_next_registration_generation w + 1"
  let ?n = "new_target_state fp root ?g (sh_global_generation w) now"
  let ?f = "forget_target i w"
  let ?w = "?f\<lparr>ws_next_registration_generation := ?g, ws_roots := hm_insert (ws_roots ?f) root i,
      ws_targets := hm_insert (ws_targets ?f) i ?n\<rparr>"
  have w1: "w' = enqueue_target_change i ?w"
    using assms(2) w'
    by (simp add: replace_target_state_def Let_def next_nonzero_Suc)
      (simp add: forget_target_def)
  have n: "target_ok ?n" "covered d 0 ?n" "wt_registration_generation ?n = ?g"
    "wt_target_generation ?n = 1" for d
    by (simp_all add: new_target_state_def mark_full_def Let_def next_generation_def
        next_nonzero_def target_ok_def covered_def om.every_def)
  have room: "has_room 1 ?w"
    using assms(1) n(4) by (fastforce simp: has_room_def forget_target_def split: if_splits)
  note e = enqueue_target_grows [OF this, of i, folded w1]
  show "ws_next_registration_generation w' = ws_next_registration_generation w + 1"
    by (simp add: w1)
  show "\<exists>t. hm_get (ws_targets w) j = Some t \<and> grows 1 t t'"
    if "hm_get (ws_targets w') j = Some t'" "j \<noteq> i"
    using e that by (fastforce simp: marks_grow_def forget_target_def)
  show "target_ok t' \<and> covered d 0 t'
      \<and> wt_registration_generation t' = ws_next_registration_generation w + 1"
    if "hm_get (ws_targets w') i = Some t'"
    using e that n by (fastforce simp: marks_grow_def grows_def)
qed

lemma enqueue_targets_registration [simp]:
  "ws_next_registration_generation (fold enqueue_target_change ids w)
    = ws_next_registration_generation w"
  by (induction ids arbitrary: w) simp_all

lemma signal_change_registration [simp]:
  "ws_next_registration_generation (signal_change w) = ws_next_registration_generation w"
  by (simp add: signal_change_def)

lemma degrade_all_registration [simp]:
  "ws_next_registration_generation (degrade_all now w) = ws_next_registration_generation w"
  "ws_next_registration_generation (force_full_all w) = ws_next_registration_generation w"
  by (simp_all add: degrade_all_def force_full_all_def enqueue_global_change_def all_targets_def)

lemma mark_event_paths_registration:
  "ws_next_registration_generation (snd (mark_event_paths now kind ps changed w))
    = ws_next_registration_generation w"
  by (induction now kind ps changed w rule: mark_event_paths.induct) (simp_all split: option.split)

lemma handle_callback_registration:
  "ws_next_registration_generation (handle_callback now result w)
    = ws_next_registration_generation w"
  using mark_event_paths_registration
  by (auto simp: handle_callback_def Let_def case_prod_beta split: option.split)

lemma perform_registration:
  "growing a \<Longrightarrow> ws_next_registration_generation (perform a w) = ws_next_registration_generation w"
  by (cases a) (auto simp: handle_callback_registration drain_changes_def retire_def
      install_registration_watch_def finish_registration_def finish_retry_def abandon_backend_def
      unwatch_or_abandon_backend_def retry_backend_def ensure_backend_def forget_target_def
      Let_def split: option.split)

section \<open>Histories\<close>

text \<open>
  A change is a target, its registration, the directory, and the generation of the target when
  the change was reported.
\<close>

type_synonym change = "string \<times> nat \<times> path \<times> nat"

record history =
  hs_watcher :: soft_disk_watcher
  hs_captured :: "dirty_batch set"
  hs_acknowledged :: "dirty_batch set"
  hs_changes :: "change set"

definition reported :: "(string \<Rightarrow> path set) \<Rightarrow> soft_disk_watcher \<Rightarrow> change set" where
  "reported ds w = {(i, wt_registration_generation t, d, wt_target_generation t) | i t d.
     hm_get (ws_targets w) i = Some t \<and> d \<in> ds i}"

text \<open>
  The counters do not wrap: a target would need \<open>2 ^ 64\<close> marks, or the watcher as many
  registrations.
\<close>

inductive watch_step :: "history \<Rightarrow> history \<Rightarrow> bool" where
  step_action: "growing a \<Longrightarrow> has_room (action_marks a) w \<Longrightarrow> hs_watcher h = w \<Longrightarrow>
    watch_step h (h\<lparr>hs_watcher := perform a w,
      hs_changes := hs_changes h \<union> reported (action_directories a w) w\<rparr>)"
| step_replace: "has_room 2 w \<Longrightarrow> ws_next_registration_generation w < u64_max \<Longrightarrow>
    hs_watcher h = w \<Longrightarrow>
    watch_step h (h\<lparr>hs_watcher := perform (Replace i fp root now) w,
      hs_changes := insert (i, ws_next_registration_generation w + 1, [], 0) (hs_changes h)\<rparr>)"
| step_capture: "capture global_generation i (hs_watcher h) = Some batch \<Longrightarrow>
    watch_step h (h\<lparr>hs_captured := insert batch (hs_captured h)\<rparr>)"
| step_acknowledge: "batch \<in> hs_captured h \<Longrightarrow> acknowledge batch (hs_watcher h) = (applied, w') \<Longrightarrow>
    watch_step h (h\<lparr>hs_watcher := w',
      hs_acknowledged := (if applied then insert batch (hs_acknowledged h) else hs_acknowledged h)\<rparr>)"

inductive_cases watch_stepE: "watch_step h h'"

definition watch_init :: "history \<Rightarrow> bool" where
  "watch_init h \<longleftrightarrow> ws_targets (hs_watcher h) = [] \<and> hs_captured h = {} \<and> hs_acknowledged h = {}
     \<and> hs_changes h = {}"

definition batch_covers :: "dirty_batch \<Rightarrow> path \<Rightarrow> bool" where
  "batch_covers batch d \<longleftrightarrow> db_full_reconcile batch
     \<or> (\<exists>q\<in>set (db_relative_paths batch). prefix q d)"

text \<open>The batch was captured after the change and covers it.\<close>

definition batch_answers :: "dirty_batch \<Rightarrow> change \<Rightarrow> bool" where
  "batch_answers batch = (\<lambda>(i, registration, d, g). db_target_id batch = i
     \<and> db_registration_generation batch = registration \<and> g < db_target_generation batch
     \<and> batch_covers batch d)"

definition answered :: "history \<Rightarrow> change \<Rightarrow> bool" where
  "answered h c \<longleftrightarrow> (\<exists>b\<in>hs_acknowledged h. batch_answers b c)"

definition registrations_ok :: "history \<Rightarrow> bool" where
  "registrations_ok h \<longleftrightarrow>
     (\<forall>i t. hm_get (ws_targets (hs_watcher h)) i = Some t \<longrightarrow>
       wt_registration_generation t \<le> ws_next_registration_generation (hs_watcher h))
     \<and> (\<forall>b\<in>hs_captured h.
       db_registration_generation b \<le> ws_next_registration_generation (hs_watcher h))
     \<and> (\<forall>i r d g. (i, r, d, g) \<in> hs_changes h \<longrightarrow>
       r \<le> ws_next_registration_generation (hs_watcher h))"

definition captured_ok :: "history \<Rightarrow> bool" where
  "captured_ok h \<longleftrightarrow> (\<forall>b\<in>hs_captured h. \<forall>t.
     hm_get (ws_targets (hs_watcher h)) (db_target_id b) = Some t \<longrightarrow>
     wt_registration_generation t = db_registration_generation b \<longrightarrow>
     db_target_generation b \<le> wt_target_generation t)"

definition changes_ok :: "history \<Rightarrow> bool" where
  "changes_ok h \<longleftrightarrow> (\<forall>i d g t.
     hm_get (ws_targets (hs_watcher h)) i = Some t \<longrightarrow>
     (i, wt_registration_generation t, d, g) \<in> hs_changes h \<longrightarrow>
     covered d g t \<or> answered h (i, wt_registration_generation t, d, g))"

definition batches_ok :: "history \<Rightarrow> bool" where
  "batches_ok h \<longleftrightarrow> (\<forall>b\<in>hs_captured h. \<forall>d g.
     (db_target_id b, db_registration_generation b, d, g) \<in> hs_changes h \<longrightarrow>
     g < db_target_generation b \<longrightarrow>
     batch_covers b d \<or> answered h (db_target_id b, db_registration_generation b, d, g))"

definition history_ok :: "history \<Rightarrow> bool" where
  "history_ok h \<longleftrightarrow> targets_ok (hs_watcher h) \<and> registrations_ok h \<and> captured_ok h \<and> changes_ok h
     \<and> batches_ok h"

lemma history_ok_action:
  assumes ok: "history_ok h" and a: "growing a" "has_room (action_marks a) (hs_watcher h)"
    and h': "h' = h\<lparr>hs_watcher := perform a (hs_watcher h), hs_changes := hs_changes h
      \<union> reported (action_directories a (hs_watcher h)) (hs_watcher h)\<rparr>"
  shows "history_ok h'"
proof -
  let ?w = "hs_watcher h" and ?w' = "perform a (hs_watcher h)"
  let ?new = "reported (action_directories a ?w) ?w"
  have t: "targets_ok ?w" and ok': "registrations_ok h" "captured_ok h" "changes_ok h" "batches_ok h"
    using ok by (simp_all add: history_ok_def)
  have g: "marks_grow (action_marks a) ?w ?w'"
    "directories_covered (action_directories a ?w) ?w ?w'"
    using perform_grows [OF a t] by simp_all
  have old: "\<exists>t. hm_get (ws_targets ?w) i = Some t \<and> wt_target_generation t \<le> wt_target_generation t'
      \<and> wt_registration_generation t' = wt_registration_generation t
      \<and> (\<forall>d g. covered d g t \<longrightarrow> covered d g t')"
    if "hm_get (ws_targets ?w') i = Some t'" for i t'
    using g(1) t that unfolding marks_grow_def targets_ok_def grows_def by blast
  have "registrations_ok h'"
    using ok'(1) old perform_registration [OF a(1), of ?w]
    unfolding registrations_ok_def h' reported_def by simp metis
  moreover have "captured_ok h'"
    using ok'(2) old unfolding captured_ok_def h' by simp (metis le_trans)
  moreover have "changes_ok h'"
  proof -
    have "covered d g t'" if "(i, r, d, g) \<in> ?new" "hm_get (ws_targets ?w') i = Some t'" for i r d g t'
      using g(2) that by (auto simp: reported_def directories_covered_def)
    then show ?thesis
      using ok'(3) old unfolding changes_ok_def h' answered_def by simp metis
  qed
  moreover have "batches_ok h'"
  proof -
    have "\<not> g < db_target_generation b"
      if "b \<in> hs_captured h" "(db_target_id b, db_registration_generation b, d, g) \<in> ?new" for b d g
      using ok'(2) that by (fastforce simp: reported_def captured_ok_def)
    then show ?thesis using ok'(4) unfolding batches_ok_def h' answered_def by auto
  qed
  ultimately show ?thesis using marks_grow_ok [OF g(1) t] by (simp add: history_ok_def h')
qed

text \<open>A registration starts with a generation that no target, batch or change has had before.\<close>

lemma replace_cases:
  assumes ok: "history_ok h" and room: "has_room 2 (hs_watcher h)"
      "ws_next_registration_generation (hs_watcher h) < u64_max"
    and t': "hm_get (ws_targets (perform (Replace i fp root now) (hs_watcher h))) j = Some t'"
  obtains (new) "j = i" "\<And>d. covered d 0 t'" "target_ok t'"
      "wt_registration_generation t' = ws_next_registration_generation (hs_watcher h) + 1"
    | (old) t where "j \<noteq> i" "hm_get (ws_targets (hs_watcher h)) j = Some t" "target_ok t'"
      "wt_target_generation t \<le> wt_target_generation t'"
      "wt_registration_generation t' = wt_registration_generation t"
      "\<And>d g. covered d g t \<Longrightarrow> covered d g t'"
proof -
  note r = replace_target [OF room refl, of i fp root now]
  have "targets_ok (hs_watcher h)" using ok by (simp add: history_ok_def)
  then show thesis
    using new old r(2) [of j t'] r(3) [of t'] t' unfolding targets_ok_def grows_def perform.simps
    by metis
qed

lemma fresh_registration:
  assumes "history_ok h"
  shows "b \<in> hs_captured h \<Longrightarrow>
      db_registration_generation b \<noteq> ws_next_registration_generation (hs_watcher h) + 1"
    and "(j, r, d, g) \<in> hs_changes h \<Longrightarrow> r \<noteq> ws_next_registration_generation (hs_watcher h) + 1"
  using assms by (fastforce simp: history_ok_def registrations_ok_def)+

lemma replace_registrations:
  assumes ok: "history_ok h" and room: "has_room 2 (hs_watcher h)"
      "ws_next_registration_generation (hs_watcher h) < u64_max"
    and w': "w' = perform (Replace i fp root now) (hs_watcher h)"
  shows "registrations_ok (h\<lparr>hs_watcher := w', hs_changes :=
    insert (i, ws_next_registration_generation (hs_watcher h) + 1, [], 0) (hs_changes h)\<rparr>)"
proof -
  let ?r = "ws_next_registration_generation (hs_watcher h) + 1"
  have reg: "registrations_ok h" using ok by (simp add: history_ok_def)
  have next_registration: "ws_next_registration_generation w' = ?r"
    using replace_target(1) [OF room refl] by (simp add: w')
  have "wt_registration_generation t' \<le> ?r" if "hm_get (ws_targets w') j = Some t'" for j t'
    using that [unfolded w']
  proof (cases rule: replace_cases [OF ok room, consumes 1, case_names new old])
    case (old t)
    then show ?thesis using reg by (simp add: registrations_ok_def le_SucI)
  qed simp
  moreover have "db_registration_generation b \<le> ?r" if "b \<in> hs_captured h" for b
    using reg that by (auto simp: registrations_ok_def intro: le_SucI)
  moreover have "r \<le> ?r" if "(j, r, d, g) \<in> hs_changes h" for j r d g
    using reg that unfolding registrations_ok_def by (metis le_add1 le_trans)
  ultimately show ?thesis
    using next_registration unfolding registrations_ok_def by auto
qed

lemma history_ok_replace:
  assumes ok: "history_ok h" and room: "has_room 2 (hs_watcher h)"
      "ws_next_registration_generation (hs_watcher h) < u64_max"
    and h': "h' = h\<lparr>hs_watcher := perform (Replace i fp root now) (hs_watcher h), hs_changes :=
      insert (i, ws_next_registration_generation (hs_watcher h) + 1, [], 0) (hs_changes h)\<rparr>"
  shows "history_ok h'"
proof -
  let ?w' = "perform (Replace i fp root now) (hs_watcher h)"
  let ?r = "ws_next_registration_generation (hs_watcher h) + 1"
  have ok': "captured_ok h" "changes_ok h" "batches_ok h" using ok by (simp_all add: history_ok_def)
  note cases = replace_cases [OF ok room, consumes 1, case_names new old] and fresh = fresh_registration [OF ok]
  have "targets_ok ?w'" unfolding targets_ok_def by (metis cases)
  moreover have "db_target_generation b \<le> wt_target_generation t'"
    if b: "b \<in> hs_captured h" "hm_get (ws_targets ?w') (db_target_id b) = Some t'"
      "wt_registration_generation t' = db_registration_generation b" for b t'
    using b(2)
  proof (cases rule: cases)
    case new
    then show ?thesis using fresh(1) [OF b(1)] b(3) by simp
  next
    case (old t)
    then show ?thesis using ok'(1) b unfolding captured_ok_def by (metis le_trans)
  qed
  then have "captured_ok h'" by (simp add: captured_ok_def h' del: perform.simps)
  moreover have "covered d g t' \<or> answered h (j, wt_registration_generation t', d, g)"
    if c: "hm_get (ws_targets ?w') j = Some t'"
      "(j, wt_registration_generation t', d, g) \<in> insert (i, ?r, [], 0) (hs_changes h)" for j t' d g
    using c(1)
  proof (cases rule: cases)
    case new
    then show ?thesis using fresh(2) [of j "wt_registration_generation t'" d g] c(2) by auto
  next
    case (old t)
    then have "(j, wt_registration_generation t', d, g) \<in> hs_changes h" using c(2) by simp
    then show ?thesis using old ok'(2) unfolding changes_ok_def by metis
  qed
  then have "changes_ok h'" by (simp add: changes_ok_def answered_def h' del: perform.simps)
  moreover have "batches_ok h'"
    using ok'(3) fresh(1) by (auto simp: batches_ok_def answered_def h' simp del: perform.simps)
  ultimately show ?thesis
    using replace_registrations [OF ok room refl] by (simp add: history_ok_def h' del: perform.simps)
qed

lemma capture_batch:
  assumes "capture global_generation i w = Some b"
  obtains t where "hm_get (ws_targets w) i = Some t" "db_target_id b = i"
    "db_registration_generation b = wt_registration_generation t"
    "db_target_generation b = wt_target_generation t"
    "\<And>d g. covered d g t \<Longrightarrow> batch_covers b d"
proof -
  obtain t where t: "hm_get (ws_targets w) i = Some t"
    using assms by (auto simp: capture_def split: option.splits)
  have "batch_covers b d" if "covered d g t" for d g
    using assms t that by (auto simp: capture_def Let_def batch_covers_def covered_def
        needs_full_reconcile_def dest!: om_get_in split: if_splits) force
  then show thesis
    using that assms t by (auto simp: capture_def Let_def split: if_splits)
qed

lemma history_ok_capture:
  assumes ok: "history_ok h" and c: "capture global_generation i (hs_watcher h) = Some b"
    and h': "h' = h\<lparr>hs_captured := insert b (hs_captured h)\<rparr>"
  shows "history_ok h'"
proof -
  have ok': "registrations_ok h" "captured_ok h" "changes_ok h" "batches_ok h"
    using ok by (simp_all add: history_ok_def)
  obtain t where t: "hm_get (ws_targets (hs_watcher h)) i = Some t" "db_target_id b = i"
    "db_registration_generation b = wt_registration_generation t"
    "db_target_generation b = wt_target_generation t"
    "\<And>d g. covered d g t \<Longrightarrow> batch_covers b d"
    using c by (rule capture_batch) blast
  have "registrations_ok h'" using ok'(1) t(1,3) by (simp add: registrations_ok_def h')
  moreover have "captured_ok h'" using ok'(2) t(1-4) by (simp add: captured_ok_def h')
  moreover have "changes_ok h'" using ok'(3) by (simp add: changes_ok_def h' answered_def)
  moreover have "batch_covers b d \<or> answered h (i, wt_registration_generation t, d, g)"
    if "(i, wt_registration_generation t, d, g) \<in> hs_changes h" for d g
    using ok'(3) t(1,5) that unfolding changes_ok_def by metis
  then have "batches_ok h'"
    using ok'(4) t(2,3) by (simp add: batches_ok_def answered_def h')
  ultimately show ?thesis using ok by (simp add: history_ok_def h')
qed

lemma acknowledge_target_covered:
  assumes "covered d g t" "target_ok t"
  shows "covered d g (acknowledge_target b t) \<or> g < db_target_generation b"
proof (rule disjCI)
  assume old: "\<not> g < db_target_generation b"
  have wf: "om_wf (wt_dirty_paths t)" using assms(2) by (simp add: target_ok_def om.every_def)
  show "covered d g (acknowledge_target b t)"
    using assms(1)
  proof (unfold covered_def, elim disjE exE conjE)
    fix f assume "wt_full_generation t = Some f" "g < f"
    then show "(\<exists>f. wt_full_generation (acknowledge_target b t) = Some f \<and> g < f) \<or>
        (\<exists>q m. om_get (wt_dirty_paths (acknowledge_target b t)) q = Some m \<and> prefix q d \<and> g < m)"
      using old by (simp add: acknowledge_target_def)
  next
    fix q m assume q: "om_get (wt_dirty_paths t) q = Some m" "prefix q d" "g < m"
    then have "om_get (wt_dirty_paths (acknowledge_target b t)) q = Some m"
      using old wf by (simp add: acknowledge_target_def om_get_filter)
    then show "(\<exists>f. wt_full_generation (acknowledge_target b t) = Some f \<and> g < f) \<or>
        (\<exists>q m. om_get (wt_dirty_paths (acknowledge_target b t)) q = Some m \<and> prefix q d \<and> g < m)"
      using q by blast
  qed
qed

lemma acknowledge_target_ok: "target_ok t \<Longrightarrow> target_ok (acknowledge_target b t)"
  by (auto simp: target_ok_def acknowledge_target_def om.every_def om_wf_filter om_get_filter
      split: option.splits)

lemma acknowledged_changes:
  assumes ok: "history_ok h" and b: "b \<in> hs_captured h"
    and t: "hm_get (ws_targets (hs_watcher h)) (db_target_id b) = Some t"
      "wt_registration_generation t = db_registration_generation b"
    and c: "(db_target_id b, db_registration_generation b, d, g) \<in> hs_changes h"
  shows "covered d g (acknowledge_target b t)
    \<or> answered h (db_target_id b, db_registration_generation b, d, g)
    \<or> batch_answers b (db_target_id b, db_registration_generation b, d, g)"
proof -
  have "covered d g t \<or> answered h (db_target_id b, db_registration_generation b, d, g)"
    using ok t c unfolding history_ok_def changes_ok_def by metis
  moreover have "target_ok t" using ok t(1) by (simp add: history_ok_def targets_ok_def)
  moreover have "batch_covers b d \<or> answered h (db_target_id b, db_registration_generation b, d, g)"
    if "g < db_target_generation b"
    using ok b c that by (simp add: history_ok_def batches_ok_def)
  ultimately show ?thesis
    using acknowledge_target_covered [of d g t b] by (auto simp: batch_answers_def)
qed

lemma history_ok_acknowledge:
  assumes ok: "history_ok h" and b: "b \<in> hs_captured h"
    "acknowledge b (hs_watcher h) = (applied, w')"
    and h': "h' = h\<lparr>hs_watcher := w', hs_acknowledged :=
      (if applied then insert b (hs_acknowledged h) else hs_acknowledged h)\<rparr>"
  shows "history_ok h'"
proof (cases applied)
  case False
  then have "h' = h" using b(2) by (auto simp: h' acknowledge_def split: option.splits if_splits)
  then show ?thesis using ok by simp
next
  case True
  have ok': "targets_ok (hs_watcher h)" "registrations_ok h" "captured_ok h" "changes_ok h"
    "batches_ok h" using ok by (simp_all add: history_ok_def)
  obtain t where t: "hm_get (ws_targets (hs_watcher h)) (db_target_id b) = Some t"
    "wt_registration_generation t = db_registration_generation b"
    "w' = (hs_watcher h)\<lparr>ws_targets := hm_insert (ws_targets (hs_watcher h)) (db_target_id b)
       (acknowledge_target b t)\<rparr>"
    using b(2) True by (auto simp: acknowledge_def split: option.splits if_splits)
  have same: "wt_registration_generation (acknowledge_target b t) = wt_registration_generation t"
    "wt_target_generation (acknowledge_target b t) = wt_target_generation t"
    by (simp_all add: acknowledge_target_def)
  have sets: "hs_captured h' = hs_captured h" "hs_changes h' = hs_changes h" "hs_watcher h' = w'"
    by (simp_all add: h')
  have more: "answered h' c \<longleftrightarrow> answered h c \<or> batch_answers b c" for c
    using True by (auto simp: answered_def h')
  have "targets_ok w'" using ok'(1) t acknowledge_target_ok by (simp add: targets_ok_def)
  moreover have "registrations_ok h'"
    using ok'(2) t(3) same b(1) t(2) by (auto simp: registrations_ok_def h')
  moreover have "captured_ok h'" using ok'(3) t same by (simp add: captured_ok_def h')
  moreover have "batches_ok h'" using ok'(5) more unfolding batches_ok_def sets by metis
  moreover have "covered d g u \<or> answered h' (i, wt_registration_generation u, d, g)"
    if "hm_get (ws_targets w') i = Some u"
      "(i, wt_registration_generation u, d, g) \<in> hs_changes h" for i d g u
  proof (cases "i = db_target_id b")
    case True
    then show ?thesis using acknowledged_changes [OF ok b(1) t(1,2), of d g] that t same more by auto
  next
    case False
    then have "hm_get (ws_targets (hs_watcher h)) i = Some u" using that(1) t(3) by simp
    then show ?thesis using ok'(4) that(2) more unfolding changes_ok_def by metis
  qed
  then have "changes_ok h'" by (simp add: changes_ok_def sets)
  ultimately show ?thesis by (simp add: history_ok_def sets)
qed

lemma history_ok_init: "watch_init h \<Longrightarrow> history_ok h"
  by (simp add: watch_init_def history_ok_def targets_ok_def registrations_ok_def captured_ok_def
      changes_ok_def batches_ok_def)

interpretation watching: step_invariant watch_init watch_step history_ok
proof unfold_locales
  fix h h' assume ok: "history_ok h" and step: "watch_step h h'"
  show "history_ok h'"
    using step
  proof (cases rule: watch_step.cases)
    case (step_action a w)
    then show ?thesis using history_ok_action [OF ok] by blast
  next
    case (step_replace w i fp root now)
    then show ?thesis using history_ok_replace [OF ok] by blast
  next
    case (step_capture global_generation i batch)
    then show ?thesis using history_ok_capture [OF ok] by blast
  next
    case (step_acknowledge batch applied w')
    then show ?thesis using history_ok_acknowledge [OF ok] by blast
  qed
qed (rule history_ok_init)

text \<open>C9: no change is lost.  In every run of the watcher, whatever its threads interleave, each
  change that was reported for a target (by a notification for one of its directories, by a lost
  or overflowed queue, by a new registration or a restored watch) is still marked for the next
  scan of that registration, unless a batch that covers it was captured after the change and has
  been acknowledged.\<close>

theorem no_change_lost:
  assumes "reach watch_init watch_step h" "(i, registration, d, g) \<in> hs_changes h"
    and "hm_get (ws_targets (hs_watcher h)) i = Some t" "wt_registration_generation t = registration"
  shows "wt_full_generation t \<noteq> None
    \<or> (\<exists>q. om_get (wt_dirty_paths t) q \<noteq> None \<and> prefix q d)
    \<or> (\<exists>b\<in>hs_acknowledged h. db_target_id b = i \<and> db_registration_generation b = registration
        \<and> g < db_target_generation b
        \<and> (db_full_reconcile b \<or> (\<exists>q\<in>set (db_relative_paths b). prefix q d)))"
proof -
  have "changes_ok h" using watching.reach_inv [OF assms(1)] by (simp add: history_ok_def)
  then have "covered d g t \<or> answered h (i, registration, d, g)"
    using assms(2-4) by (auto simp: changes_ok_def)
  then show ?thesis
    by (auto simp: covered_def answered_def batch_answers_def batch_covers_def)
qed

end
