(* ===== verification/WatcherWf.thy ===== *)
theory WatcherWf
  imports WatcherProps
begin

text \<open>
  The shape of the watcher's state: the dirty directories of a target are sorted, none lies below
  another, there are never more than the configured number, and no mark is newer than the
  target's generation.  What is kept by every way of updating a single target is kept by every
  critical section; the locale proves that once.
\<close>

section \<open>Properties of single targets\<close>

locale target_property =
  fixes P :: "nat \<Rightarrow> target_state \<Rightarrow> bool"
  assumes P_new: "P n (new_target_state fp root registration global_generation now)"
    and P_mark_full: "P n t \<Longrightarrow> P n (mark_full t)"
    and P_mark_dirty: "P n t \<Longrightarrow> P n (mark_dirty d n t)"
    and P_degrade: "P n t \<Longrightarrow> P n (degrade now policy t)"
    and P_watching: "P n t \<Longrightarrow> P n (t\<lparr>wt_health := Watching, wt_retry_attempts := 0\<rparr>)"
    and P_acknowledge: "P n t \<Longrightarrow> P n (acknowledge_target batch t)"
begin

definition all_P :: "soft_disk_watcher \<Rightarrow> bool" where
  "all_P w \<longleftrightarrow> (\<forall>i t. hm_get (ws_targets w) i = Some t \<longrightarrow> P (sh_maximum_dirty_paths w) t)"

lemma all_P_same:
  "all_P w \<Longrightarrow> ws_targets w' = ws_targets w \<Longrightarrow>
    sh_maximum_dirty_paths w' = sh_maximum_dirty_paths w \<Longrightarrow> all_P w'"
  by (simp add: all_P_def)

lemma all_P_insert:
  "all_P w \<Longrightarrow> P (sh_maximum_dirty_paths w) t \<Longrightarrow>
    all_P (w\<lparr>ws_targets := hm_insert (ws_targets w) i t\<rparr>)"
  by (simp add: all_P_def)

lemma all_P_get: "all_P w \<Longrightarrow> hm_get (ws_targets w) i = Some t \<Longrightarrow> P (sh_maximum_dirty_paths w) t"
  by (simp add: all_P_def)

lemma all_P_global: "all_P w \<Longrightarrow> all_P (enqueue_global_change w)"
  by (auto simp: all_P_def enqueue_global_change_def all_targets_def hm_get_map intro: P_mark_full)

lemma all_P_signal: "all_P w \<Longrightarrow> all_P (signal_change w)"
  by (rule all_P_same) (simp_all add: signal_change_def)

lemma all_P_enqueue: "all_P w \<Longrightarrow> all_P (enqueue_target_change i w)"
  by (auto simp: enqueue_target_change_def Let_def intro!: all_P_global intro: all_P_same)

lemma all_P_enqueues: "all_P w \<Longrightarrow> all_P (fold enqueue_target_change ids w)"
  by (induction ids arbitrary: w) (simp_all add: all_P_enqueue)

lemma all_P_degrade_all: "all_P w \<Longrightarrow> all_P (degrade_all now w)"
  unfolding degrade_all_def
  by (intro all_P_signal all_P_global) (auto simp: all_P_def all_targets_def hm_get_map
      intro: P_degrade)

lemma all_P_forget: "all_P w \<Longrightarrow> all_P (forget_target i w)"
  by (auto simp: all_P_def forget_target_def)

lemma P_event_path: "P n t \<Longrightarrow> P n (mark_event_path now policy n kind root p t)"
  by (auto simp: mark_event_path_def Let_def intro: P_mark_full P_degrade P_mark_dirty
      split: option.split)

lemma all_P_event_paths: "all_P w \<Longrightarrow> all_P (snd (mark_event_paths now kind ps changed w))"
proof (induction ps arbitrary: changed w)
  case (Cons p ps)
  then show ?case
    by (auto intro!: Cons.IH all_P_insert P_event_path intro: all_P_get split: option.split)
qed simp

lemma all_P_callback: "all_P w \<Longrightarrow> all_P (handle_callback now result w)"
  using all_P_event_paths [of w]
  by (auto simp: handle_callback_def force_full_all_def Let_def case_prod_beta split: option.split
      intro!: all_P_degrade_all all_P_signal all_P_global all_P_enqueues)

lemma all_P_abandon: "all_P w \<Longrightarrow> all_P (abandon_backend now w)"
  unfolding abandon_backend_def by (rule all_P_degrade_all) (simp add: all_P_def)

lemma all_P_ensure: "all_P w \<Longrightarrow> all_P (ensure_backend answers now w)"
  by (simp add: ensure_backend_def all_P_def)

lemma all_P_install: "all_P w \<Longrightarrow> all_P (snd (install_registration_watch answers root old now w))"
  by (auto simp: install_registration_watch_def Let_def intro: all_P_abandon all_P_ensure)

lemma all_P_replace: "all_P w \<Longrightarrow> all_P (snd (replace_target_state i fp root now w))"
  unfolding replace_target_state_def Let_def snd_conv
  by (rule all_P_enqueue) (auto simp: all_P_def forget_target_def intro: P_new)

lemma all_P_finish:
  "all_P w \<Longrightarrow> all_P (snd (finish_registration i fp root generation succeeded now w))"
  by (auto simp: finish_registration_def Let_def split: option.split
      intro!: all_P_enqueue all_P_insert P_watching P_degrade intro: all_P_get)

lemma all_P_retry: "all_P w \<Longrightarrow> all_P (snd (finish_retry candidate succeeded now w))"
  by (auto simp: finish_retry_def Let_def split: option.split
      intro!: all_P_enqueue all_P_insert P_mark_full P_watching P_degrade intro: all_P_get)

lemma all_P_acknowledge: "all_P w \<Longrightarrow> all_P (snd (acknowledge batch w))"
  by (auto simp: acknowledge_def split: option.split intro!: all_P_insert P_acknowledge
      intro: all_P_get)

theorem all_P_perform: "all_P w \<Longrightarrow> all_P (perform a w)"
proof (cases a)
  case Drain
  then show "all_P w \<Longrightarrow> ?thesis" by (simp add: drain_changes_def all_P_def)
next
  case (Retire i)
  then show "all_P w \<Longrightarrow> ?thesis"
    by (auto simp: retire_def intro: all_P_signal all_P_enqueue all_P_forget split: option.split)
next
  case (RetryBackend answers now)
  then show "all_P w \<Longrightarrow> ?thesis"
    by (auto simp: retry_backend_def intro!: all_P_ensure) (simp_all add: all_P_def)
qed (auto simp: unwatch_or_abandon_backend_def intro: all_P_callback all_P_acknowledge all_P_signal
    all_P_replace all_P_install all_P_finish all_P_abandon all_P_retry)

lemma all_P_step: "all_P (hs_watcher h) \<Longrightarrow> watch_step h h' \<Longrightarrow> all_P (hs_watcher h')"
proof (elim watch_stepE)
  fix batch applied w'
  assume "all_P (hs_watcher h)" "acknowledge batch (hs_watcher h) = (applied, w')"
    "h' = h\<lparr>hs_watcher := w', hs_acknowledged :=
      if applied then insert batch (hs_acknowledged h) else hs_acknowledged h\<rparr>"
  then show "all_P (hs_watcher h')" using all_P_acknowledge [of "hs_watcher h" batch] by simp
qed (auto intro: all_P_perform all_P_replace)

end

section \<open>Well-formed targets\<close>

definition incomparable :: "path set \<Rightarrow> bool" where
  "incomparable ps \<longleftrightarrow> (\<forall>p\<in>ps. \<forall>q\<in>ps. prefix p q \<longrightarrow> p = q)"

definition target_wf :: "nat \<Rightarrow> target_state \<Rightarrow> bool" where
  "target_wf n t \<longleftrightarrow> om_wf (wt_dirty_paths t) \<and> length (wt_dirty_paths t) \<le> n
     \<and> incomparable (om_keys (wt_dirty_paths t))
     \<and> (wt_full_generation t \<noteq> None \<longrightarrow> wt_dirty_paths t = [])"

lemma nearest_recorded_ancestor_None:
  "nearest_recorded_ancestor paths p = None \<Longrightarrow> prefix q p \<Longrightarrow> om_get paths q = None"
proof (induction paths p rule: nearest_recorded_ancestor.induct)
  case (1 paths p)
  then have none: "om_get paths p = None"
    by (simp add: nearest_recorded_ancestor.simps [of paths p] split: if_splits)
  show ?case
  proof (cases "p = [] \<or> q = p")
    case True
    then show ?thesis using none 1(3) by auto
  next
    case False
    then have "prefix q (butlast p)"
      using 1(3) by (metis append_butlast_last_id prefix_snoc)
    then show ?thesis
      using 1 none False by (simp add: nearest_recorded_ancestor.simps [of paths p])
  qed
qed

lemma length_om_put: "k \<in> om_keys m \<Longrightarrow> om_wf m \<Longrightarrow> length (om_put m k v) = length m"
  by (induction m k v rule: om_put.induct) fastforce+

lemma om_keys_filter: "om_keys (filter P m) \<subseteq> om_keys m"
  by auto

lemma incomparable_empty [simp]: "incomparable {}"
  by (simp add: incomparable_def)

lemma incomparable_subset: "incomparable qs \<Longrightarrow> ps \<subseteq> qs \<Longrightarrow> incomparable ps"
  by (auto simp: incomparable_def)

lemma incomparable_insert:
  "incomparable ps \<Longrightarrow> (\<And>q. q \<in> ps \<Longrightarrow> \<not> prefix q d \<and> \<not> prefix d q) \<Longrightarrow> incomparable (insert d ps)"
  unfolding incomparable_def by blast

lemma target_wf_mark_dirty:
  assumes wf: "target_wf n t"
  shows "target_wf n (mark_dirty d n t)"
proof (cases "wt_full_generation t = None")
  case False
  then show ?thesis
    using wf by (simp add: target_wf_def mark_dirty_def Let_def next_generation_def)
next
  case full: True
  let ?d = "wt_dirty_paths t" and ?r = "filter (\<lambda>(p, _). \<not> is_strict_descendant p d) (wt_dirty_paths t)"
  have d: "om_wf ?d" "length ?d \<le> n" "incomparable (om_keys ?d)" using wf by (simp_all add: target_wf_def)
  show ?thesis
  proof (cases "nearest_recorded_ancestor ?d d")
    case (Some a)
    then have a: "a \<in> om_keys ?d"
      using nearest_recorded_ancestor_Some [OF Some] by (simp add: om_get_None)
    then have "insert a (om_keys ?d) = om_keys ?d" by auto
    then show ?thesis
      using full Some d length_om_put [OF a d(1)]
      by (simp add: target_wf_def mark_dirty_def Let_def next_generation_def del: insert_absorb)
  next
    case None
    have "incomparable (insert d (om_keys ?r))"
    proof (rule incomparable_insert [OF incomparable_subset [OF d(3) om_keys_filter]])
      fix q assume "q \<in> om_keys ?r"
      then have "om_get ?d q \<noteq> None" "\<not> is_strict_descendant q d"
        using d(1) by (auto simp: om_get_iff)
      then show "\<not> prefix q d \<and> \<not> prefix d q"
        using nearest_recorded_ancestor_None [OF None, of q] by (auto simp: is_strict_descendant_def)
    qed
    then show ?thesis
      using full None d(1)
      by (simp add: target_wf_def mark_dirty_def Let_def next_generation_def om_wf_filter)
  qed
qed

interpretation shape: target_property target_wf
proof unfold_locales
  show "target_wf n t \<Longrightarrow> target_wf n (mark_dirty d n t)" for n t d
    by (rule target_wf_mark_dirty)
  show "target_wf n t \<Longrightarrow> target_wf n (acknowledge_target batch t)" for n t batch
  proof -
    assume wf: "target_wf n t"
    let ?f = "\<lambda>(_, generation). db_target_generation batch < generation"
    have "length (filter ?f (wt_dirty_paths t)) \<le> n"
      using wf by (intro le_trans [OF length_filter_le]) (simp add: target_wf_def)
    moreover have "incomparable (om_keys (filter ?f (wt_dirty_paths t)))"
      using wf by (intro incomparable_subset [OF _ om_keys_filter]) (simp add: target_wf_def)
    ultimately show ?thesis
      using wf by (simp add: target_wf_def acknowledge_target_def om_wf_filter split: option.split)
  qed
qed (simp_all add: target_wf_def new_target_state_def mark_full_def next_generation_def degrade_def
    Let_def incomparable_def)

text \<open>C24: the state of every watched target is well formed in every run: its dirty directories are
  sorted and none is an ancestor of another, there are at most as many as configured, none is
  recorded while everything is due anyway, and no mark is newer than the target's generation.\<close>

theorem watch_state_well_formed:
  assumes "reach watch_init watch_step h" "hm_get (ws_targets (hs_watcher h)) i = Some t"
  shows "sorted_wrt (<) (map fst (wt_dirty_paths t))
    \<and> length (wt_dirty_paths t) \<le> sh_maximum_dirty_paths (hs_watcher h)
    \<and> (\<forall>p\<in>set (map fst (wt_dirty_paths t)). \<forall>q\<in>set (map fst (wt_dirty_paths t)). prefix p q \<longrightarrow> p = q)
    \<and> (wt_full_generation t \<noteq> None \<longrightarrow> wt_dirty_paths t = [])
    \<and> (\<forall>(p, m)\<in>set (wt_dirty_paths t). m \<le> wt_target_generation t)"
proof -
  have "shape.all_P (hs_watcher h)"
    using assms(1)
  proof induction
    case (reach_init h)
    then show ?case by (simp add: watch_init_def shape.all_P_def)
  qed (rule shape.all_P_step)
  then have "target_wf (sh_maximum_dirty_paths (hs_watcher h)) t"
    using assms(2) by (simp add: shape.all_P_def)
  moreover have "target_ok t"
    using watching.reach_inv [OF assms(1)] assms(2) by (simp add: history_ok_def targets_ok_def)
  ultimately show ?thesis
    using om_every_set [of _ "wt_dirty_paths t"]
    by (force simp: target_wf_def target_ok_def om_wf_def incomparable_def)
qed

section \<open>Operations as runs of critical sections\<close>

text \<open>The watcher's operations are runs of the critical sections above, if what other threads do
  in between is one.\<close>

definition runs_to :: "soft_disk_watcher \<Rightarrow> soft_disk_watcher \<Rightarrow> bool" where
  "runs_to w w' \<longleftrightarrow> (\<exists>as. w' = fold perform as w)"

lemma runs_refl [simp]: "runs_to w w"
  unfolding runs_to_def by (rule exI [of _ "[]"]) simp

lemma runs_trans: "runs_to w w' \<Longrightarrow> runs_to w' w'' \<Longrightarrow> runs_to w w''"
  unfolding runs_to_def by (metis fold_append comp_apply)

lemma runs_perform: "runs_to w w' \<Longrightarrow> runs_to w (perform a w')"
  by (rule runs_trans) (auto simp: runs_to_def intro: exI [of _ "[a]"])

lemma register_runs:
  assumes others: "\<And>k w. runs_to w (others k w)"
  shows "runs_to w (snd (register others answers i fp root started now w))"
proof (cases "validate_registration i fp root = Inr ()
    \<and> unchanged_registration i fp root w = Inr None")
  case False
  then show ?thesis by (auto simp: register_def split: sum.split option.split)
next
  case True
  let ?w1 = "perform (Replace i fp root started) (others 0 w)"
  let ?old = "fst (fst (replace_target_state i fp root started (others 0 w)))"
  let ?g = "snd (fst (replace_target_state i fp root started (others 0 w)))"
  let ?w2 = "others 1 (perform Signal ?w1)"
  let ?ok = "fst (install_registration_watch answers root ?old now ?w2)"
  let ?w3 = "others 2 (perform (Install answers root ?old now) ?w2)"
  let ?w4 = "perform (Finish i fp root ?g ?ok now) ?w3"
  let ?stale = "snd (fst (finish_registration i fp root ?g ?ok now ?w3))"
  let ?w5 = "if ?stale then perform (Unwatch answers root now) (others 3 ?w4) else ?w4"
  have "snd (register others answers i fp root started now w) = perform Signal ?w5"
    using True by (simp add: register_def Let_def case_prod_beta)
  moreover have w2: "runs_to w ?w2"
    by (rule runs_trans [OF runs_perform [OF runs_perform [OF others]] others])
  have w3: "runs_to w ?w3"
    by (rule runs_trans [OF runs_perform [OF w2] others])
  have w4: "runs_to w ?w4" by (rule runs_perform [OF w3])
  then have "runs_to w ?w5"
    using runs_perform [OF runs_trans [OF w4 others]] by presburger
  ultimately show ?thesis using runs_perform by metis
qed

lemma retry_each_runs:
  assumes other: "\<And>w. runs_to w (other w)"
  shows "runs_to w (snd (retry_each other answers now candidates counts w))"
proof (induction candidates arbitrary: counts w)
  case Nil
  then show ?case by (cases counts) simp
next
  case (Cons c cs)
  obtain attempted restored where counts: "counts = (attempted, restored)" by fastforce
  let ?outcome = "if bk_watcher w then install_recursive_watch answers (rc_root c) else FailedCleanly"
  show ?case
  proof (cases "?outcome = BackendContaminated")
    case True
    then show ?thesis using runs_perform [OF runs_refl, of w "Abandon now"] by (simp add: counts)
  next
    case False
    let ?w = "perform (FinishRetry c (?outcome = Installed) now) (other w)"
    let ?s = "fst (finish_retry c (?outcome = Installed) now (other w))"
    have "snd (retry_each other answers now (c # cs) counts w)
        = snd (retry_each other answers now cs
            (attempted + 1, if ?s then restored + 1 else restored) ?w)"
      using False by (simp add: counts Let_def case_prod_beta)
    then show ?thesis using runs_trans [OF runs_perform [OF other] Cons.IH] by presburger
  qed
qed

lemma retry_degraded_runs:
  assumes other: "\<And>w. runs_to w (other w)"
  shows "runs_to w (snd (retry_degraded other answers now w))"
proof -
  let ?c = "retry_targets now w"
  let ?w1 = "perform (RetryBackend answers now) (other w)"
  let ?r = "retry_each other answers now ?c (0, 0) ?w1"
  have "runs_to w (other (snd ?r))"
    by (rule runs_trans [OF runs_trans [OF runs_perform [OF other] retry_each_runs] other])
      (rule other)
  moreover have "snd (retry_degraded other answers now w)
      = (if 0 < fst (fst ?r) then perform Signal (other (snd ?r)) else other (snd ?r))"
    by (simp add: retry_degraded_def Let_def case_prod_beta)
  ultimately show ?thesis using runs_perform by presburger
qed

section \<open>Example\<close>

definition example_watcher :: soft_disk_watcher where
  "example_watcher = perform (Replace ''i'' ''f'' [RootDir, Normal ''d''] 0) (watcher_new 4 0 True)"

definition example_batch :: dirty_batch where
  "example_batch = \<lparr>db_target_id = ''i'', db_fingerprint = ''f'', db_registration_generation = 1,
     db_target_generation = 1, db_global_generation = 0, db_relative_paths = [],
     db_full_reconcile = True, db_watcher_active = False\<rparr>"

definition example_event :: notify_event where
  "example_event = \<lparr>ev_kind = EventCreate,
     ev_paths = [[RootDir, Normal ''d'', Normal ''a'', Normal ''x'']], ev_need_rescan = False\<rparr>"

definition example_history :: history where
  "example_history =
     (let w = snd (acknowledge example_batch example_watcher)
      in \<lparr>hs_watcher = handle_callback 7 (Some example_event) w,
          hs_captured = {example_batch}, hs_acknowledged = {example_batch},
          hs_changes = {(''i'', 1, [''a''], 1), (''i'', 1, [], 0)}\<rparr>)"

definition example_acknowledged :: soft_disk_watcher where
  "example_acknowledged = snd (acknowledge example_batch example_watcher)"

definition example_target_state :: "nat \<Rightarrow> (path \<times> nat) list \<Rightarrow> target_state" where
  "example_target_state g dirty = \<lparr>wt_fingerprint = ''f'', wt_root = [RootDir, Normal ''d''],
     wt_registration_generation = 1, wt_target_generation = g, wt_full_generation = None,
     wt_dirty_paths = dirty, wt_acknowledged_global_generation = 0, wt_health = Degraded,
     wt_health_generation = 0, wt_retry_attempts = 0, wt_retry_at = 0\<rparr>"

lemmas watcher_eval = watcher_new_def new_with_limits_def Let_def replace_target_state_def
  forget_target_def new_target_state_def mark_full_def next_generation_def next_nonzero_def
  enqueue_target_change_def hm_insert_def hm_remove_def hm_get_Cons acknowledge_def acknowledge_target_def
  signal_change_def

lemma example_new:
  "ws_targets (watcher_new 4 0 True) = []" "ws_next_registration_generation (watcher_new 4 0 True) = 0"
  by (simp_all add: watcher_new_def new_with_limits_def Let_def)

lemma example_captured: "capture 0 ''i'' example_watcher = Some example_batch"
  by (simp add: example_watcher_def watcher_eval capture_def target_pending_def
      needs_full_reconcile_def example_batch_def)

lemma example_acknowledges: "fst (acknowledge example_batch example_watcher)"
  by (simp add: example_watcher_def example_batch_def watcher_eval)

lemma example_targets:
  "ws_targets example_acknowledged = [(''i'', example_target_state 1 [])]"
  "ws_roots example_acknowledged = [([RootDir, Normal ''d''], ''i'')]"
  "ws_changed_targets example_acknowledged = [''i'']"
  "sh_maximum_dirty_paths example_acknowledged = 4"
  "sh_maximum_pending_targets example_acknowledged = 4096"
  by (simp_all add: example_acknowledged_def example_watcher_def example_batch_def watcher_eval
      example_target_state_def)

lemma example_routes:
  "route_path [([RootDir, Normal ''d''], ''i'')] [RootDir, Normal ''d'', Normal ''a'', Normal ''x'']
    = Some (''i'', [RootDir, Normal ''d''])"
  "safe_relative_parent [RootDir, Normal ''d''] [RootDir, Normal ''d'', Normal ''a'', Normal ''x'']
    = Some [''a'']"
  by (simp_all add: route_path_def is_absolute_def route_from.simps hm_get_Cons path_parent_def
      safe_relative_parent_def Let_def is_normal_def)

lemma example_dirty:
  "ws_targets (handle_callback 7 (Some example_event) example_acknowledged)
    = [(''i'', example_target_state 2 [([''a''], 2)])]"
  "sh_maximum_dirty_paths (handle_callback 7 (Some example_event) example_acknowledged) = 4"
  by (simp_all add: handle_callback_def example_event_def example_targets example_routes hm_get_Cons
      mark_event_path_def mark_dirty_def example_target_state_def nearest_recorded_ancestor.simps
      watcher_eval enqueue_global_change_def all_targets_def)

lemma example_reported:
  "reported (action_directories (Callback 7 (Some example_event)) example_acknowledged)
     example_acknowledged = {(''i'', 1, [''a''], 1)}"
  by (auto simp: example_routes changed_directory_def reported_def example_targets hm_get_Cons event_directories_def example_event_def
      example_target_state_def split: if_splits)

lemma example_reach: "reach watch_init watch_step example_history"
proof -
  let ?w = "watcher_new 4 0 True"
  let ?h = "\<lparr>hs_watcher = ?w, hs_captured = {}, hs_acknowledged = {}, hs_changes = {}\<rparr>"
  let ?h1 = "\<lparr>hs_watcher = example_watcher, hs_captured = {}, hs_acknowledged = {},
      hs_changes = {(''i'', 1, [], 0)}\<rparr>"
  let ?h2 = "?h1\<lparr>hs_captured := {example_batch}\<rparr>"
  let ?h3 = "?h2\<lparr>hs_watcher := example_acknowledged, hs_acknowledged := {example_batch}\<rparr>"
  have "reach watch_init watch_step ?h"
    by (rule reach_init) (simp add: watch_init_def example_new)
  moreover have "watch_step ?h ?h1"
    using step_replace [of ?w ?h "''i''" "''f''" "[RootDir, Normal ''d'']" 0]
    by (simp add: example_new has_room_def example_watcher_def)
  ultimately have "reach watch_init watch_step ?h1" by (rule reach_step)
  moreover have "watch_step ?h1 ?h2"
    using step_capture [of 0 "''i''" ?h1 example_batch] by (simp add: example_captured)
  ultimately have "reach watch_init watch_step ?h2" by (rule reach_step)
  moreover have "watch_step ?h2 ?h3"
    using step_acknowledge [of example_batch ?h2 True example_acknowledged] example_acknowledges
    by (simp add: example_acknowledged_def prod_eq_iff)
  ultimately have "reach watch_init watch_step ?h3" by (rule reach_step)
  moreover have "watch_step ?h3 example_history"
    using step_action [of "Callback 7 (Some example_event)" example_acknowledged ?h3] example_reported
    by (simp add: example_history_def has_room_def example_targets hm_get_Cons Let_def
        example_acknowledged_def [symmetric] example_target_state_def event_length_def
        example_event_def insert_commute)
  ultimately show ?thesis by (rule reach_step)
qed

theorem no_change_lost_witness:
  "reach watch_init watch_step example_history
    \<and> (''i'', 1, [''a''], 1) \<in> hs_changes example_history
    \<and> (\<exists>q. om_get (wt_dirty_paths (example_target_state 2 [([''a''], 2)])) q \<noteq> None
        \<and> prefix q [''a''])"
proof -
  let ?t = "example_target_state 2 [([''a''], 2)]"
  have t: "hm_get (ws_targets (hs_watcher example_history)) ''i'' = Some ?t"
    by (simp add: example_history_def Let_def example_acknowledged_def [symmetric] example_dirty
        hm_get_Cons)
  have c: "(''i'', 1, [''a''], 1) \<in> hs_changes example_history"
    "wt_registration_generation ?t = 1" "wt_full_generation ?t = None"
    "hs_acknowledged example_history = {example_batch}"
    by (simp_all add: example_history_def Let_def example_target_state_def)
  show ?thesis
    using no_change_lost [OF example_reach c(1) t c(2)] c example_reach
    by (simp add: example_batch_def)
qed

theorem watch_state_well_formed_witness:
  "reach watch_init watch_step example_history \<and> sh_maximum_dirty_paths (hs_watcher example_history) = 4
    \<and> length (wt_dirty_paths (example_target_state 2 [([''a''], 2)])) \<le> 4"
proof -
  have "sh_maximum_dirty_paths (hs_watcher example_history) = 4"
    by (simp add: example_history_def Let_def example_acknowledged_def [symmetric] example_dirty)
  then show ?thesis
    using watch_state_well_formed [OF example_reach, of "''i''"] example_reach
    by (simp add: example_history_def Let_def example_acknowledged_def [symmetric] example_dirty
        hm_get_Cons)
qed

end
