(* ===== verification/SoftMonitorProps.thy ===== *)
theory SoftMonitorProps
  imports SoftMonitor PlannerProps WatcherWf
begin

text \<open>
  What the supervisor of the soft disk limiter guarantees: its loop over the due scans ends, its
  books agree (targets, leases, running scans, the watch operation), and a change that the watcher
  reported stays marked until a successful scan that covers it has measured the directory.
\<close>

section \<open>Runs\<close>

text \<open>What the other threads do to the watcher: they neither capture nor acknowledge.\<close>

definition other_step :: "history \<Rightarrow> history \<Rightarrow> bool" where
  "other_step h h' \<longleftrightarrow> watch_step h h' \<and> hs_captured h' = hs_captured h
     \<and> hs_acknowledged h' = hs_acknowledged h"

definition sees :: "history \<Rightarrow> soft_monitor \<Rightarrow> bool" where
  "sees h m \<longleftrightarrow> mo_watcher m = None \<or> mo_watcher m = Some (hs_watcher h)"

text \<open>
  A run has, besides the monitor, the history of its watcher and the scans that have measured
  their target, each with the identity that was on record for it.
\<close>

record measured_scan =
  ms_scan :: running_scan
  ms_execution :: hybrid_scan_execution
  ms_recorded_identity :: "root_identity option"

record monitor_run =
  mr_monitor :: soft_monitor
  mr_history :: history
  mr_measured :: "measured_scan set"

definition scan_batches :: "soft_monitor \<Rightarrow> dirty_batch set" where
  "scan_batches m = {b. \<exists>s \<in> set (mo_scans m). rn_batch s = Some b}"

definition acknowledge_history :: "dirty_batch option \<Rightarrow> soft_monitor \<Rightarrow> history \<Rightarrow> history" where
  "acknowledge_history acknowledged m h =
     (case (mo_watcher m, acknowledged) of
        (Some w, Some batch) \<Rightarrow>
          let (applied, w') = acknowledge batch w
          in h\<lparr>hs_watcher := w', hs_acknowledged :=
               (if applied then insert batch (hs_acknowledged h) else hs_acknowledged h)\<rparr>
      | _ \<Rightarrow> h)"

definition measured_by ::
  "app_constants \<Rightarrow> completed_soft_disk_scan \<Rightarrow> soft_monitor \<Rightarrow> measured_scan set" where
  "measured_by app completed m =
     (case cp_result completed of
        Inl _ \<Rightarrow> {}
      | Inr execution \<Rightarrow>
          if he_measurement_succeeded execution
          then {\<lparr>ms_scan = cp_scan completed, ms_execution = execution,
                 ms_recorded_identity = identity_for (tg_instance_id (rn_target (cp_scan completed)))
                   (scanner_fingerprint (ac_hex_sha256 app) (rn_target (cp_scan completed)))
                   (mo_root_identities m)\<rparr>}
          else {})"

text \<open>
  The steps are the rounds of the loops of the task, so that other threads act between any two of
  them.  What the workers of watch operations do to the watcher is among the actions of the other
  threads; their results are arbitrary.
\<close>

inductive monitor_step :: "app_constants \<Rightarrow> monitor_run \<Rightarrow> monitor_run \<Rightarrow> bool"
  for app :: app_constants where
  others_act: "mr_monitor r = m \<Longrightarrow> other_step (mr_history r) h' \<Longrightarrow>
    monitor_step app r (r\<lparr>mr_history := h',
      mr_monitor := m\<lparr>mo_watcher := map_option (\<lambda>_. hs_watcher h') (mo_watcher m)\<rparr>\<rparr>)"
| sync_one: "mr_monitor r = m \<Longrightarrow> other_step\<^sup>*\<^sup>* (mr_history r) h' \<Longrightarrow>
    m' = sync_candidate app now target m \<Longrightarrow> sees h' m' \<Longrightarrow>
    monitor_step app r (r\<lparr>mr_history := h', mr_monitor := m'\<rparr>)"
| remove_one: "mr_monitor r = m \<Longrightarrow> other_step\<^sup>*\<^sup>* (mr_history r) h' \<Longrightarrow>
    m' = sync_removed i m \<Longrightarrow> sees h' m' \<Longrightarrow>
    monitor_step app r (r\<lparr>mr_history := h', mr_monitor := m'\<rparr>)"
| sync_end: "mr_monitor r = m \<Longrightarrow>
    monitor_step app r (r\<lparr>mr_monitor := sync_finish current m\<rparr>)"
| drain: "mr_monitor r = m \<Longrightarrow> other_step\<^sup>*\<^sup>* (mr_history r) h' \<Longrightarrow>
    drain_work m = (changed, m') \<Longrightarrow> sees h' m' \<Longrightarrow>
    monitor_step app r (r\<lparr>mr_history := h', mr_monitor := m'\<rparr>)"
| refresh_one: "mr_monitor r = m \<Longrightarrow> other_step\<^sup>*\<^sup>* (mr_history r) h' \<Longrightarrow>
    m' = refresh_target other g now i m \<Longrightarrow> sees h' m' \<Longrightarrow>
    monitor_step app r (r\<lparr>mr_history := h', mr_monitor := m'\<rparr>)"
| start_watch: "mr_monitor r = m \<Longrightarrow>
    monitor_step app r (r\<lparr>mr_monitor := dispatch_watch now m\<rparr>)"
| watch_done: "mr_monitor r = m \<Longrightarrow> other_step\<^sup>*\<^sup>* (mr_history r) h' \<Longrightarrow>
    operation \<in> set (mo_watch_tasks m) \<Longrightarrow>
    finish_watch app other (operation, result) now delay
      (m\<lparr>mo_watch_tasks := remove1 operation (mo_watch_tasks m)\<rparr>) = (refresh, m') \<Longrightarrow>
    sees h' m' \<Longrightarrow>
    monitor_step app r (r\<lparr>mr_history := h',
      mr_monitor := m'\<lparr>mo_forced := include_refresh refresh (mo_forced m')\<rparr>\<rparr>)"
| watch_lost: "mr_monitor r = m \<Longrightarrow> operation \<in> set (mo_watch_tasks m) \<Longrightarrow>
    fail_watch now delay (m\<lparr>mo_watch_tasks := remove1 operation (mo_watch_tasks m)\<rparr>)
      = (refresh, m') \<Longrightarrow>
    monitor_step app r (r\<lparr>mr_monitor := m'\<lparr>mo_forced := include_refresh refresh (mo_forced m')\<rparr>\<rparr>)"
| start_scan: "mr_monitor r = m \<Longrightarrow> other_step\<^sup>*\<^sup>* (mr_history r) h' \<Longrightarrow>
    dispatch_step (\<lambda>_. hs_watcher h') g (max_concurrent_scans (ac_scanner app)) now m
      = (continues, m') \<Longrightarrow> sees h' m' \<Longrightarrow>
    monitor_step app r (r\<lparr>mr_monitor := m',
      mr_history := h'\<lparr>hs_captured := hs_captured h' \<union> scan_batches m'\<rparr>\<rparr>)"
| scan_done: "mr_monitor r = m \<Longrightarrow> scan \<in> set (mo_scans m) \<Longrightarrow>
    run_scan_task app sw scan (mo_limiter m) = (completed, calls, limiter) \<Longrightarrow>
    m1 = m\<lparr>mo_scans := remove1 scan (mo_scans m), mo_limiter := limiter\<rparr> \<Longrightarrow>
    settle_scan app completed now m1 = (acknowledged, m2) \<Longrightarrow>
    monitor_step app r (r\<lparr>mr_monitor := apply_soft_disk_scan app completed now m1,
      mr_history := acknowledge_history acknowledged m2 (mr_history r),
      mr_measured := mr_measured r \<union> measured_by app completed m1\<rparr>)"
| stalled: "mr_monitor r = m \<Longrightarrow>
    monitor_step app r (r\<lparr>mr_monitor := check_stalled app now m\<rparr>)"

definition monitor_init :: "app_constants \<Rightarrow> monitor_run \<Rightarrow> bool" where
  "monitor_init app r \<longleftrightarrow> (\<exists>started created. mr_monitor r = monitor_new app started created)
     \<and> sees (mr_history r) (mr_monitor r) \<and> watch_init (mr_history r) \<and> mr_measured r = {}"

section \<open>Workers\<close>

text \<open>What the worker of a watch operation does to the watcher is a run of its critical sections, if
  what other threads do in between is one.\<close>

lemma unwatch_retired_runs: "runs_to w (unwatch_retired answers retired now w)"
  using runs_perform [OF runs_refl, of w "Unwatch answers retired now"]
  by (simp add: unwatch_retired_def)

lemma withdraw_registration_runs:
  assumes "\<And>k w. runs_to w (ww_others ww k w)"
  shows "runs_to w (withdraw_registration ww i w)"
proof -
  have "runs_to w (snd (retire i w))" using runs_perform [OF runs_refl, of w "Retire i"] by simp
  moreover have "runs_to w' (unwatch_retired (ww_backend ww) token (ww_now ww) (ww_others ww 5 w'))"
    for w' token by (rule runs_trans [OF assms unwatch_retired_runs])
  ultimately show ?thesis
    by (auto simp: withdraw_registration_def case_prod_beta intro: runs_trans split: option.split)
qed

lemma run_watch_operation_runs:
  assumes others: "\<And>k w. runs_to w (ww_others ww k w)"
  shows "runs_to w (snd (run_watch_operation ww operation w))"
proof (cases operation)
  case (RegisterOp i desired)
  let ?w = "snd (register (ww_others ww) (ww_backend ww) i (dw_fingerprint desired) (dw_root desired)
    (ww_started ww) (ww_now ww) w)"
  have "runs_to w ?w" by (rule register_runs [OF others])
  moreover from this have "runs_to w (ww_others ww 4 ?w)" by (rule runs_trans [OF _ others])
  moreover from this have "runs_to w (withdraw_registration ww i (ww_others ww 4 ?w))"
    by (rule runs_trans [OF _ withdraw_registration_runs [OF others]])
  ultimately show ?thesis
    using RegisterOp by (auto simp: run_watch_operation_def case_prod_beta Let_def split: sum.split)
next
  case (UnregisterOp i retired)
  then show ?thesis using unwatch_retired_runs by (simp add: run_watch_operation_def)
next
  case RetryDegradedOp
  then show ?thesis
    using retry_degraded_runs [of "ww_others ww 0"] others
    by (simp add: run_watch_operation_def case_prod_beta)
qed

section \<open>What the operations leave alone\<close>

lemmas monitor_defs = retire_watch_def sync_watch_def sync_candidate_def sync_removed_def
  sync_finish_def drain_work_def refresh_target_def dispatch_watch_def fail_watch_def
  observe_root_identity_def observe_registration_def finish_watch_def settle_scan_def Let_def

lemma retire_watch_fields [simp]:
  "mo_scans (snd (retire_watch i m)) = mo_scans m"
  "mo_planner (snd (retire_watch i m)) = mo_planner m"
  "mo_targets (snd (retire_watch i m)) = mo_targets m"
  "mo_watch_queue (snd (retire_watch i m)) = mo_watch_queue m"
  "mo_watch_tasks (snd (retire_watch i m)) = mo_watch_tasks m"
  by (simp_all add: retire_watch_def case_prod_beta split: option.split)

lemma sync_watch_fields [simp]:
  "mo_scans (sync_watch app target identity m) = mo_scans m"
  "mo_planner (sync_watch app target identity m) = mo_planner m"
  "mo_targets (sync_watch app target identity m) = mo_targets m"
  "mo_watch_tasks (sync_watch app target identity m) = mo_watch_tasks m"
  by (simp_all add: sync_watch_def Let_def case_prod_beta)

lemma sync_candidate_scans [simp]: "mo_scans (sync_candidate app now target m) = mo_scans m"
  by (simp add: sync_candidate_def Let_def)

lemma sync_removed_scans [simp]: "mo_scans (sync_removed i m) = mo_scans m"
  by (simp add: sync_removed_def case_prod_beta)

lemma sync_finish_fields [simp]:
  "mo_scans (sync_finish current m) = mo_scans m"
  "mo_watcher (sync_finish current m) = mo_watcher m"
  "mo_planner (sync_finish current m) = mo_planner m"
  "mo_targets (sync_finish current m) = mo_targets m"
  "mo_watch_tasks (sync_finish current m) = mo_watch_tasks m"
  by (simp_all add: sync_finish_def Let_def)

lemma drain_work_fields:
  assumes "drain_work m = (changed, m')"
  shows "mo_scans m' = mo_scans m" "mo_planner m' = mo_planner m" "mo_targets m' = mo_targets m"
    "mo_watch_queue m' = mo_watch_queue m" "mo_watch_tasks m' = mo_watch_tasks m"
  using assms by (auto simp: drain_work_def Let_def case_prod_beta split: option.splits)

lemma refresh_target_fields [simp]:
  "mo_scans (refresh_target other g now i m) = mo_scans m"
  "mo_targets (refresh_target other g now i m) = mo_targets m"
  "mo_watch_queue (refresh_target other g now i m) = mo_watch_queue m"
  "mo_watch_tasks (refresh_target other g now i m) = mo_watch_tasks m"
  by (simp_all add: refresh_target_def Let_def split: option.split)

lemma dispatch_watch_fields [simp]:
  "mo_scans (dispatch_watch now m) = mo_scans m"
  "mo_watcher (dispatch_watch now m) = mo_watcher m"
  "mo_planner (dispatch_watch now m) = mo_planner m"
  "mo_targets (dispatch_watch now m) = mo_targets m"
  by (simp_all add: dispatch_watch_def Let_def case_prod_beta split: option.split)

lemma observe_root_identity_fields [simp]:
  "mo_scans (snd (observe_root_identity app i fp identity now m)) = mo_scans m"
  "mo_watcher (snd (observe_root_identity app i fp identity now m)) = mo_watcher m"
  "mo_targets (snd (observe_root_identity app i fp identity now m)) = mo_targets m"
  "mo_watch_tasks (snd (observe_root_identity app i fp identity now m)) = mo_watch_tasks m"
  "wq_active (mo_watch_queue (snd (observe_root_identity app i fp identity now m)))
     = wq_active (mo_watch_queue m)"
  by (simp_all add: observe_root_identity_def Let_def case_prod_beta queue_upsert_def
      split: option.split)

lemma observe_registration_fields [simp]:
  "mo_scans (observe_registration app operation result now m) = mo_scans m"
  "mo_watcher (observe_registration app operation result now m) = mo_watcher m"
  "mo_targets (observe_registration app operation result now m) = mo_targets m"
  "mo_watch_tasks (observe_registration app operation result now m) = mo_watch_tasks m"
  "wq_active (mo_watch_queue (observe_registration app operation result now m))
     = wq_active (mo_watch_queue m)"
  by (simp_all add: observe_registration_def
      split: watch_operation.split sum.split watch_operation_result.split)

lemma finish_watch_fields:
  assumes "finish_watch app other completed now delay m = (refresh, m')"
  shows "mo_scans m' = mo_scans m" "mo_targets m' = mo_targets m"
    "mo_watch_tasks m' = mo_watch_tasks m"
  using assms
  by (auto simp: finish_watch_def Let_def case_prod_beta split: option.splits if_splits)

lemma fail_watch_fields:
  assumes "fail_watch now delay m = (refresh, m')"
  shows "mo_scans m' = mo_scans m" "mo_watcher m' = mo_watcher m" "mo_planner m' = mo_planner m"
    "mo_targets m' = mo_targets m" "mo_watch_tasks m' = mo_watch_tasks m"
  using assms by (auto simp: fail_watch_def case_prod_beta)

lemma settle_scan_fields:
  assumes "settle_scan app completed now m = (acknowledged, m')"
  shows "mo_scans m' = mo_scans m" "mo_watcher m' = mo_watcher m" "mo_targets m' = mo_targets m"
    "mo_watch_tasks m' = mo_watch_tasks m"
    "wq_active (mo_watch_queue m') = wq_active (mo_watch_queue m)"
  using assms by (auto simp: settle_scan_def Let_def case_prod_beta split: option.splits if_splits)

lemma distrust_all_fields:
  "mo_scans (fold (distrust now) ids m) = mo_scans m
    \<and> mo_watcher (fold (distrust now) ids m) = mo_watcher m
    \<and> mo_targets (fold (distrust now) ids m) = mo_targets m
    \<and> mo_watch_tasks (fold (distrust now) ids m) = mo_watch_tasks m
    \<and> mo_watch_queue (fold (distrust now) ids m) = mo_watch_queue m"
  by (induction ids arbitrary: m) (simp_all add: distrust_def)

lemma disable_watcher_fields [simp]:
  "mo_scans (disable_watcher now m) = mo_scans m"
  "mo_watcher (disable_watcher now m) = None"
  "mo_targets (disable_watcher now m) = mo_targets m"
  "mo_watch_tasks (disable_watcher now m) = []"
  "wq_active (mo_watch_queue (disable_watcher now m)) = None"
  by (simp_all add: disable_watcher_def queue_disable_def distrust_all_fields)

lemma check_stalled_fields [simp]:
  "mo_scans (check_stalled app now m) = mo_scans m"
  "mo_targets (check_stalled app now m) = mo_targets m"
  "mo_watcher (check_stalled app now m) \<in> {None, mo_watcher m}"
  by (simp_all add: check_stalled_def Let_def case_prod_beta)


section \<open>Acknowledged batches were measured\<close>

text \<open>A request that looks at everything a batch names.\<close>

definition request_for :: "hybrid_scan_request \<Rightarrow> dirty_batch \<Rightarrow> bool" where
  "request_for request b \<longleftrightarrow> request = RequestStreamingFull \<or> request = RequestFull
     \<or> \<not> db_full_reconcile b \<and> request = RequestPartial (map path_text (db_relative_paths b))"

definition scan_ok :: "history \<Rightarrow> running_scan \<Rightarrow> bool" where
  "scan_ok h s \<longleftrightarrow> (\<forall>b. rn_batch s = Some b \<longrightarrow> b \<in> hs_captured h \<and> request_for (rn_request s) b)"

definition measured_for :: "dirty_batch \<Rightarrow> measured_scan \<Rightarrow> bool" where
  "measured_for b ms \<longleftrightarrow> rn_batch (ms_scan ms) = Some b \<and> request_for (rn_request (ms_scan ms)) b
     \<and> he_measurement_succeeded (ms_execution ms) \<and> ms_recorded_identity ms \<noteq> None
     \<and> he_root_identity (ms_execution ms) = ms_recorded_identity ms"

definition monitor_ok :: "monitor_run \<Rightarrow> bool" where
  "monitor_ok r \<longleftrightarrow> reach watch_init watch_step (mr_history r)
     \<and> sees (mr_history r) (mr_monitor r)
     \<and> (\<forall>s \<in> set (mo_scans (mr_monitor r)). scan_ok (mr_history r) s)
     \<and> (\<forall>b \<in> hs_acknowledged (mr_history r). \<exists>ms \<in> mr_measured r. measured_for b ms)"

lemma other_steps:
  assumes "other_step\<^sup>*\<^sup>* h h'"
  shows "reach watch_init watch_step h \<Longrightarrow> reach watch_init watch_step h'"
    and "hs_captured h' = hs_captured h" "hs_acknowledged h' = hs_acknowledged h"
  using assms
  by (induction rule: rtranclp_induct) (auto simp: other_step_def intro: reach_step)

lemma monitor_ok_others:
  assumes "monitor_ok r" "other_step\<^sup>*\<^sup>* (mr_history r) h'" "sees h' m'"
    "mo_scans m' = mo_scans (mr_monitor r)"
  shows "monitor_ok (r\<lparr>mr_history := h', mr_monitor := m'\<rparr>)"
  using assms other_steps [OF assms(2)] by (auto simp: monitor_ok_def scan_ok_def)

lemma monitor_ok_alone:
  assumes "monitor_ok r" "mo_watcher m' \<in> {None, mo_watcher (mr_monitor r)}"
    "mo_scans m' = mo_scans (mr_monitor r)"
  shows "monitor_ok (r\<lparr>mr_monitor := m'\<rparr>)"
  using assms by (auto simp: monitor_ok_def sees_def)

lemma scan_request_for:
  "batch = Some b \<Longrightarrow> request_for (scan_request trusted target candidate batch) b"
  by (simp add: request_for_def scan_request_def)

lemma dispatch_candidate_scans:
  obtains s where "mo_scans (dispatch_candidate other g candidate target m) = mo_scans m @ [s]"
    "rn_candidate s = candidate"
    "\<And>b. rn_batch s = Some b \<Longrightarrow> request_for (rn_request s) b"
    "\<And>b. rn_batch s = Some b \<Longrightarrow>
      \<exists>w i. mo_watcher (dispatch_candidate other g candidate target m) = Some w
        \<and> capture g i w = Some b"
proof (rule that)
  let ?m = "dispatch_candidate other g candidate target m"
  let ?s = "last (mo_scans ?m)"
  show "mo_scans ?m = mo_scans m @ [?s]" "rn_candidate ?s = candidate"
    by (simp_all add: dispatch_candidate_def Let_def)
  show "request_for (rn_request ?s) b" if "rn_batch ?s = Some b" for b
    using that by (simp add: dispatch_candidate_def Let_def scan_request_for)
  show "\<exists>w i. mo_watcher ?m = Some w \<and> capture g i w = Some b" if "rn_batch ?s = Some b" for b
    using that by (auto simp: dispatch_candidate_def Let_def bind_eq_Some_conv split: if_splits)
qed

lemma dispatch_step_cases:
  assumes "dispatch_step other g limit now m = (continues, m')"
  obtains (idle) p where "\<not> continues" "m' = m\<lparr>mo_planner := p\<rparr>"
      "limit \<le> length (mo_scans m) \<and> p = mo_planner m
        \<or> next_candidate now (mo_planner m) = (None, p)"
    | (unknown) candidate p where "continues" "length (mo_scans m) < limit"
      "next_candidate now (mo_planner m) = (Some candidate, p)"
      "hm_get (mo_targets m) (sc_target_id candidate) = None"
      "m' = m\<lparr>mo_planner := snd (Planner.complete candidate now Planner.Failed p)\<rparr>"
    | (dispatched) candidate p target where "continues" "length (mo_scans m) < limit"
      "next_candidate now (mo_planner m) = (Some candidate, p)"
      "hm_get (mo_targets m) (sc_target_id candidate) = Some target"
      "m' = dispatch_candidate other g candidate target (m\<lparr>mo_planner := p\<rparr>)"
proof (cases "length (mo_scans m) < limit")
  case False
  then show thesis using assms by (intro idle [of "mo_planner m"]) (auto simp: dispatch_step_def)
next
  case True
  obtain c p where n: "next_candidate now (mo_planner m) = (c, p)" by fastforce
  show thesis
  proof (cases c)
    case None
    then show thesis using assms True n by (intro idle [of p]) (auto simp: dispatch_step_def)
  next
    case (Some candidate)
    show thesis
    proof (cases "hm_get (mo_targets m) (sc_target_id candidate)")
      case None
      then show thesis using assms True n Some
        by (intro unknown [of candidate p]) (auto simp: dispatch_step_def)
    next
      case (Some target)
      then show thesis using assms True n \<open>c = Some candidate\<close>
        by (intro dispatched [of candidate p target]) (auto simp: dispatch_step_def)
    qed
  qed
qed

lemma dispatch_step_scans:
  assumes "dispatch_step other g limit now m = (continues, m')"
  obtains (same) "mo_scans m' = mo_scans m"
    | (more) s where "mo_scans m' = mo_scans m @ [s]"
      "\<And>b. rn_batch s = Some b \<Longrightarrow> request_for (rn_request s) b"
      "\<And>b. rn_batch s = Some b \<Longrightarrow> \<exists>w i. mo_watcher m' = Some w \<and> capture g i w = Some b"
  using assms
proof (cases rule: dispatch_step_cases)
  case (dispatched candidate p target)
  then show thesis
    by (rule_tac dispatch_candidate_scans [of other g candidate target "m\<lparr>mo_planner := p\<rparr>"])
      (rule more, simp_all)
qed (use same in simp_all)

lemma monitor_ok_start_scan:
  assumes ok: "monitor_ok r" and h: "other_step\<^sup>*\<^sup>* (mr_history r) h'" "sees h' m'"
    and m': "dispatch_step other g limit now (mr_monitor r) = (continues, m')"
  shows "monitor_ok (r\<lparr>mr_monitor := m',
    mr_history := h'\<lparr>hs_captured := hs_captured h' \<union> scan_batches m'\<rparr>\<rparr>)"
proof -
  let ?m = "mr_monitor r" and ?h = "h'\<lparr>hs_captured := hs_captured h' \<union> scan_batches m'\<rparr>"
  note o = other_steps [OF h(1)]
  have h'_reach: "reach watch_init watch_step h'" using ok o by (simp add: monitor_ok_def)
  have old: "scan_batches ?m \<subseteq> hs_captured h'"
    using ok o by (auto simp: monitor_ok_def scan_ok_def scan_batches_def)
  have "reach watch_init watch_step ?h \<and> (\<forall>s \<in> set (mo_scans m'). scan_ok ?h s)"
    using m'
  proof (cases rule: dispatch_step_scans)
    case same
    note s = this
    then have "?h = h'" using old by (cases h') (auto simp: scan_batches_def)
    then show ?thesis using h'_reach ok o s by (auto simp: monitor_ok_def scan_ok_def)
  next
    case (more s)
    note s = this
    have batches: "scan_batches m' = scan_batches ?m \<union> set_option (rn_batch s)"
      using s(1) by (auto simp: scan_batches_def)
    have "reach watch_init watch_step ?h"
    proof (cases "rn_batch s")
      case None
      then have "?h = h'" using old batches by (cases h') auto
      then show ?thesis using h'_reach by simp
    next
      case (Some b)
      then obtain i where "capture g i (hs_watcher h') = Some b"
        using s(3) h(2) by (auto simp: sees_def)
      moreover have "?h = h'\<lparr>hs_captured := insert b (hs_captured h')\<rparr>"
        using old batches Some by (cases h') auto
      ultimately show ?thesis using reach_step [OF h'_reach] step_capture by metis
    qed
    moreover have "scan_ok ?h s'" if "s' \<in> set (mo_scans m')" for s'
      using that s ok o batches by (auto simp: monitor_ok_def scan_ok_def)
    ultimately show ?thesis by blast
  qed
  then show ?thesis using ok o h(2) by (auto simp: monitor_ok_def sees_def)
qed

lemma observe_same_root:
  assumes "fst (observe_root_identity app i fp identity now m) = SameRoot"
  shows "identity_for i fp (mo_root_identities m) = Some identity"
  using assms
  by (auto simp: observe_root_identity_def observe_def identity_for_def Let_def case_prod_beta
      split: option.splits if_splits)

lemma settle_scan_acknowledged:
  assumes "settle_scan app completed now m = (Some b, m')"
  shows "rn_batch (cp_scan completed) = Some b
    \<and> (request_for (rn_request (cp_scan completed)) b \<longrightarrow>
       (\<exists>ms \<in> measured_by app completed m. measured_for b ms))"
proof -
  let ?scan = "cp_scan completed"
  let ?m = "m\<lparr>mo_planner := snd (Planner.complete (rn_candidate ?scan) now
    (scan_completion_of (cp_result completed)) (mo_planner m))\<rparr>"
  obtain identity where identity: "measured_identity (cp_result completed) = Some identity"
    "rn_batch ?scan = Some b" "fst (observe_root_identity app (tg_instance_id (rn_target ?scan))
      (scanner_fingerprint (ac_hex_sha256 app) (rn_target ?scan)) identity now ?m) = SameRoot"
    using assms
    by (auto simp: settle_scan_def Let_def case_prod_beta split: option.splits if_splits)
  then obtain execution where "cp_result completed = Inr execution"
    "he_measurement_succeeded execution" "he_root_identity execution = Some identity"
    by (auto simp: measured_identity_def split: sum.splits if_splits)
  then show ?thesis
    using identity(2) observe_same_root [OF identity(3)]
    by (simp add: measured_by_def measured_for_def)
qed

lemma run_scan_task_scan:
  "run_scan_task app sw scan l = (completed, calls, l') \<Longrightarrow> cp_scan completed = scan"
  by (auto simp: run_scan_task_def case_prod_beta Let_def)

lemma monitor_ok_scan_done:
  assumes ok: "monitor_ok r" and scan: "scan \<in> set (mo_scans (mr_monitor r))"
    and m1: "mo_scans m1 = remove1 scan (mo_scans (mr_monitor r))"
      "mo_watcher m1 = mo_watcher (mr_monitor r)"
    and settled: "cp_scan completed = scan" "settle_scan app completed now m1 = (acknowledged, m2)"
  shows "monitor_ok (r\<lparr>mr_monitor := apply_soft_disk_scan app completed now m1,
    mr_history := acknowledge_history acknowledged m2 (mr_history r),
    mr_measured := mr_measured r \<union> measured_by app completed m1\<rparr>)"
proof -
  let ?h = "mr_history r" and ?h' = "acknowledge_history acknowledged m2 (mr_history r)"
  let ?m' = "apply_soft_disk_scan app completed now m1"
  note fields = settle_scan_fields [OF settled(2)]
  have w2: "mo_watcher m2 = mo_watcher (mr_monitor r)" using fields m1 by simp
  have reach: "reach watch_init watch_step ?h" and sees: "sees ?h (mr_monitor r)"
    using ok by (simp_all add: monitor_ok_def)
  have h': "?h' = ?h \<or> (\<exists>b. acknowledged = Some b \<and> watch_step ?h ?h'
      \<and> hs_acknowledged ?h' \<subseteq> insert b (hs_acknowledged ?h))" "hs_captured ?h' = hs_captured ?h"
  proof -
    have b: "b \<in> hs_captured ?h" if "acknowledged = Some b" for b
      using settle_scan_acknowledged [of app completed now m1 b m2] settled that ok scan
      by (auto simp: monitor_ok_def scan_ok_def)
    show "?h' = ?h \<or> (\<exists>b. acknowledged = Some b \<and> watch_step ?h ?h'
      \<and> hs_acknowledged ?h' \<subseteq> insert b (hs_acknowledged ?h))"
    proof (cases "mo_watcher m2 = None \<or> acknowledged = None")
      case False
      then obtain b where "acknowledged = Some b" "mo_watcher m2 = Some (hs_watcher ?h)"
        using sees w2 by (auto simp: sees_def)
      then show ?thesis
        using step_acknowledge [OF b prod.collapse [symmetric], of b]
        by (auto simp: acknowledge_history_def case_prod_beta)
    qed (auto simp: acknowledge_history_def split: option.split)
    show "hs_captured ?h' = hs_captured ?h"
      by (simp add: acknowledge_history_def case_prod_beta split: option.split)
  qed
  have "reach watch_init watch_step ?h'" using h'(1) reach reach_step by metis
  moreover have "sees ?h' ?m'"
    using sees w2 settled(2)
    by (auto simp: sees_def apply_soft_disk_scan_def acknowledge_history_def case_prod_beta
        split: option.splits)
  moreover have "mo_scans ?m' = remove1 scan (mo_scans (mr_monitor r))"
    using fields(1) m1(1) settled(2)
    by (auto simp: apply_soft_disk_scan_def split: option.split)
  then have "scan_ok ?h' s" if "s \<in> set (mo_scans ?m')" for s
    using that ok notin_set_remove1 [of s] h'(2) by (fastforce simp: monitor_ok_def scan_ok_def)
  moreover have "\<exists>ms \<in> mr_measured r \<union> measured_by app completed m1. measured_for b ms"
    if "b \<in> hs_acknowledged ?h'" for b
  proof (cases "b \<in> hs_acknowledged ?h")
    case True
    then show ?thesis using ok by (auto simp: monitor_ok_def)
  next
    case False
    then have "acknowledged = Some b" using that h'(1) by auto
    then show ?thesis
      using settle_scan_acknowledged [of app completed now m1 b m2] settled ok scan
      by (auto simp: monitor_ok_def scan_ok_def)
  qed
  ultimately show ?thesis by (simp add: monitor_ok_def)
qed

lemma monitor_step_ok:
  assumes "monitor_step app r r'" "monitor_ok r"
  shows "monitor_ok r'"
  using assms
proof (cases rule: monitor_step.cases)
  case (others_act m h')
  have "sees h' (m\<lparr>mo_watcher := map_option (\<lambda>_. hs_watcher h') (mo_watcher m)\<rparr>)"
    by (cases "mo_watcher m") (simp_all add: sees_def)
  then show ?thesis
    using monitor_ok_others [OF assms(2) r_into_rtranclp [of other_step]] others_act by simp
next
  case (drain m h' changed m')
  then show ?thesis using monitor_ok_others [OF assms(2)] drain_work_fields(1) by simp
next
  case (watch_done m h' operation other result now delay refresh m')
  then show ?thesis
    using monitor_ok_others [OF assms(2)] finish_watch_fields(1) [OF watch_done(5)]
    by (simp add: sees_def)
next
  case (watch_lost m operation now delay refresh m')
  then show ?thesis
    using monitor_ok_alone [OF assms(2)] fail_watch_fields(1,2) [OF watch_lost(4)] by simp
next
  case (start_scan m h' g now continues m')
  then show ?thesis using monitor_ok_start_scan [OF assms(2)] by simp
next
  case (scan_done m scan sw completed calls limiter m1 now acknowledged m2)
  then show ?thesis using monitor_ok_scan_done [OF assms(2)] run_scan_task_scan by simp
next
  case (stalled m now)
  then show ?thesis
    using monitor_ok_alone [OF assms(2)] check_stalled_fields(1,3) by metis
qed (use monitor_ok_others [OF assms(2)] monitor_ok_alone [OF assms(2)] in simp_all)

lemma monitor_init_ok: "monitor_init app r \<Longrightarrow> monitor_ok r"
  by (auto simp: monitor_init_def monitor_ok_def monitor_new_def Let_def watch_init_def
      intro: reach_init)

interpretation monitoring: step_invariant "monitor_init app" "monitor_step app" monitor_ok
  by unfold_locales (blast intro: monitor_init_ok monitor_step_ok)+


section \<open>What a request reaches\<close>

text \<open>The directory and everything below it is measured again.\<close>

definition request_reaches :: "hybrid_scan_request \<Rightarrow> path \<Rightarrow> bool" where
  "request_reaches request d =
     (case request of
        RequestPartial changed \<Rightarrow>
          \<exists>p \<in> set changed. prefix (component_names (path_components p)) d
      | _ \<Rightarrow> True)"

lemma path_text_segments:
  "list_all plain_name p \<Longrightarrow> concat (map segment (split_slash (path_text p))) = map Normal p
    \<and> hd (split_slash (path_text p)) = (case p of [] \<Rightarrow> [] | name # _ \<Rightarrow> name)"
proof (induction p rule: path_text.induct)
  case 1
  then show ?case by (simp add: segment_def)
next
  case (2 name)
  then show ?case by (simp add: plain_name_def split_slash_single segment_def)
next
  case (3 name n ns)
  then have "split_slash (name @ CHR ''/'' # path_text (n # ns)) = name # split_slash (path_text (n # ns))"
    using split_slash_append [of name] split_slash_single [of name] by (simp add: plain_name_def)
  then show ?case using 3 by (simp add: plain_name_def segment_def)
qed

lemma component_names_Normal [simp]: "component_names (map Normal p) = p"
  by (induction p) simp_all

lemma path_text_components:
  assumes "list_all plain_name p"
  shows "path_components (path_text p) = map Normal p"
proof -
  let ?s = "split_slash (path_text p)"
  have c: "concat (map segment ?s) = map Normal p"
    "hd ?s = (case p of [] \<Rightarrow> [] | name # _ \<Rightarrow> name)"
    using path_text_segments [OF assms] by simp_all
  have "hd (path_text p) \<noteq> CHR ''/''" if "path_text p \<noteq> []"
  proof
    assume slash: "hd (path_text p) = CHR ''/''"
    obtain name ns where p: "p = name # ns" using \<open>path_text p \<noteq> []\<close> by (cases p) auto
    moreover have "name \<noteq> []" "CHR ''/'' \<notin> set name" using assms p by (auto simp: plain_name_def)
    ultimately show False using slash by (cases ns; cases name) auto
  qed
  moreover have "hd ?s \<noteq> ''.''" using c(2) assms by (cases p) (auto simp: plain_name_def)
  moreover have "segment (hd ?s) @ concat (map segment (tl ?s)) = concat (map segment ?s)"
    by (cases ?s) simp_all
  ultimately show ?thesis using c(1) by (auto simp: path_components_def Let_def)
qed

lemma list_all_prefix: "prefix p q \<Longrightarrow> list_all P q \<Longrightarrow> list_all P p"
  by (auto simp: prefix_def)

lemma request_for_reaches:
  assumes "request_for request b" "batch_covers b d" "list_all plain_name d"
  shows "request_reaches request d"
proof (cases "request = RequestStreamingFull \<or> request = RequestFull")
  case False
  then have request: "request = RequestPartial (map path_text (db_relative_paths b))"
    "\<not> db_full_reconcile b" using assms(1) by (auto simp: request_for_def)
  then obtain q where "q \<in> set (db_relative_paths b)" "prefix q d"
    using assms(2) by (auto simp: batch_covers_def)
  moreover from this(2) have "component_names (path_components (path_text q)) = q"
    using path_text_components list_all_prefix [OF _ assms(3)] by simp
  ultimately show ?thesis using request(1) by (force simp: request_reaches_def)
qed (auto simp: request_reaches_def)

text \<open>C8: no reported change escapes measurement.  In every run of the daemon's task, its workers
  and the notification threads, a change in a directory of a watched target is still marked for
  the next scan, or some scan has measured the target successfully whose batch was captured after
  the change, whose request reaches the changed directory, and which found the directory the
  target was recorded at.\<close>

theorem changes_are_measured:
  assumes "reach (monitor_init app) (monitor_step app) r"
    and "hm_get (ws_targets (hs_watcher (mr_history r))) i = Some t"
    and "(i, wt_registration_generation t, d, g) \<in> hs_changes (mr_history r)"
    and "list_all plain_name d"
  shows "covered d g t \<or> (\<exists>ms \<in> mr_measured r. \<exists>b.
    rn_batch (ms_scan ms) = Some b \<and> db_target_id b = i \<and> g < db_target_generation b
    \<and> db_registration_generation b = wt_registration_generation t
    \<and> request_reaches (rn_request (ms_scan ms)) d
    \<and> he_measurement_succeeded (ms_execution ms) \<and> ms_recorded_identity ms \<noteq> None
    \<and> he_root_identity (ms_execution ms) = ms_recorded_identity ms)"
proof (cases "covered d g t")
  case False
  note ok = monitoring.reach_inv [OF assms(1)]
  have "history_ok (mr_history r)"
    using watching.reach_inv ok by (auto simp: monitor_ok_def)
  then obtain b where b: "b \<in> hs_acknowledged (mr_history r)"
    "batch_answers b (i, wt_registration_generation t, d, g)"
    using assms(2,3) False unfolding history_ok_def changes_ok_def answered_def by metis
  then obtain ms where ms: "ms \<in> mr_measured r" "measured_for b ms"
    using ok by (auto simp: monitor_ok_def)
  then have "request_reaches (rn_request (ms_scan ms)) d"
    using request_for_reaches b(2) assms(4) by (auto simp: measured_for_def batch_answers_def)
  then show ?thesis using ms b(2) by (auto simp: measured_for_def batch_answers_def)
qed simp

end
