(* ===== verification/SoftMonitorBooks.thy ===== *)
theory SoftMonitorBooks
  imports SoftMonitorProps
begin

text \<open>
  The books of the supervisor of the soft disk limiter: the targets it knows are the ones the
  planner knows, a planner lease belongs to a running scan, at most one watch operation runs, and
  the loop that starts the due scans ends with all of them started or the limit reached.
\<close>

section \<open>The books of the task\<close>

text \<open>The scan that holds a lease.\<close>

definition holds_lease :: "string \<Rightarrow> in_flight_lease \<Rightarrow> running_scan \<Rightarrow> bool" where
  "holds_lease i lease s \<longleftrightarrow> sc_target_id (rn_candidate s) = i
     \<and> sc_token (rn_candidate s) = if_token lease
     \<and> sc_revision (rn_candidate s) = if_revision lease"

definition leases_ok :: "planner \<Rightarrow> running_scan list \<Rightarrow> bool" where
  "leases_ok p scans \<longleftrightarrow> (\<forall>i t lease. om_get (pl_targets p) i = Some t \<longrightarrow>
     in_flight t = Some lease \<longrightarrow> (\<exists>s \<in> set scans. holds_lease i lease s))"

text \<open>Operations of the planner that keep its targets, and grant no lease.\<close>

definition keeps_leases :: "planner \<Rightarrow> planner \<Rightarrow> bool" where
  "keeps_leases p p' \<longleftrightarrow> pl_config p' = pl_config p \<and> pl_shutdown p' = pl_shutdown p
     \<and> (om_wf (pl_targets p) \<longrightarrow> om_wf (pl_targets p'))
     \<and> (\<forall>i t' lease. om_get (pl_targets p') i = Some t' \<longrightarrow> in_flight t' = Some lease \<longrightarrow>
          (\<exists>t. om_get (pl_targets p) i = Some t \<and> in_flight t = Some lease))"

definition same_targets :: "planner \<Rightarrow> planner \<Rightarrow> bool" where
  "same_targets p p' \<longleftrightarrow> (\<forall>i. om_get (pl_targets p') i = None \<longleftrightarrow> om_get (pl_targets p) i = None)"

lemma leases_ok_keeps: "leases_ok p scans \<Longrightarrow> keeps_leases p p' \<Longrightarrow> leases_ok p' scans"
  unfolding leases_ok_def keeps_leases_def by metis

lemma keeps_leases_trans: "keeps_leases p p' \<Longrightarrow> keeps_leases p' p'' \<Longrightarrow> keeps_leases p p''"
  unfolding keeps_leases_def by metis

lemma same_targets_trans: "same_targets p p' \<Longrightarrow> same_targets p' p'' \<Longrightarrow> same_targets p p''"
  by (simp add: same_targets_def)

lemma keeps_leases_refl [simp]: "keeps_leases p p" "same_targets p p"
  by (simp_all add: keeps_leases_def same_targets_def)

lemma put_target_keeps:
  assumes "\<And>lease. in_flight t' = Some lease \<Longrightarrow>
    \<exists>t. om_get (pl_targets p) i = Some t \<and> in_flight t = Some lease"
  shows "keeps_leases p (put_target p i t')"
  using assms by (auto simp: keeps_leases_def put_target_def)

lemma upsert_target_keeps: "keeps_leases p (snd (upsert_target now s p))"
  by (auto simp: upsert_target_def target_new_def target_reset_def intro!: put_target_keeps
      split: option.split)

lemma upsert_target_get:
  "om_get (pl_targets (snd (upsert_target now s p))) i = None \<longleftrightarrow>
    i \<noteq> ts_id s \<and> om_get (pl_targets p) i = None"
  by (auto simp: upsert_target_def put_target_def split: option.split)

lemma remove_target_keeps: "keeps_leases p (snd (Planner.remove_target i p))"
  by (auto simp: keeps_leases_def Planner.remove_target_def split: if_splits)

lemma set_watcher_trusted_keeps:
  "keeps_leases p (snd (set_watcher_trusted i trusted now p))"
  "same_targets p (snd (set_watcher_trusted i trusted now p))"
  by (auto simp: set_watcher_trusted_def target_reset_def same_targets_def put_target_def
      intro!: put_target_keeps [unfolded put_target_def] split: option.split)

lemma mark_dirty_keeps:
  "keeps_leases p (snd (Planner.mark_dirty i now generation p))"
  "same_targets p (snd (Planner.mark_dirty i now generation p))"
  by (auto simp: Planner.mark_dirty_def advance_dirty_def same_targets_def put_target_def
      intro!: put_target_keeps [unfolded put_target_def] split: option.split)

lemma mark_overflow_keeps:
  "keeps_leases p (snd (mark_overflow i now generation p))"
  "same_targets p (snd (mark_overflow i now generation p))"
  by (auto simp: mark_overflow_def advance_dirty_def same_targets_def put_target_def Let_def
      intro!: put_target_keeps [unfolded put_target_def] split: option.split)


lemma record_full_scan_lease [simp]: "in_flight (record_full_scan t now c config) = in_flight t"
  by (simp add: record_full_scan_def Let_def split: option.split)

lemma complete_lease:
  assumes "om_get (pl_targets (snd (Planner.complete c now completion p))) i = Some t'"
    "in_flight t' = Some lease"
  shows "\<exists>t. om_get (pl_targets p) i = Some t \<and> in_flight t = Some lease
    \<and> \<not> (sc_target_id c = i \<and> if_token lease = sc_token c \<and> if_revision lease = sc_revision c)"
  using assms
  by (auto simp: Planner.complete_def put_target_def Let_def require_full_after_def
      acknowledge_generation_def split: option.splits if_splits scan_completion.splits)

lemma complete_fields:
  "pl_config (snd (Planner.complete c now completion p)) = pl_config p"
  "pl_shutdown (snd (Planner.complete c now completion p)) = pl_shutdown p"
  "om_wf (pl_targets p) \<Longrightarrow> om_wf (pl_targets (snd (Planner.complete c now completion p)))"
  "same_targets p (snd (Planner.complete c now completion p))"
  by (auto simp: Planner.complete_def put_target_def Let_def same_targets_def split: option.split)

lemma complete_leases_ok:
  assumes "leases_ok p scans" "rn_candidate s = c"
  shows "leases_ok (snd (Planner.complete c now completion p)) (remove1 s scans)"
  unfolding leases_ok_def
proof (intro allI impI)
  fix i t' lease
  assume "om_get (pl_targets (snd (Planner.complete c now completion p))) i = Some t'"
    "in_flight t' = Some lease"
  then obtain t where t: "om_get (pl_targets p) i = Some t" "in_flight t = Some lease"
    "\<not> (sc_target_id c = i \<and> if_token lease = sc_token c \<and> if_revision lease = sc_revision c)"
    using complete_lease by blast
  then obtain s' where s': "s' \<in> set scans" "holds_lease i lease s'"
    using assms(1) unfolding leases_ok_def by metis
  then have "s' \<noteq> s" using t(3) assms(2) by (auto simp: holds_lease_def)
  then show "\<exists>s' \<in> set (remove1 s scans). holds_lease i lease s'" using s' by auto
qed

lemma next_candidate_idle:
  assumes "om_wf (pl_targets p)" "next_candidate now p = (None, p')"
  shows "p' = p"
  using assms next_candidate_None [OF assms(1), of now]
  by (auto simp: next_candidate_def split: option.splits)

lemma next_candidate_books:
  assumes "om_wf (pl_targets p)" "next_candidate now p = (Some c, p')"
  shows "pl_config p' = pl_config p \<and> pl_shutdown p' = pl_shutdown p \<and> om_wf (pl_targets p')
    \<and> same_targets p p'"
    and "rn_candidate s = c \<Longrightarrow> leases_ok p scans \<Longrightarrow> leases_ok p' (scans @ [s])"
proof -
  obtain t where t: "om_get (pl_targets p) (sc_target_id c) = Some t"
    "sc_revision c = revision t"
    "p' = p\<lparr>pl_next_token := max (sat_add (pl_next_token p) 1) 1,
       pl_dispatch_order := max (sat_add (pl_dispatch_order p) 1) 1,
       pl_targets := om_put (pl_targets p) (sc_target_id c)
         (t\<lparr>last_dispatch_order := max (sat_add (pl_dispatch_order p) 1) 1,
            last_dispatch_at := Some now, in_flight := Some \<lparr>if_token = sc_token c,
              if_revision = revision t\<rparr>\<rparr>)\<rparr>"
    by (rule next_candidate_Some [OF assms])
  show "pl_config p' = pl_config p \<and> pl_shutdown p' = pl_shutdown p \<and> om_wf (pl_targets p')
    \<and> same_targets p p'"
    using t assms(1) by (auto simp: same_targets_def)
  show "leases_ok p' (scans @ [s])" if s: "rn_candidate s = c" "leases_ok p scans"
    unfolding leases_ok_def
  proof (intro allI impI)
    fix i t' lease
    assume lease: "om_get (pl_targets p') i = Some t'" "in_flight t' = Some lease"
    show "\<exists>s' \<in> set (scans @ [s]). holds_lease i lease s'"
    proof (cases "i = sc_target_id c")
      case True
      then have "holds_lease i lease s" using lease t s(1) by (auto simp: holds_lease_def)
      then show ?thesis by simp
    next
      case False
      then have "om_get (pl_targets p) i = Some t'" using lease(1) t(3) by simp
      then show ?thesis using lease(2) s(2) unfolding leases_ok_def by fastforce
    qed
  qed
qed

lemma unknown_candidate_leases_ok:
  assumes "om_wf (pl_targets p)" "next_candidate now p = (Some c, p')" "leases_ok p scans"
  shows "leases_ok (snd (Planner.complete c now completion p')) scans"
proof -
  let ?s = "\<lparr>rn_candidate = c, rn_batch = None, rn_target = undefined, rn_request = RequestFull\<rparr>"
  have "leases_ok p' (?s # scans)"
    using next_candidate_books(2) [OF assms(1,2) _ assms(3), of ?s]
    by (auto simp: leases_ok_def)
  from complete_leases_ok [OF this, of ?s c now completion] show ?thesis by simp
qed

section \<open>The invariant\<close>

definition operations_of :: "watch_operation_queue \<Rightarrow> watch_operation list" where
  "operations_of q = (case wq_active q of None \<Rightarrow> [] | Some active \<Rightarrow> [ao_operation active])"

definition planner_books :: "planner \<Rightarrow> (string \<times> soft_disk_target) list \<Rightarrow> bool" where
  "planner_books p targets \<longleftrightarrow> om_wf (pl_targets p) \<and> 0 < Planner.scan_interval (pl_config p)
     \<and> \<not> pl_shutdown p
     \<and> (\<forall>i. om_get (pl_targets p) i = None \<longleftrightarrow> hm_get targets i = None)"

definition monitor_books :: "app_constants \<Rightarrow> soft_monitor \<Rightarrow> bool" where
  "monitor_books app m \<longleftrightarrow> planner_books (mo_planner m) (mo_targets m)
     \<and> leases_ok (mo_planner m) (mo_scans m)
     \<and> length (mo_scans m) \<le> max_concurrent_scans (ac_scanner app)
     \<and> mo_watch_tasks m = operations_of (mo_watch_queue m)"

lemma planner_books_keeps:
  "planner_books p targets \<Longrightarrow> keeps_leases p p' \<Longrightarrow> same_targets p p' \<Longrightarrow> planner_books p' targets"
  by (simp add: planner_books_def keeps_leases_def same_targets_def)

lemma monitor_books_planner:
  assumes "monitor_books app m" "keeps_leases (mo_planner m) (mo_planner m')"
    "same_targets (mo_planner m) (mo_planner m')" "mo_targets m' = mo_targets m"
    "mo_scans m' = mo_scans m" "mo_watch_tasks m' = operations_of (mo_watch_queue m')"
  shows "monitor_books app m'"
  using assms planner_books_keeps leases_ok_keeps by (auto simp: monitor_books_def)

lemma queue_active [simp]:
  "wq_active (queue_upsert i d q) = wq_active q"
  "wq_active (queue_remove i r q) = wq_active q"
  "wq_active (resolve_retirement i r q) = wq_active q"
  "wq_active (request_retry q) = wq_active q"
  by (simp_all add: queue_defs)

lemma sync_watch_active [simp]:
  "wq_active (mo_watch_queue (sync_watch app target identity m)) = wq_active (mo_watch_queue m)"
  by (simp add: sync_watch_def Let_def case_prod_beta)

lemma sync_candidate_books:
  assumes "monitor_books app m"
  shows "monitor_books app (sync_candidate app now target m)"
proof -
  let ?m = "sync_candidate app now target m"
  obtain s where p: "mo_planner ?m = snd (upsert_target now s (mo_planner m))"
    "ts_id s = tg_instance_id target"
    "mo_targets ?m = hm_insert (mo_targets m) (tg_instance_id target) target"
    by (simp add: sync_candidate_def Let_def)
  have "keeps_leases (mo_planner m) (mo_planner ?m)" unfolding p(1) by (rule upsert_target_keeps)
  moreover have "mo_watch_tasks ?m = operations_of (mo_watch_queue ?m)"
    using assms by (simp add: sync_candidate_def Let_def monitor_books_def operations_of_def)
  ultimately show ?thesis
    using assms leases_ok_keeps p
    by (auto simp: monitor_books_def planner_books_def keeps_leases_def upsert_target_get)
qed

lemma sync_removed_books:
  assumes "monitor_books app m"
  shows "monitor_books app (sync_removed i m)"
proof -
  let ?m = "sync_removed i m"
  have p: "mo_planner ?m = snd (Planner.remove_target i (mo_planner m))"
    "mo_targets ?m = hm_remove (mo_targets m) i" "mo_watch_tasks ?m = mo_watch_tasks m"
    "operations_of (mo_watch_queue ?m) = operations_of (mo_watch_queue m)"
    by (simp_all add: sync_removed_def case_prod_beta operations_of_def)
  have "keeps_leases (mo_planner m) (mo_planner ?m)" unfolding p(1) by (rule remove_target_keeps)
  then show ?thesis
    using assms leases_ok_keeps p
    by (auto simp: monitor_books_def planner_books_def keeps_leases_def Planner.remove_target_def)
qed

lemma refresh_target_books:
  assumes "monitor_books app m"
  shows "monitor_books app (refresh_target other g now i m)"
proof -
  let ?m = "refresh_target other g now i m"
  let ?trusted = "\<lambda>w. watcher_is_trusted w (mo_watch_queue m) i"
  let ?p = "\<lambda>w. snd (set_watcher_trusted i (?trusted w) now (mo_planner m))"
  have "keeps_leases (mo_planner m) (mo_planner ?m) \<and> same_targets (mo_planner m) (mo_planner ?m)"
  proof (cases "mo_watcher m = None \<or> hm_get (mo_targets m) i = None")
    case True
    then show ?thesis by (auto simp: refresh_target_def split: option.split)
  next
    case False
    then obtain w where w: "mo_watcher m = Some w" "hm_get (mo_targets m) i \<noteq> None" by auto
    note trust = set_watcher_trusted_keeps [of "mo_planner m" i "?trusted w" now]
    have overflow: "keeps_leases (mo_planner m) (snd (mark_overflow i now generation (?p w)))
        \<and> same_targets (mo_planner m) (snd (mark_overflow i now generation (?p w)))" for generation
      using keeps_leases_trans [OF trust(1)] same_targets_trans [OF trust(2)] mark_overflow_keeps
      by blast
    have dirty: "keeps_leases (mo_planner m) (snd (Planner.mark_dirty i now generation (?p w)))
        \<and> same_targets (mo_planner m) (snd (Planner.mark_dirty i now generation (?p w)))"
      for generation
      using keeps_leases_trans [OF trust(1)] same_targets_trans [OF trust(2)] mark_dirty_keeps
      by blast
    show ?thesis
      using w trust overflow dirty by (auto simp: refresh_target_def Let_def split: option.split)
  qed
  then show ?thesis
    by (rule_tac monitor_books_planner [OF assms])
      (use assms in \<open>auto simp: monitor_books_def\<close>)
qed

lemma dispatch_watch_books:
  assumes "monitor_books app m"
  shows "monitor_books app (dispatch_watch now m)"
proof -
  have "mo_watch_tasks (dispatch_watch now m) = operations_of (mo_watch_queue (dispatch_watch now m))"
    using assms
    by (auto simp: dispatch_watch_def monitor_books_def queue_next_def operations_of_def Let_def
        split: option.split)
  then show ?thesis using assms by (simp add: monitor_books_def)
qed

lemma observe_root_identity_planner:
  assumes "planner_books (mo_planner m) (mo_targets m)"
  shows "keeps_leases (mo_planner m) (mo_planner (snd (observe_root_identity app i fp identity now m)))
    \<and> same_targets (mo_planner m) (mo_planner (snd (observe_root_identity app i fp identity now m)))"
proof -
  have "keeps_leases (mo_planner m) (snd (upsert_target now s (mo_planner m)))
      \<and> same_targets (mo_planner m) (snd (upsert_target now s (mo_planner m)))"
    if "ts_id s = i" "hm_get (mo_targets m) i \<noteq> None" for s
    using assms that by (auto simp: upsert_target_keeps same_targets_def upsert_target_get
        planner_books_def)
  then show ?thesis
    by (simp add: observe_root_identity_def Let_def case_prod_beta split: option.split)
qed

lemma observe_registration_planner:
  assumes "planner_books (mo_planner m) (mo_targets m)"
  shows "keeps_leases (mo_planner m) (mo_planner (observe_registration app operation result now m))
    \<and> same_targets (mo_planner m) (mo_planner (observe_registration app operation result now m))"
  using observe_root_identity_planner [OF assms]
  by (simp add: observe_registration_def
      split: watch_operation.split sum.split watch_operation_result.split)

lemma finish_watch_planner:
  assumes "planner_books (mo_planner m) (mo_targets m)"
    "finish_watch app other (operation, result) now delay m = (refresh, m')"
  shows "keeps_leases (mo_planner m) (mo_planner m') \<and> same_targets (mo_planner m) (mo_planner m')"
    and "fst (queue_complete operation succeeded now delay (mo_watch_queue m)) \<Longrightarrow>
      wq_active (mo_watch_queue m') = None"
proof -
  let ?q = "\<lambda>succeeded. snd (queue_complete operation succeeded now delay (mo_watch_queue m))"
  let ?m = "\<lambda>succeeded. m\<lparr>mo_watch_queue := ?q succeeded\<rparr>"
  let ?o = "\<lambda>succeeded. observe_registration app operation result now (?m succeeded)"
  have o: "keeps_leases (mo_planner m) (mo_planner (?o succeeded))
      \<and> same_targets (mo_planner m) (mo_planner (?o succeeded))" for succeeded
    using observe_registration_planner [of "?m succeeded" app operation result now] assms(1) by simp
  then show "keeps_leases (mo_planner m) (mo_planner m') \<and> same_targets (mo_planner m) (mo_planner m')"
    using assms(2) by (auto simp: finish_watch_def Let_def case_prod_beta
        split: option.splits if_splits)
  show "wq_active (mo_watch_queue m') = None"
    if "fst (queue_complete operation succeeded now delay (mo_watch_queue m))"
  proof -
    have completed: "fst (queue_complete operation b now delay (mo_watch_queue m))
        \<and> wq_active (?q b) = None" for b
      using that by (auto simp: queue_complete_def Let_def
          split: option.splits if_splits watch_operation.split)
    then show ?thesis
      using assms(2) by (auto simp: finish_watch_def Let_def case_prod_beta
          split: option.splits if_splits)
  qed
qed

lemma watch_done_books:
  assumes books: "monitor_books app m" and "operation \<in> set (mo_watch_tasks m)"
    and f: "finish_watch app other (operation, result) now delay
      (m\<lparr>mo_watch_tasks := remove1 operation (mo_watch_tasks m)\<rparr>) = (refresh, m')"
  shows "monitor_books app (m'\<lparr>mo_forced := forced\<rparr>)"
proof -
  have active: "mo_watch_tasks m = [operation]"
    "fst (queue_complete operation b now delay (mo_watch_queue m))" for b
    using books assms(2)
    by (auto simp: monitor_books_def operations_of_def queue_complete_def Let_def
        split: option.splits)
  note p = finish_watch_planner [OF _ f]
  have "mo_watch_tasks m' = operations_of (mo_watch_queue m')"
    using finish_watch_fields(3) [OF f] p(2) books active
    by (simp add: operations_of_def monitor_books_def)
  then have "monitor_books app m'"
    by (rule_tac monitor_books_planner [OF books])
      (use p books finish_watch_fields [OF f] in \<open>auto simp: monitor_books_def\<close>)
  then show ?thesis by (simp add: monitor_books_def)
qed

lemma watch_lost_books:
  assumes books: "monitor_books app m" and "operation \<in> set (mo_watch_tasks m)"
    and f: "fail_watch now delay (m\<lparr>mo_watch_tasks := remove1 operation (mo_watch_tasks m)\<rparr>)
      = (refresh, m')"
  shows "monitor_books app (m'\<lparr>mo_forced := forced\<rparr>)"
proof -
  have "mo_watch_tasks m = [operation]" "wq_active (mo_watch_queue m') = None"
    using books assms(2) f
    by (auto simp: monitor_books_def operations_of_def fail_watch_def fail_active_def
        queue_complete_def Let_def split: option.splits watch_operation.splits)
  moreover from this have "mo_watch_tasks m' = []" using fail_watch_fields(5) [OF f] by simp
  ultimately show ?thesis
    using books fail_watch_fields(1-4) [OF f] by (simp add: monitor_books_def operations_of_def)
qed


lemma dispatch_candidate_fields [simp]:
  "mo_planner (dispatch_candidate other g candidate target m) = mo_planner m"
  "mo_targets (dispatch_candidate other g candidate target m) = mo_targets m"
  "mo_watch_queue (dispatch_candidate other g candidate target m) = mo_watch_queue m"
  "mo_watch_tasks (dispatch_candidate other g candidate target m) = mo_watch_tasks m"
  by (simp_all add: dispatch_candidate_def Let_def)

lemma dispatch_step_books:
  assumes books: "monitor_books app m" and limit: "limit = max_concurrent_scans (ac_scanner app)"
    and d: "dispatch_step other g limit now m = (continues, m')"
  shows "monitor_books app m'"
  using d
proof (cases rule: dispatch_step_cases)
  case (idle p)
  have "om_wf (pl_targets (mo_planner m))" using books by (simp add: monitor_books_def planner_books_def)
  then have "p = mo_planner m" using idle(3) next_candidate_idle by blast
  then show ?thesis using books idle(2) by simp
next
  case (unknown candidate p)
  have wf: "om_wf (pl_targets (mo_planner m))"
    using books by (simp add: monitor_books_def planner_books_def)
  note n = next_candidate_books(1) [OF wf unknown(3)]
  note c = complete_fields [where c = candidate and now = now and completion = "Planner.Failed" and p = p]
  show ?thesis
    using books unknown(5) n c unknown_candidate_leases_ok [OF wf unknown(3)]
    by (simp add: monitor_books_def planner_books_def same_targets_def)
next
  case (dispatched candidate p target)
  have wf: "om_wf (pl_targets (mo_planner m))"
    using books by (simp add: monitor_books_def planner_books_def)
  obtain s where s: "mo_scans m' = mo_scans m @ [s]" "rn_candidate s = candidate"
    by (rule dispatch_candidate_scans [of other g candidate target "m\<lparr>mo_planner := p\<rparr>"])
      (use dispatched(5) in simp)
  show ?thesis
    using books dispatched(2,5) limit s next_candidate_books [OF wf dispatched(3)]
    by (simp add: monitor_books_def planner_books_def same_targets_def)
qed

lemma scan_done_books:
  assumes books: "monitor_books app m"
    and m1: "m1 = m\<lparr>mo_scans := remove1 scan (mo_scans m), mo_limiter := limiter\<rparr>"
    and settled: "cp_scan completed = scan" "settle_scan app completed now m1 = (acknowledged, m2)"
  shows "monitor_books app (apply_soft_disk_scan app completed now m1)"
proof -
  let ?p = "snd (Planner.complete (rn_candidate scan) now
    (scan_completion_of (cp_result completed)) (mo_planner m))"
  let ?m = "m1\<lparr>mo_planner := ?p\<rparr>"
  note c = complete_fields [where c = "rn_candidate scan" and now = now
      and completion = "scan_completion_of (cp_result completed)" and p = "mo_planner m"]
  have "planner_books ?p (mo_targets m)"
    using books c by (simp add: monitor_books_def planner_books_def same_targets_def)
  moreover have "leases_ok ?p (remove1 scan (mo_scans m))"
    using books by (intro complete_leases_ok) (simp_all add: monitor_books_def)
  moreover have "length (remove1 scan (mo_scans m)) \<le> length (mo_scans m)"
    by (simp add: length_remove1)
  ultimately have "monitor_books app ?m"
    using books m1 by (auto simp: monitor_books_def)
  moreover from this have "keeps_leases (mo_planner ?m) (mo_planner m2)
      \<and> same_targets (mo_planner ?m) (mo_planner m2)"
    using settled(2) observe_root_identity_planner [of ?m] m1 settled(1)
    by (auto simp: settle_scan_def Let_def case_prod_beta monitor_books_def
        split: option.splits if_splits)
  ultimately have "monitor_books app m2"
    by (rule_tac monitor_books_planner [of app ?m])
      (use settle_scan_fields [OF settled(2)] in \<open>auto simp: monitor_books_def operations_of_def\<close>)
  then show ?thesis
    using settled(2) by (auto simp: apply_soft_disk_scan_def monitor_books_def split: option.split)
qed

lemma distrust_all_planner:
  "keeps_leases (mo_planner m) (mo_planner (fold (distrust now) ids m))
    \<and> same_targets (mo_planner m) (mo_planner (fold (distrust now) ids m))"
proof (induction ids arbitrary: m)
  case (Cons i ids)
  have "mo_planner (distrust now i m) = snd (set_watcher_trusted i False now (mo_planner m))"
    by (simp add: distrust_def)
  then have "keeps_leases (mo_planner m) (mo_planner (distrust now i m))"
    "same_targets (mo_planner m) (mo_planner (distrust now i m))"
    using set_watcher_trusted_keeps by metis+
  from keeps_leases_trans [OF this(1)] same_targets_trans [OF this(2)] Cons [of "distrust now i m"]
  show ?case by simp
qed simp

lemma disable_watcher_planner:
  "keeps_leases (mo_planner m) (mo_planner (disable_watcher now m))
    \<and> same_targets (mo_planner m) (mo_planner (disable_watcher now m))"
  using distrust_all_planner [of "m\<lparr>mo_watch_tasks := [],
    mo_watch_queue := queue_disable (mo_watch_queue m), mo_watcher := None, mo_sequence := 0\<rparr>"]
  by (simp add: disable_watcher_def)

lemma check_stalled_books:
  assumes "monitor_books app m"
  shows "monitor_books app (check_stalled app now m)"
proof -
  let ?t = "take_stalled now (max (cf_scan_timeout_seconds (ac_scanner app)) 1 * 1000000000)
    (mo_watch_queue m)"
  let ?m = "m\<lparr>mo_watch_queue := snd ?t\<rparr>"
  have "operations_of (snd ?t) = operations_of (mo_watch_queue m)"
    by (simp add: operations_of_def take_stalled_def split: option.split)
  then have m: "monitor_books app ?m" using assms by (simp add: monitor_books_def)
  have "monitor_books app (disable_watcher now ?m)"
    by (rule monitor_books_planner [OF m])
      (use disable_watcher_planner [of ?m now] in \<open>simp_all add: operations_of_def\<close>)
  then show ?thesis using m by (simp add: check_stalled_def Let_def case_prod_beta)
qed

lemma monitor_step_books:
  assumes "monitor_step app r r'" "monitor_books app (mr_monitor r)"
  shows "monitor_books app (mr_monitor r')"
  using assms
proof (cases rule: monitor_step.cases)
  case (sync_end m current)
  then show ?thesis
    using assms(2) by (simp add: monitor_books_def operations_of_def)
      (simp add: sync_finish_def Let_def)
next
  case (drain m h' changed m')
  then show ?thesis using assms(2) drain_work_fields [of m changed m'] by (simp add: monitor_books_def)
next
  case (watch_done m h' operation other result now delay refresh m')
  then show ?thesis using watch_done_books [of app m] assms(2) by simp
next
  case (watch_lost m operation now delay refresh m')
  then show ?thesis using watch_lost_books [of app m] assms(2) by simp
next
  case (start_scan m h' g now continues m')
  then show ?thesis using dispatch_step_books [of app m] assms(2) by simp
next
  case (scan_done m scan sw completed calls limiter m1 now acknowledged m2)
  have "monitor_books app (apply_soft_disk_scan app completed now m1)"
    using scan_done_books [OF _ scan_done(5) run_scan_task_scan [OF scan_done(4)] scan_done(6)]
      assms(2) scan_done(2) by simp
  then show ?thesis using scan_done(1) by simp
next
  case (others_act m h')
  then show ?thesis using assms(2) by (simp add: monitor_books_def)
next
  case (sync_one m h' m' now target)
  then show ?thesis using assms(2) sync_candidate_books by simp
next
  case (remove_one m h' m' i)
  then show ?thesis using assms(2) sync_removed_books by simp
next
  case (refresh_one m h' m' other g now i)
  then show ?thesis using assms(2) refresh_target_books by simp
next
  case (start_watch m now)
  then show ?thesis using assms(2) dispatch_watch_books by simp
next
  case (stalled m now)
  then show ?thesis using assms(2) check_stalled_books by simp
qed

lemma planner_new_books: "planner_books (planner_new config) [] \<and> leases_ok (planner_new config) scans"
  by (simp add: planner_books_def planner_new_def normalized_def leases_ok_def Let_def)

lemma monitor_init_books:
  assumes "monitor_init app r"
  shows "monitor_books app (mr_monitor r)"
proof -
  obtain started created where m: "mr_monitor r = monitor_new app started created"
    using assms by (auto simp: monitor_init_def)
  obtain config where "mo_planner (monitor_new app started created) = planner_new config"
    by (simp add: monitor_new_def Let_def)
  moreover have "mo_targets (monitor_new app started created) = []"
    "mo_scans (monitor_new app started created) = []"
    "mo_watch_tasks (monitor_new app started created) = []"
    "mo_watch_queue (monitor_new app started created) = queue_default"
    by (simp_all add: monitor_new_def Let_def)
  ultimately show ?thesis
    using planner_new_books
    by (simp add: m monitor_books_def operations_of_def queue_default_def)
qed

interpretation bookkeeping: step_invariant "monitor_init app" "monitor_step app"
  "\<lambda>r. monitor_books app (mr_monitor r)"
  by unfold_locales (blast intro: monitor_init_books monitor_step_books)+



section \<open>The dispatch loop ends\<close>

definition due_ids :: "planner \<Rightarrow> nat \<Rightarrow> string set" where
  "due_ids p now = {i. \<exists>t d kind reason. om_get (pl_targets p) i = Some t
     \<and> due_work (pl_config p) t = Some (d, kind, reason) \<and> d \<le> now}"

lemma finite_due_ids [simp]: "finite (due_ids p now)"
proof (rule finite_subset)
  show "due_ids p now \<subseteq> om_keys (pl_targets p)"
    by (force simp: due_ids_def dest: om_get_in)
qed simp

lemma due_entries_ids:
  assumes "om_wf (pl_targets p)"
  shows "due_entries p now = [] \<longleftrightarrow> due_ids p now = {}"
  using om_get_iff [OF assms] by (fastforce simp: due_entries_Nil due_ids_def)

lemma next_candidate_due:
  assumes "om_wf (pl_targets p)" "next_candidate now p = (Some c, p')"
  shows "sc_target_id c \<in> due_ids p now" "due_ids p' now = due_ids p now - {sc_target_id c}"
proof -
  obtain t where t: "om_get (pl_targets p) (sc_target_id c) = Some t"
    "due_work (pl_config p) t = Some (sc_due_at c, sc_kind c, sc_reason c)" "sc_due_at c \<le> now"
    "p' = p\<lparr>pl_next_token := max (sat_add (pl_next_token p) 1) 1,
       pl_dispatch_order := max (sat_add (pl_dispatch_order p) 1) 1,
       pl_targets := om_put (pl_targets p) (sc_target_id c)
         (t\<lparr>last_dispatch_order := max (sat_add (pl_dispatch_order p) 1) 1,
            last_dispatch_at := Some now, in_flight := Some \<lparr>if_token = sc_token c,
              if_revision = revision t\<rparr>\<rparr>)\<rparr>"
    by (rule next_candidate_Some [OF assms])
  show "sc_target_id c \<in> due_ids p now" using t by (auto simp: due_ids_def)
  have "due_work config (t\<lparr>last_dispatch_order := a, last_dispatch_at := b, in_flight := Some l\<rparr>) = None"
    for config a b l by (simp add: due_work_def)
  then show "due_ids p' now = due_ids p now - {sc_target_id c}"
    unfolding due_ids_def t(4) by auto
qed

lemma leased_candidate:
  assumes "om_wf (pl_targets p)" "next_candidate now p = (Some c, p')"
  obtains t where "om_get (pl_targets p') (sc_target_id c) = Some t"
    "in_flight t = Some \<lparr>if_token = sc_token c, if_revision = sc_revision c\<rparr>"
    "revision t = sc_revision c" "ts_fingerprint (spec t) = sc_fingerprint c"
    "ts_root_identity (spec t) = sc_root_identity c"
  using assms(2) that
  by (auto simp: next_candidate_def put_target_def Let_def split: if_splits option.splits prod.splits)

lemma failed_candidate_due:
  assumes "om_wf (pl_targets p)" "next_candidate now p = (Some c, p')"
    and "now < duration_max" "0 < Planner.scan_interval (pl_config p)"
  shows "due_ids (snd (Planner.complete c now Planner.Failed p')) now \<subseteq> due_ids p' now"
proof -
  obtain t where t: "om_get (pl_targets p') (sc_target_id c) = Some t"
    "in_flight t = Some \<lparr>if_token = sc_token c, if_revision = sc_revision c\<rparr>"
    "revision t = sc_revision c" "ts_fingerprint (spec t) = sc_fingerprint c"
    "ts_root_identity (spec t) = sc_root_identity c"
    by (rule leased_candidate [OF assms(1,2)])
  let ?due = "add_tick now (Planner.scan_interval (pl_config p'))"
  let ?t = "t\<lparr>in_flight := None, last_scan_at := Some now, next_periodic_due := ?due,
    full_req := Some \<lparr>fr_due_at = ?due,
      fr_generation = max (dirty_generation t) (sc_captured_generation c),
      fr_reason = RetryAfterFailure\<rparr>\<rparr>"
  have "snd (Planner.complete c now Planner.Failed p') = put_target p' (sc_target_id c) ?t"
    using t by (simp add: Planner.complete_def Let_def)
  moreover have "now < ?due"
    using assms(3,4) next_candidate_books(1) [OF assms(1,2)] by (simp add: add_tick_def)
  ultimately show ?thesis
    by (auto simp: due_ids_def put_target_def due_work_def split: if_splits)
qed

lemma dispatch_step_due:
  assumes "monitor_books app m" "dispatch_step other g limit now m = (True, m')" "now < duration_max"
  shows "due_ids (mo_planner m') now \<subset> due_ids (mo_planner m) now"
proof -
  have wf: "om_wf (pl_targets (mo_planner m))" "0 < Planner.scan_interval (pl_config (mo_planner m))"
    using assms(1) by (auto simp: monitor_books_def planner_books_def)
  from assms(2) show ?thesis
  proof (cases rule: dispatch_step_cases)
    case (unknown candidate p)
    then show ?thesis
      using next_candidate_due [OF wf(1) unknown(3)]
        failed_candidate_due [OF wf(1) unknown(3) assms(3) wf(2)] by auto
  next
    case (dispatched candidate p target)
    then show ?thesis using next_candidate_due [OF wf(1) dispatched(3)] by auto
  qed simp
qed

lemma dispatch_loop_ends:
  assumes "monitor_books app m" "now < duration_max"
    and limit: "limit = max_concurrent_scans (ac_scanner app)"
  shows "\<exists>m'. dispatch_due_scans others gs limit now k m = Some m' \<and> monitor_books app m'
    \<and> (limit \<le> length (mo_scans m') \<or> due_ids (mo_planner m') now = {})
    \<and> prefix (mo_scans m) (mo_scans m')"
  using assms(1)
proof (induction "card (due_ids (mo_planner m) now)" arbitrary: m k rule: less_induct)
  case less
  obtain continues m1 where d: "dispatch_step (others k) (gs k) limit now m = (continues, m1)"
    by fastforce
  note books = dispatch_step_books [OF less.prems limit d]
  show ?case
  proof (cases continues)
    case False
    then have "dispatch_due_scans others gs limit now k m = Some m1"
      using d by (subst dispatch_due_scans.simps) simp
    moreover have "mo_scans m1 = mo_scans m
        \<and> (limit \<le> length (mo_scans m1) \<or> due_ids (mo_planner m1) now = {})"
      using d
    proof (cases rule: dispatch_step_cases)
      case (idle p)
      have wf: "om_wf (pl_targets (mo_planner m))" "\<not> pl_shutdown (mo_planner m)"
        using less.prems by (auto simp: monitor_books_def planner_books_def)
      show ?thesis
      proof (cases "limit \<le> length (mo_scans m)")
        case False
        then have n: "next_candidate now (mo_planner m) = (None, p)" using idle(3) by simp
        then have "due_ids p now = {}"
          using next_candidate_idle [OF wf(1) n] next_candidate_None [OF wf(1), of now] wf
            due_entries_ids by auto
        then show ?thesis using idle(2) by simp
      qed (use idle(2) in simp)
    qed (use False in simp_all)
    ultimately show ?thesis using books by auto
  next
    case True
    have "card (due_ids (mo_planner m1) now) < card (due_ids (mo_planner m) now)"
      using dispatch_step_due [of app m _ _ limit now m1] less.prems d True assms(2)
      by (intro psubset_card_mono) auto
    from less.hyps [OF this books, of "k + 1"] obtain m' where
      m': "dispatch_due_scans others gs limit now (k + 1) m1 = Some m'" "monitor_books app m'"
      "limit \<le> length (mo_scans m') \<or> due_ids (mo_planner m') now = {}"
      "prefix (mo_scans m1) (mo_scans m')" by blast
    have "dispatch_due_scans others gs limit now k m = Some m'"
      using d True m'(1) by (subst dispatch_due_scans.simps) simp
    moreover have "prefix (mo_scans m) (mo_scans m1)"
      using d by (cases rule: dispatch_step_scans) simp_all
    ultimately show ?thesis using m' prefix_order.trans by blast
  qed
qed

text \<open>C11: the loop that starts the due scans ends, in whatever state a run has brought the task
  and whatever other threads do meanwhile.  When it ends, as many scans are running as are allowed,
  or no target of the planner is due any more; and no scan that was running has been dropped.\<close>

theorem dispatch_due_scans_ends:
  assumes "reach (monitor_init app) (monitor_step app) r" "now < duration_max"
  shows "\<exists>m'. dispatch_due_scans others gs (max_concurrent_scans (ac_scanner app)) now k
      (mr_monitor r) = Some m'
    \<and> (length (mo_scans m') = max_concurrent_scans (ac_scanner app)
       \<or> (\<forall>i t d kind reason. om_get (pl_targets (mo_planner m')) i = Some t \<longrightarrow>
            due_work (pl_config (mo_planner m')) t = Some (d, kind, reason) \<longrightarrow> now < d))
    \<and> length (mo_scans m') \<le> max_concurrent_scans (ac_scanner app)
    \<and> prefix (mo_scans (mr_monitor r)) (mo_scans m')"
proof -
  obtain m' where m': "dispatch_due_scans others gs (max_concurrent_scans (ac_scanner app)) now k
      (mr_monitor r) = Some m'" "monitor_books app m'"
    "max_concurrent_scans (ac_scanner app) \<le> length (mo_scans m') \<or> due_ids (mo_planner m') now = {}"
    "prefix (mo_scans (mr_monitor r)) (mo_scans m')"
    using dispatch_loop_ends [OF bookkeeping.reach_inv [OF assms(1)] assms(2) refl] by blast
  then show ?thesis by (fastforce simp: due_ids_def monitor_books_def not_le)
qed


section \<open>A round of the loop ends\<close>

lemma join_scan_books:
  assumes "monitor_books app m" "cp_scan completed = scan"
  shows "monitor_books app (join_scan app scan (Some completed) now m)"
proof -
  let ?m = "m\<lparr>mo_scans := remove1 scan (mo_scans m)\<rparr>"
  obtain acknowledged m2 where "settle_scan app completed now ?m = (acknowledged, m2)" by fastforce
  then have "monitor_books app (apply_soft_disk_scan app completed now ?m)"
    using scan_done_books [OF assms(1) _ assms(2), of ?m "mo_limiter m"] by simp
  then show ?thesis by (simp add: join_scan_def finish_soft_disk_scan_def)
qed

lemma join_watch_books:
  assumes "monitor_books app m" "operation \<in> set (mo_watch_tasks m)"
  shows "monitor_books app (join_watch app other operation result now m)"
proof (cases result)
  case None
  then show ?thesis
    using watch_lost_books [OF assms prod.collapse [symmetric]]
    by (simp add: join_watch_def Let_def case_prod_beta)
next
  case (Some outcome)
  then show ?thesis
    using watch_done_books [OF assms prod.collapse [symmetric]]
    by (simp add: join_watch_def Let_def case_prod_beta)
qed

lemma drain_work_books:
  "monitor_books app m \<Longrightarrow> monitor_books app (snd (drain_work m))"
  using drain_work_fields [of m "fst (drain_work m)" "snd (drain_work m)"]
  by (simp add: monitor_books_def)

lemma refresh_watcher_work_books:
  assumes "monitor_books app m"
  shows "monitor_books app (refresh_watcher_work others gs now m)"
proof -
  have "monitor_books app (fold (\<lambda>(k, i). refresh_target (others k) (gs k) now i) is m)"
    if "monitor_books app m" for "is" m
    using that by (induction "is" arbitrary: m) (auto simp: refresh_target_books)
  then show ?thesis
    using drain_work_books [OF assms] by (simp add: refresh_watcher_work_def case_prod_beta)
qed

text \<open>The workers a round finds ended: scans that return a result, and the running operation.\<close>

definition joins_ok :: "round_input \<Rightarrow> soft_monitor \<Rightarrow> bool" where
  "joins_ok rd m \<longleftrightarrow> (\<forall>j \<in> set (rd_scans rd). \<exists>c. snd j = Some c \<and> cp_scan c = fst j)
     \<and> (rd_watches rd = [] \<or> map fst (rd_watches rd) = mo_watch_tasks m)"

lemma join_scans_books:
  assumes "monitor_books app m" "\<forall>j \<in> snd ` set js. \<exists>c. snd j = Some c \<and> cp_scan c = fst j"
  shows "monitor_books app (fold (\<lambda>(k, scan, completed). join_scan app scan completed (now k)) js m)"
  using assms by (induction js arbitrary: m) (auto simp: join_scan_books)

lemma join_scan_tasks [simp]: "mo_watch_tasks (join_scan app scan completed now m) = mo_watch_tasks m"
proof (cases completed)
  case (Some c)
  let ?m = "m\<lparr>mo_scans := remove1 scan (mo_scans m)\<rparr>"
  obtain acknowledged m2 where "settle_scan app c now ?m = (acknowledged, m2)" by fastforce
  then show ?thesis
    using settle_scan_fields(4) [of app c now ?m acknowledged m2] Some
    by (simp add: join_scan_def finish_soft_disk_scan_def apply_soft_disk_scan_def split: option.split)
qed (simp add: join_scan_def finish_soft_disk_scan_def)

lemma join_scans_tasks:
  "mo_watch_tasks (fold (\<lambda>(k, scan, completed). join_scan app scan completed (now k)) js m)
    = mo_watch_tasks m"
  by (induction js arbitrary: m) auto

lemma collect_finished_books:
  assumes "monitor_books app m" "joins_ok rd m"
  shows "monitor_books app (collect_finished app rd m)"
proof -
  let ?m = "fold (\<lambda>(k, scan, completed). join_scan app scan completed (rd_now rd 0 k))
    (enumerate 0 (rd_scans rd)) m"
  have "snd ` set (enumerate 0 (rd_scans rd)) = set (rd_scans rd)"
    by (metis list.set_map map_snd_enumerate)
  then have scans: "\<forall>j \<in> snd ` set (enumerate 0 (rd_scans rd)). \<exists>c. snd j = Some c \<and> cp_scan c = fst j"
    using assms(2) by (simp add: joins_ok_def)
  note books = join_scans_books [OF assms(1) scans, of "rd_now rd 0"]
  have tasks: "length (mo_watch_tasks m) \<le> 1"
    using assms(1) by (simp add: monitor_books_def operations_of_def split: option.split)
  show ?thesis
  proof (cases "rd_watches rd")
    case Nil
    then show ?thesis using books by (simp add: collect_finished_def)
  next
    case (Cons j js)
    then have fst: "fst j # map fst js = mo_watch_tasks m" using assms(2) by (simp add: joins_ok_def)
    then have "js = []" using tasks by (cases js) (simp_all flip: fst)
    moreover have "fst j \<in> set (mo_watch_tasks ?m)"
      unfolding join_scans_tasks fst [symmetric] by simp
    ultimately have "js = []" "fst j \<in> set (mo_watch_tasks ?m)" by blast+
    then show ?thesis
      using Cons join_watch_books [OF books, of "fst j"]
      by (simp add: collect_finished_def Let_def case_prod_beta)
  qed
qed

text \<open>Every round of the loop comes to its end, in every state a run has reached.\<close>

lemma monitor_round_ends:
  assumes "reach (monitor_init app) (monitor_step app) r" "joins_ok rd (mr_monitor r)"
    and "rd_now rd 4 0 < duration_max"
  shows "\<exists>result. monitor_round app rd (mr_monitor r) = Some result"
proof -
  let ?m = "dispatch_watch (rd_now rd 3 0) (refresh_watcher_work (rd_others rd 2)
    (rd_generations rd 2) (rd_now rd 2 0) (collect_finished app rd (mr_monitor r)))"
  have "monitor_books app ?m"
    by (intro dispatch_watch_books refresh_watcher_work_books collect_finished_books
        bookkeeping.reach_inv assms)
  then show ?thesis
    using dispatch_loop_ends [OF _ assms(3) refl, of app ?m "rd_others rd 4" "rd_generations rd 4" 0]
    by (auto simp: monitor_round_def Let_def)
qed

section \<open>Example\<close>

definition example_app :: app_constants where
  "example_app = \<lparr>ac_hex_sha256 = (\<lambda>_. ''f''),
     ac_scanner = \<lparr>cf_scan_interval_seconds = 5, cf_use_inotify = True,
       cf_full_scan_interval_seconds = 300, cf_inotify_debounce_milliseconds = 250,
       cf_max_dirty_paths_per_instance = 4, cf_max_concurrent_scans = 2,
       cf_max_cached_directories_global = 10, cf_max_entries_per_scan = 100,
       cf_scan_timeout_seconds = 5, cf_max_consecutive_scan_failures = 3,
       cf_safety_reserve_mib = 16, cf_recovery_percent = 90, cf_shutdown_grace_seconds = 30\<rparr>,
     ac_disk_mode = SoftScanner, ac_paths = path_config_default, ac_bridge_version = ''1''\<rparr>"

definition example_start :: monitor_run where
  "example_start = \<lparr>mr_monitor = monitor_new example_app 0 True,
     mr_history = \<lparr>hs_watcher = watcher_new 4 0 True, hs_captured = {}, hs_acknowledged = {},
       hs_changes = {}\<rparr>, mr_measured = {}\<rparr>"

text \<open>A worker has registered the watch of a target.\<close>

definition example_run :: monitor_run where
  "example_run = \<lparr>mr_monitor = (monitor_new example_app 0 True)\<lparr>mo_watcher := Some example_watcher\<rparr>,
     mr_history = \<lparr>hs_watcher = example_watcher, hs_captured = {}, hs_acknowledged = {},
       hs_changes = {(''i'', 1, [], 0)}\<rparr>, mr_measured = {}\<rparr>"

lemma example_monitor_watcher:
  "mo_watcher (monitor_new example_app 0 True) = Some (watcher_new 4 0 True)"
  by (simp add: monitor_new_def example_app_def Let_def)

lemma example_run_reach: "reach (monitor_init example_app) (monitor_step example_app) example_run"
proof -
  let ?w = "watcher_new 4 0 True"
  let ?h = "mr_history example_start"
  let ?h1 = "mr_history example_run"
  have "monitor_init example_app example_start"
    using example_monitor_watcher
    by (auto simp: monitor_init_def example_start_def sees_def watch_init_def example_new)
  then have "reach (monitor_init example_app) (monitor_step example_app) example_start"
    by (rule reach_init)
  moreover have "other_step ?h ?h1"
    using step_replace [of ?w ?h "''i''" "''f''" "[RootDir, Normal ''d'']" 0]
    by (simp add: other_step_def example_start_def example_run_def example_new has_room_def
        example_watcher_def)
  from others_act [OF refl this, of example_app]
  have "monitor_step example_app example_start example_run"
    by (simp add: example_start_def example_run_def example_monitor_watcher)
  ultimately show ?thesis by (rule reach_step)
qed

theorem changes_are_measured_witness:
  "\<exists>t. hm_get (ws_targets (hs_watcher (mr_history example_run))) ''i'' = Some t
    \<and> (covered [] 0 t \<or> (\<exists>ms. ms \<in> mr_measured example_run))"
proof -
  obtain t where t: "hm_get (ws_targets example_watcher) ''i'' = Some t"
    "wt_registration_generation t = 1"
    by (simp add: example_watcher_def watcher_eval)
  then show ?thesis
    using changes_are_measured [OF example_run_reach, of "''i''" t "[]" 0]
    by (auto simp: example_run_def)
qed


theorem dispatch_due_scans_ends_witness:
  "\<exists>m'. dispatch_due_scans (\<lambda>_ w. w) (\<lambda>_. 0) (max_concurrent_scans (ac_scanner example_app)) 7 0
    (mr_monitor example_run) = Some m'"
proof -
  have "7 < duration_max" by (simp add: duration_max_def)
  then show ?thesis using dispatch_due_scans_ends [OF example_run_reach] by blast
qed


end
