(* ===== verification/SoftRuntime.thy ===== *)
theory SoftRuntime
  imports SoftMonitor
begin

text \<open>
  The runtime of the daemon behind the soft disk limiter
  (\<open>daemon/soft_disk_limiter/runtime.rs\<close> and \<open>mark_shared_disk_blocked\<close> of
  \<open>server/placement/lifecycle/start_disk.rs\<close>): blocking and unblocking an instance in the metadata,
  and stopping its container.  The metadata database and the container engine answer through
  arguments; a write that fails leaves the metadata as it was.  Of a shared runtime, fencing its
  tenants and copying its state to them is recorded, not modelled.
\<close>

section \<open>Metadata\<close>

record app_store =
  st_instances :: "(string \<times> monitored_metadata) list"
  st_placements :: "(string \<times> engine_runtime) list"
  st_fenced_runtimes :: "string list"
  st_stopped :: "string list"

text \<open>The errors the storage answers with, if it does.\<close>

record store_answers =
  sa_upsert :: "string option"
  sa_placement_get :: "string option"
  sa_save_runtime :: "string option"

definition shared_disk_target_is_current :: "engine_runtime \<Rightarrow> soft_disk_target \<Rightarrow> bool" where
  "shared_disk_target_is_current runtime target \<longleftrightarrow>
     er_deployment_mode runtime = Shared
     \<and> er_runtime_id runtime = tg_instance_id target
     \<and> er_created_at runtime = tg_created_at target
     \<and> er_protocol runtime = tg_protocol target
     \<and> er_status runtime \<in> {RuntimeRunning, RuntimeBooting}
     \<and> mib_to_bytes (er_disk_mib runtime) = tg_limit_bytes target"

definition mark_shared_disk_blocked ::
  "store_answers \<Rightarrow> soft_disk_target \<Rightarrow> app_store \<Rightarrow> (string + bool) \<times> app_store" where
  "mark_shared_disk_blocked answers target store =
     (case sa_placement_get answers of
        Some e \<Rightarrow> (Inl e, store)
      | None \<Rightarrow>
          (case hm_get (st_placements store) (tg_instance_id target) of
             None \<Rightarrow> (Inr False, store)
           | Some runtime \<Rightarrow>
               if \<not> shared_disk_target_is_current runtime target then (Inr False, store)
               else
                 let runtime = runtime\<lparr>er_status := RuntimeFailed\<rparr>;
                     store = store\<lparr>st_fenced_runtimes := er_runtime_id runtime # st_fenced_runtimes store\<rparr>
                 in (case sa_save_runtime answers of
                       Some e \<Rightarrow> (Inl e, store)
                     | None \<Rightarrow> (Inr True, store\<lparr>st_placements :=
                         hm_insert (st_placements store) (er_runtime_id runtime) runtime\<rparr>))))"

definition persist_disk_block ::
  "app_constants \<Rightarrow> store_answers \<Rightarrow> soft_disk_target \<Rightarrow> app_store \<Rightarrow> (string + bool) \<times> app_store" where
  "persist_disk_block app answers target store =
     (case hm_get (st_instances store) (tg_instance_id target) of
        Some metadata \<Rightarrow>
          if \<not> is_current_target metadata target (ac_disk_mode app) then (Inr False, store)
          else
            let metadata = metadata\<lparr>mm_desired_state := DesiredStopped, mm_disk_limit_blocked := True\<rparr>
            in (case sa_upsert answers of
                  Some e \<Rightarrow> (Inl (''failed to persist disk-limit stop intent: '' @ e), store)
                | None \<Rightarrow> (Inr True, store\<lparr>st_instances :=
                    hm_insert (st_instances store) (mm_instance_id metadata) metadata\<rparr>))
      | None \<Rightarrow> mark_shared_disk_blocked answers target store)"

definition clear_disk_blocked ::
  "app_constants \<Rightarrow> store_answers \<Rightarrow> soft_disk_target \<Rightarrow> app_store \<Rightarrow> (string + unit) \<times> app_store" where
  "clear_disk_blocked app answers target store =
     (case hm_get (st_instances store) (tg_instance_id target) of
        None \<Rightarrow> (Inr (), store)
      | Some metadata \<Rightarrow>
          if \<not> is_current_target metadata target (ac_disk_mode app)
            \<or> \<not> mm_disk_limit_blocked metadata then (Inr (), store)
          else
            let metadata = metadata\<lparr>mm_disk_limit_blocked := False\<rparr>
            in (case sa_upsert answers of
                  Some e \<Rightarrow> (Inl (''failed to clear durable disk-limit block: '' @ e), store)
                | None \<Rightarrow> (Inr (), store\<lparr>st_instances :=
                    hm_insert (st_instances store) (mm_instance_id metadata) metadata\<rparr>)))"

section \<open>Containers\<close>

datatype docker_answer = DockerOk | DockerNotFound | DockerNotRunning | DockerError string

text \<open>The limiter waits for the grace period only, so that an answer may come too late.\<close>

record docker_answers =
  dk_stop_in_time :: bool
  dk_stop :: "soft_disk_target \<Rightarrow> nat \<Rightarrow> docker_answer"
  dk_kill :: "soft_disk_target \<Rightarrow> docker_answer"

abbreviation GRACEFUL_STOP_TIMEOUT_PADDING :: nat where "GRACEFUL_STOP_TIMEOUT_PADDING \<equiv> 5"

fun ignore_absent_container :: "docker_answer \<Rightarrow> string + unit" where
  "ignore_absent_container DockerOk = Inr ()"
| "ignore_absent_container DockerNotFound = Inr ()"
| "ignore_absent_container DockerNotRunning = Inr ()"
| "ignore_absent_container (DockerError e) = Inl e"

definition graceful_stop :: "docker_answers \<Rightarrow> soft_disk_target \<Rightarrow> nat \<Rightarrow> graceful_answer" where
  "graceful_stop docker target grace =
     (if \<not> dk_stop_in_time docker then GracefulTimeout
      else case ignore_absent_container
          (dk_stop docker target (sat_add grace GRACEFUL_STOP_TIMEOUT_PADDING)) of
        Inl e \<Rightarrow> GracefulFailed e | Inr _ \<Rightarrow> GracefulOk)"

definition force_kill :: "docker_answers \<Rightarrow> soft_disk_target \<Rightarrow> string + unit" where
  "force_kill docker target = ignore_absent_container (dk_kill docker target)"

definition app_runtime ::
  "app_constants \<Rightarrow> store_answers \<Rightarrow> docker_answers \<Rightarrow> app_store \<Rightarrow> soft_disk_runtime" where
  "app_runtime app answers docker store =
     \<lparr>rt_persist_disk_block = (\<lambda>target _. fst (persist_disk_block app answers target store)),
      rt_graceful_stop = graceful_stop docker, rt_force_kill = force_kill docker,
      rt_clear_disk_blocked = (\<lambda>target. fst (clear_disk_blocked app answers target store))\<rparr>"

text \<open>What a call to the runtime does to the metadata and the containers.\<close>

fun runtime_effect ::
  "app_constants \<Rightarrow> store_answers \<Rightarrow> docker_answers \<Rightarrow> runtime_call \<Rightarrow> app_store \<Rightarrow> app_store" where
  "runtime_effect app answers docker (PersistDiskBlock target _) store =
     snd (persist_disk_block app answers target store)"
| "runtime_effect app answers docker (ClearDiskBlocked target) store =
     snd (clear_disk_blocked app answers target store)"
| "runtime_effect app answers docker (GracefulStop target grace) store =
     (if graceful_stop docker target grace = GracefulOk
      then store\<lparr>st_stopped := tg_instance_id target # st_stopped store\<rparr> else store)"
| "runtime_effect app answers docker (ForceKill target) store =
     (if force_kill docker target = Inr ()
      then store\<lparr>st_stopped := tg_instance_id target # st_stopped store\<rparr> else store)"

section \<open>Stopping is durable\<close>

definition durably_blocked :: "soft_disk_target \<Rightarrow> app_store \<Rightarrow> bool" where
  "durably_blocked target store =
     (case hm_get (st_instances store) (tg_instance_id target) of
        Some metadata \<Rightarrow> mm_disk_limit_blocked metadata \<and> mm_desired_state metadata = DesiredStopped
      | None \<Rightarrow>
          (case hm_get (st_placements store) (tg_instance_id target) of
             Some runtime \<Rightarrow> er_status runtime = RuntimeFailed | None \<Rightarrow> False))"

text \<open>The sequences of calls one enforcement makes.\<close>

definition calls_ok :: "soft_disk_runtime \<Rightarrow> soft_disk_target \<Rightarrow> runtime_call list \<Rightarrow> bool" where
  "calls_ok rt target calls \<longleftrightarrow> calls = [] \<or> calls = [ClearDiskBlocked target]
     \<or> (\<exists>exceeded rest. calls = PersistDiskBlock target exceeded # rest
          \<and> (rest = [] \<or> rt_persist_disk_block rt target exceeded = Inr True
             \<and> (\<exists>grace. rest = [GracefulStop target grace]
                  \<and> rt_graceful_stop rt target grace = GracefulOk
                \<or> rest = [GracefulStop target grace, ForceKill target]
                  \<and> rt_graceful_stop rt target grace \<noteq> GracefulOk)))"

lemma stop_exceeded_calls_ok: "calls_ok rt target (snd (stop_exceeded config rt target snapshot reason))"
  by (auto simp: calls_ok_def stop_exceeded_def enforce_disk_stop_def stop_with_kill_fallback_def
      Let_def case_prod_beta split: sum.split graceful_answer.split)

lemma enforce_scan_calls: "calls_ok rt target (fst (snd (enforce_scan fp config rt target measured now l)))"
proof -
  have none: "calls_ok rt target []" "calls_ok rt target [ClearDiskBlocked target]"
    by (simp_all add: calls_ok_def)
  show ?thesis
    using none stop_exceeded_calls_ok [of rt target config]
    by (auto simp: enforce_scan_def enforce_capacity_outage_def enforce_unmeasurable_def
        enforce_measured_usage_def case_prod_beta Let_def split: sum.split scan_failure.split)
qed

lemma persist_keeps_stopped: "st_stopped (snd (persist_disk_block app answers target store)) = st_stopped store"
  by (auto simp: persist_disk_block_def mark_shared_disk_blocked_def Let_def split: option.split)

lemma persist_blocks:
  assumes "fst (persist_disk_block app answers target store) = Inr True"
  shows "durably_blocked target (snd (persist_disk_block app answers target store))"
  using assms
  by (auto simp: persist_disk_block_def mark_shared_disk_blocked_def durably_blocked_def Let_def
      is_current_target_def shared_disk_target_is_current_def split: option.splits if_splits)

lemma durably_blocked_stopped [simp]:
  "durably_blocked target (store\<lparr>st_stopped := s\<rparr>) = durably_blocked target store"
  by (simp add: durably_blocked_def split: option.split)

lemma others_kept:
  assumes "i \<noteq> tg_instance_id target"
  shows "hm_get (st_instances (snd (persist_disk_block app answers target store))) i
      = hm_get (st_instances store) i"
    and "hm_get (st_placements (snd (persist_disk_block app answers target store))) i
      = hm_get (st_placements store) i"
    and "hm_get (st_instances (snd (clear_disk_blocked app answers target store))) i
      = hm_get (st_instances store) i"
    and "st_placements (snd (clear_disk_blocked app answers target store)) = st_placements store"
  using assms
  by (auto simp: persist_disk_block_def mark_shared_disk_blocked_def clear_disk_blocked_def Let_def
      is_current_target_def shared_disk_target_is_current_def split: option.split)


section \<open>Example\<close>

text \<open>A target whose directory cannot be measured, at the first failure that stops it.\<close>

definition example_scanner :: soft_disk_scanner_config where
  "example_scanner = \<lparr>cf_scan_interval_seconds = 5, cf_use_inotify = True,
     cf_full_scan_interval_seconds = 300, cf_inotify_debounce_milliseconds = 250,
     cf_max_dirty_paths_per_instance = 4, cf_max_concurrent_scans = 2,
     cf_max_cached_directories_global = 10, cf_max_entries_per_scan = 100,
     cf_scan_timeout_seconds = 5, cf_max_consecutive_scan_failures = 1,
     cf_safety_reserve_mib = 16, cf_recovery_percent = 90, cf_shutdown_grace_seconds = 30\<rparr>"

definition example_constants :: app_constants where
  "example_constants = \<lparr>ac_hex_sha256 = (\<lambda>_. ''f''), ac_scanner = example_scanner,
     ac_disk_mode = SoftScanner, ac_paths = path_config_default, ac_bridge_version = ''1''\<rparr>"

definition example_metadata :: monitored_metadata where
  "example_metadata = \<lparr>mm_instance_id = ''i'', mm_created_at = ''c'', mm_protocol = Postgres,
     mm_deployment_mode = Dedicated, mm_status = Running, mm_desired_state = DesiredRunning,
     mm_disk_mib = 0, mm_disk_enforcement_method = [], mm_disk_limit_blocked = False\<rparr>"

definition example_target :: soft_disk_target where
  "example_target = \<lparr>tg_instance_id = ''i'', tg_created_at = ''c'', tg_protocol = Postgres,
     tg_data_path = ''/d/i'', tg_limit_bytes = 0, tg_durable_blocked = False\<rparr>"

definition example_store :: app_store where
  "example_store = \<lparr>st_instances = [(''i'', example_metadata)], st_placements = [],
     st_fenced_runtimes = [], st_stopped = []\<rparr>"

definition example_answers :: store_answers where
  "example_answers = \<lparr>sa_upsert = None, sa_placement_get = None, sa_save_runtime = None\<rparr>"

definition example_docker :: docker_answers where
  "example_docker = \<lparr>dk_stop_in_time = True, dk_stop = (\<lambda>_ _. DockerOk), dk_kill = (\<lambda>_. DockerOk)\<rparr>"

definition example_gone_directory :: scan_observation where
  "example_gone_directory =
     (let root = \<lparr>ro_open = Inl NOENT, ro_contents = Unlistable NOENT, ro_reopen = Inl NOENT\<rparr>;
          opening = \<lparr>op_dup = Some NOENT, op_step = (\<lambda>_. Some NOENT)\<rparr>
      in \<lparr>so_full = root, so_streaming = root,
          so_partial = \<lparr>to_open = Inl NOENT, to_plan = (\<lambda>_ _. opening), to_stage = (\<lambda>_. opening),
            to_stat = (\<lambda>_. Inl NOENT), to_contents = (\<lambda>_. Unlistable NOENT),
            to_reopen = Inl NOENT\<rparr>\<rparr>)"

definition example_environment :: scan_environment where
  "example_environment = \<lparr>se_permit = PermitClosed, se_worker = OuterDeadline, se_clock = 0,
     se_observation = example_gone_directory, se_seen = []\<rparr>"

lemma example_persisted:
  "persist_disk_block example_constants example_answers example_target example_store
    = (Inr True, example_store\<lparr>st_instances := [(''i'',
        example_metadata\<lparr>mm_desired_state := DesiredStopped, mm_disk_limit_blocked := True\<rparr>)]\<rparr>)"
  by (simp add: persist_disk_block_def example_store_def example_target_def example_metadata_def
      example_constants_def example_answers_def is_current_target_def soft_monitoring_required_def
      enforcement_required_def mib_to_bytes_def sat_mul_def hm_get_Cons hm_insert_def hm_remove_def
      Let_def)


end
