(* ===== verification/Spec2Isabelle.thy ===== *)
theory Spec2Isabelle
  imports SchedulerProps PlannerProps RedisWire PostgresWire MysqlWire MongoRelay RouteProps
    DiskScanProps SoftLimiterProps SoftMonitorBooks SoftRuntime
begin

text \<open>
  \<^bold>\<open>DatabasesEverywhere\<close> is a daemon that runs database instances of eight engines in
  containers and gives clients one public gateway to them.  This development models the parts of
  the daemon that decide: who is routed where, what an authenticated connection may send, which
  import or export job starts next, which data directory is measured next, how its usage is
  measured and when an instance is stopped for it.  All paths below are relative to \<open>src/src/app/\<close>.

  \<^bold>\<open>How the parts work together.\<close>  A client connects to the gateway and speaks its engine's own
  protocol.  The gateway reads the first packets (\<open>gateway/protocols/\<close>), takes the user and the
  database from them, asks the route store (\<open>server/state.rs\<close>) for the instance, rewrites or
  re-derives the login so that the instance accepts it, and after the login copies the
  connection's frames (\<open>gateway/listeners/listener_io/\<close>) while refusing the ones that would leave
  the tenant.  Jobs that move data in and out of instances wait in the execution scheduler
  (\<open>server/jobs/import_export/scheduler/\<close>) until the machine has room for them.  The soft disk
  limiter asks its planner (\<open>server/disk/soft/planner.rs\<close>) which instance to measure next, walks its
  data directory or only the part of it that its watcher has reported as changed
  (\<open>server/disk/usage.rs\<close>, \<open>server/disk/soft/usage_tree.rs\<close>, \<open>server/disk/soft/watcher/\<close>), and stops the instance when the usage reaches its threshold
  (\<open>server/disk/soft/enforcement.rs\<close>).

  \<^bold>\<open>Shared theories.\<close>
  \<^item> \<open>Prelude\<close>: 64-bit unsigned arithmetic on natural numbers with the saturating and checked
    operations of the source, results as sums with the question-mark operator, and the locale
    \<open>step_invariant\<close>: from an invariant of the initial states and steps to one of the reachable
    states.
  \<^item> \<open>Bytes\<close>: bytes as 8-bit words, slices, UTF-8 validation, decimal printing, big- and
    little-endian integers with their round trips.
  \<^item> \<open>OrderedMap\<close>: ordered maps as sorted association lists and the locale \<open>map_laws\<close>.
  \<^item> \<open>HashMap\<close>: hash maps as association lists, another interpretation of \<open>map_laws\<close>.
  \<^item> \<open>Engine\<close>: protocol names, families and cost profiles (\<open>databases/protocol.rs\<close>,
    \<open>databases/engine/\<close>, \<open>utils/limits.rs\<close>).

  \<^bold>\<open>Execution scheduler\<close> (\<open>Scheduler\<close>, \<open>SchedulerProps\<close>).  The state is the record of the
  counters and the queue behind the lock; every critical section is one function: \<open>acquire\<close>,
  \<open>dispatch\<close>, dropping a permit or a registration, closing, refreshing the capacity.  The clock
  and the resource sample are arguments.  The dispatch loop terminates because the queue gets
  shorter.  The lemmas show that the books match the permits that are out, that a grant respects
  the memory budget, that dispatching loses and duplicates no job, grants whatever fits, bypasses
  a waiting job a bounded number of times, and that closing is final.

  \<^bold>\<open>Scan planner\<close> (\<open>Planner\<close>, \<open>PlannerProps\<close>).  The planner record, its targets and every
  operation on them.  The lemmas show that a target is scanned within its interval, the earliest
  due target comes first, the wakeup time is exact, stale completions change nothing, partial
  scans need a baseline, and requirements and back-off survive what must not clear them.

  \<^bold>\<open>Directory scanners\<close> (\<open>DiskScan\<close>, \<open>DiskScanProps\<close>).  What the kernel answers is data: an entry
  carries what every system call about it returns, and the clock is the number of readings that
  are within the budget.  Both traversals are total functions of these answers; the lemmas show
  that the streaming and the caching one agree.

  \<^bold>\<open>Usage cache\<close> (\<open>UsageTree\<close>, \<open>UsageNodes\<close>, \<open>UsageCommit\<close>, \<open>UsageTreeProps\<close>).  The cache of one
  target, its full scan, and the partial scan that replaces subtrees and adds the differences to
  their ancestors.  The invariant says that the nodes are a tree whose totals add up; the lemmas
  show that every operation keeps it and that a partial scan ends with the cache of a full scan.

  \<^bold>\<open>Shared bound of the caches\<close> (\<open>UsageCache\<close>, \<open>UsageCacheProps\<close>).  The slots of all targets, the
  shared counter with the values its compare-exchange loop may see, and the step relation of
  concurrent scans, replacements and evictions; the bound is an invariant of the reachable states.

  \<^bold>\<open>Enforcement\<close> (\<open>SoftLimiter\<close>, \<open>SoftLimiterProps\<close>).  Samples, growth, thresholds, blocking and
  recovery, and the scans that fail.  Operations return the calls they make to the runtime of the
  daemon, whose answers are arguments.  Floating-point results are real numbers rounded by an
  arbitrary function, so the lemmas hold for every rounding.

  \<^bold>\<open>Watcher\<close> (\<open>Watcher\<close>, \<open>WatcherProps\<close>, \<open>WatcherWf\<close>).  Which directories have changed
  (\<open>server/disk/soft/watcher/\<close>): the marks of every target, the handling of notifications, batches
  that are captured, scanned and acknowledged, registration, retirement and the retries of degraded
  watches.  The answers of the notification library are arguments, and so is what other threads do
  while an operation has released the lock.  A run is a sequence of the critical sections with the
  history of what was reported, captured and acknowledged; the lemmas show that no reported change
  is lost and that the marks stay well formed.  The generation counters wrap after \<open>2 ^ 64 - 1\<close>
  changes; the runs stay below that (\<open>has_room\<close>).

  \<^bold>\<open>Queue of watch operations\<close> (\<open>WatchQueue\<close>).  The watches that are desired, confirmed and to be
  removed, the one operation that runs, and the identities of the directories
  (\<open>daemon/soft_disk_limiter/watch_operations.rs\<close>, \<open>root_identity.rs\<close>).  Runs are lists of calls; the
  lemmas show that a watch is confirmed only by its own registration and that no watch to remove
  is forgotten.

  \<^bold>\<open>Supervisor\<close> (\<open>SoftMonitor\<close>, \<open>SoftMonitorProps\<close>, \<open>SoftMonitorBooks\<close>).  The task that joins
  planner, watcher, queue and limiter (\<open>daemon/soft_disk_limiter/mod.rs\<close>, \<open>targets.rs\<close>,
  \<open>scanning.rs\<close>, \<open>watching.rs\<close>).  Each function of the source is a function on the record of the
  task's variables, one round of the loop is \<open>monitor_round\<close>, and \<open>monitor_step\<close> interleaves the
  pieces of the rounds with the other threads.  The lemmas show that a reported change stays marked
  until a successful scan that reaches it has measured the directory, that targets, leases, scans
  and watch operations agree, and that the dispatch loop ends: the number of due targets
  decreases, because a lease ends one and a failure postpones it.  The loop is a partial function,
  so that its end is proved and not assumed.  A scan worker that is aborted outside of its panic
  boundary is not a step of the runs.

  \<^bold>\<open>Runtime of the supervisor\<close> (\<open>SoftRuntime\<close>).  Blocking, unblocking and stopping
  (\<open>daemon/soft_disk_limiter/runtime.rs\<close>); composed with the enforcement, a container is stopped
  only after the stop is durable.

  \<^bold>\<open>Instance paths\<close> (\<open>InstancePaths\<close>).  The roots of the configuration, the identifiers and the
  directories of an instance (\<open>config/paths.rs\<close>, \<open>utils/ids.rs\<close>, \<open>server/paths.rs\<close>), with the proof
  that the directories of two instances never contain one another.

  \<^bold>\<open>Route store\<close> (\<open>RouteStore\<close>, \<open>RouteProps\<close>).  The record of instances, fences, revisions and
  the ten route tables, every method of \<open>InstanceStore\<close> and \<open>InstanceState\<close>.  \<open>RouteProps\<close> reads
  the tables as one relation, gives every operation the same specification (it republishes one
  instance), and shows that lookups are sound in every reachable store, complete when credentials
  are unique, that revisions expose every later change, and that pinned fences hold.  Revisions
  wrap after \<open>2 ^ 64 - 1\<close> operations; the properties are stated below that.

  \<^bold>\<open>Wire protocols\<close> (\<open>RedisWire\<close>, \<open>PostgresWire\<close>, \<open>MysqlWire\<close>, \<open>MongoWire\<close>).  Streams are byte
  lists; reading returns a value and the rest, or the error of the source.  The lemmas show round
  trips of frames, packets, greetings, messages and escaped user names, that rewriting a login
  changes exactly the user or database it should, that the MySQL token the gateway derives is the
  one the client would have sent to the instance, and that it is derived only from a preimage of
  the stored verifier.  Hash functions (\<open>crypto\<close>), the random source and the BSON library
  (\<open>bson_api\<close>) are parameters; what is assumed of them are the named predicates \<open>crypto_ok\<close> and
  \<open>bson_reads_back\<close>, with instances in the witnesses.

  \<^bold>\<open>Relay of authenticated sessions\<close> (\<open>Relay\<close>, \<open>MongoRelay\<close>).  Each copy loop is a total function
  from the client's bytes to what was forwarded and counted and how the loop ended; one round of
  the loop is a step function.  The locales \<open>relay\<close> and \<open>counting_relay\<close> state what a round must
  satisfy and prove once what the loop then guarantees; they are interpreted for PostgreSQL, MySQL
  and MongoDB.  The policy on shared SQL text, buffer admission and deadlines are arguments.

  \<^bold>\<open>Fuel and bounds.\<close>  There is no fuel: loops are structural, have a termination proof, or are
  partial functions with a theorem that they return.
  \<open>u64\<close> and \<open>usize\<close> are natural numbers up to \<open>u64_max\<close>, flags and bytes are words.

  \<^bold>\<open>Not modelled.\<close>  Sockets, TLS, tasks, the Docker API, SQL storage, the file system and the
  processes of database tools: they are I/O or third-party code around the decisions above.
  Writes are assumed to succeed and a read sees the bytes that were sent; the direction from the
  database to the client is a plain copy.  The ClickHouse and Qdrant protocols, gateway admission
  (connection limits and tenant sessions), placement, monitoring and the HTTP API are not part of
  the development.
\<close>

end
